(* ===== verification/Prelude.thy ===== *)
theory Prelude
  imports Main "HOL-Library.Word" "HOL-Library.AList" "HOL-Library.Sublist"
    "HOL-Library.List_Lexorder" "HOL-Library.Char_ord"
begin

unbundle bit_operations_syntax

text \<open>
  Shared vocabulary of the development.

  \<^item> Machine integers are words of their Go width. Go's \<^verbatim>\<open>int\<close> is \<^typ>\<open>int\<close> where
    it only counts or indexes.
  \<^item> \<^verbatim>\<open>time.Time\<close> is a number of nanoseconds since the zero time, \<^verbatim>\<open>time.Duration\<close> a number of
    nanoseconds. Both are \<^typ>\<open>int\<close>: the saturation of \<^verbatim>\<open>Time.Sub\<close> after 292 years is left out.
  \<^item> A Go map is an association list with distinct keys. Reading is \<open>mget\<close>, assignment is
    \<open>mput\<close>, \<^verbatim>\<open>delete\<close> is \<open>mdel\<close>. A \<^verbatim>\<open>range\<close> over a map runs in list order; a statement
    about every such list therefore covers every iteration order Go may pick.
  \<^item> A Go function that returns an error is a sum, \<^const>\<open>Inl\<close> holding the error.
\<close>

section \<open>Types\<close>

type_synonym u8 = "8 word"
type_synonym u16 = "16 word"
type_synonym u32 = "32 word"
type_synonym u64 = "64 word"
type_synonym i64 = "int"
type_synonym bytes = "u8 list"
type_synonym time = "int"
type_synonym duration = "int"
type_synonym ('k, 'v) gomap = "('k \<times> 'v) list"

named_theorems gomap_simps \<open>reading a Go map after an update\<close>
named_theorems model_defs \<open>definitions that component proofs unfold\<close>

section \<open>Durations\<close>

definition Millisecond :: duration where [code_unfold]: "Millisecond = 1000000"
definition Second :: duration where [code_unfold]: "Second = 1000000000"

text \<open>Go's integer division truncates towards zero; \<^verbatim>\<open>Duration.Microseconds\<close> divides by 1000.\<close>

definition godiv :: "int \<Rightarrow> int \<Rightarrow> int" where
  "godiv a b = sgn a * sgn b * (\<bar>a\<bar> div \<bar>b\<bar>)"

lemma godiv_nonneg: "0 \<le> a \<Longrightarrow> 0 < b \<Longrightarrow> godiv a b = a div b"
  by (cases "a = 0") (auto simp: godiv_def)

definition Microseconds :: "duration \<Rightarrow> int" where
  "Microseconds d = godiv d 1000"

section \<open>Go maps\<close>

abbreviation mget :: "('k, 'v) gomap \<Rightarrow> 'k \<Rightarrow> 'v option" where
  "mget m k \<equiv> map_of m k"

abbreviation mput :: "'k \<Rightarrow> 'v \<Rightarrow> ('k, 'v) gomap \<Rightarrow> ('k, 'v) gomap" where
  "mput \<equiv> AList.update"

abbreviation mdel :: "'k \<Rightarrow> ('k, 'v) gomap \<Rightarrow> ('k, 'v) gomap" where
  "mdel \<equiv> AList.delete"

abbreviation mkeys :: "('k, 'v) gomap \<Rightarrow> 'k list" where
  "mkeys m \<equiv> map fst m"

abbreviation mwf :: "('k, 'v) gomap \<Rightarrow> bool" where
  "mwf m \<equiv> distinct (map fst m)"

lemma mget_mput [gomap_simps, simp]: "mget (mput k v m) k' = (if k = k' then Some v else mget m k')"
  by (simp add: update_conv')

lemma mget_mdel [gomap_simps, simp]: "mget (mdel k m) k' = (if k = k' then None else mget m k')"
  by (simp add: delete_conv')

lemma mwf_mput [simp]: "mwf m \<Longrightarrow> mwf (mput k v m)"
  by (rule distinct_update)

lemma mwf_mdel [simp]: "mwf m \<Longrightarrow> mwf (mdel k m)"
  by (rule distinct_delete)

lemma mwf_filter [simp]: "mwf m \<Longrightarrow> mwf (filter P m)"
  by (rule distinct_map_filter)

lemma set_mkeys_mput: "set (mkeys (mput k v m)) = insert k (set (mkeys m))"
  by (simp add: AList.dom_update)

lemma mget_in: "mget m k = Some v \<Longrightarrow> k \<in> set (mkeys m)"
  by (metis domI dom_map_of_conv_image_fst list.set_map)

lemma mget_None_iff: "mget m k = None \<longleftrightarrow> k \<notin> set (mkeys m)"
  by (simp add: map_of_eq_None_iff)

lemma mget_iff_mem: "mwf m \<Longrightarrow> mget m k = Some v \<longleftrightarrow> (k, v) \<in> set m"
  by (meson map_of_SomeD map_of_is_SomeI)

lemma set_mdel: "set (mdel k m) = {e \<in> set m. fst e \<noteq> k}"
  by (auto simp: AList.delete_eq)

lemma set_mput: "mwf m \<Longrightarrow> set (mput k v m) = insert (k, v) {e \<in> set m. fst e \<noteq> k}"
  by (induction m) (force split: if_splits)+

lemma mput_new: "mget m k = None \<Longrightarrow> mput k v m = m @ [(k, v)]"
  by (induction m) (auto split: if_splits)

lemma mget_filter:
  "mwf m \<Longrightarrow> mget (filter P m) k = (case mget m k of None \<Rightarrow> None | Some v \<Rightarrow> if P (k, v) then Some v else None)"
proof (induction m)
  case Nil
  then show ?case by simp
next
  case (Cons e m)
  obtain k' v' where e: "e = (k', v')" by (cases e)
  show ?case
  proof (cases "k' = k")
    case True
    with Cons.prems e have "k \<notin> set (mkeys m)" by simp
    then have "mget m k = None" by (simp add: map_of_eq_None_iff)
    moreover from \<open>k \<notin> set (mkeys m)\<close> have "mget (filter P m) k = None"
      by (auto simp: map_of_eq_None_iff)
    ultimately show ?thesis using True e by simp
  next
    case False
    with Cons e show ?thesis by (simp split: option.splits)
  qed
qed

lemma mget_filter_keys: "mget (filter (\<lambda>(k, _). P k) m) k = (if P k then mget m k else None)"
  by (induction m) auto

lemma length_mdel_less:
  assumes "mget m k = Some v"
  shows "length (mdel k m) < length m"
proof -
  have "length (removeAll k (mkeys m)) < length (mkeys m)"
    using mget_in [OF assms] by (rule length_removeAll_less)
  then show ?thesis by (simp flip: delete_keys)
qed

section \<open>Slices\<close>

text \<open>\<^verbatim>\<open>copy(dst, src)\<close>: as many bytes as both hold, the rest of \<^verbatim>\<open>dst\<close> stays.\<close>

definition gocopy :: "'a list \<Rightarrow> 'a list \<Rightarrow> 'a list" where
  "gocopy dst src = take (length dst) src @ drop (length src) dst"

lemma length_gocopy [simp]: "length (gocopy dst src) = length dst"
  by (simp add: gocopy_def)

lemma take_gocopy [simp]: "length src \<le> length dst \<Longrightarrow> take (length src) (gocopy dst src) = src"
  by (simp add: gocopy_def)

section \<open>Decimal numerals\<close>

text \<open>
  \<^verbatim>\<open>strconv.FormatUint(n, 10)\<close>, also what \<^verbatim>\<open>%d\<close> prints of an unsigned value, and
  \<^verbatim>\<open>strconv.ParseUint(s, 10, 64)\<close>: only digits, at least one, and in range. Go accepts leading zeros.
\<close>

definition digit_char :: "nat \<Rightarrow> char" where
  "digit_char d = char_of (48 + d)"

fun dec :: "nat \<Rightarrow> string" where
  "dec n = (if n < 10 then [digit_char n] else dec (n div 10) @ [digit_char (n mod 10)])"

declare dec.simps [simp del]

definition is_digit :: "char \<Rightarrow> bool" where
  "is_digit c \<longleftrightarrow> 48 \<le> (of_char c :: nat) \<and> (of_char c :: nat) \<le> 57"

definition digit_val :: "char \<Rightarrow> nat" where
  "digit_val c = of_char c - 48"

definition dec_value :: "string \<Rightarrow> nat" where
  "dec_value s = foldl (\<lambda>a c. a * 10 + digit_val c) 0 s"

definition ParseUint :: "string \<Rightarrow> u64 option" where
  "ParseUint s = (if s \<noteq> [] \<and> list_all is_digit s \<and> dec_value s < 2 ^ 64
     then Some (of_nat (dec_value s)) else None)"

definition FormatUint :: "u64 \<Rightarrow> string" where
  "FormatUint n = dec (unat n)"

lemma digit_char_is_digit [simp]: "d < 10 \<Longrightarrow> is_digit (digit_char d)"
  by (simp add: is_digit_def digit_char_def)

lemma digit_val_digit_char [simp]: "d < 10 \<Longrightarrow> digit_val (digit_char d) = d"
  by (simp add: digit_val_def digit_char_def)

lemma dec_nonempty [simp]: "dec n \<noteq> []"
  by (subst dec.simps) simp

lemma dec_digits: "list_all is_digit (dec n)"
proof (induction n rule: dec.induct)
  case (1 n)
  then show ?case by (cases "n < 10") (simp_all add: dec.simps [of n])
qed

lemma dec_value_snoc: "dec_value (s @ [c]) = dec_value s * 10 + digit_val c"
  by (simp add: dec_value_def)

lemma dec_value_dec [simp]: "dec_value (dec n) = n"
proof (induction n rule: dec.induct)
  case (1 n)
  show ?case
  proof (cases "n < 10")
    case True
    then show ?thesis by (simp add: dec.simps [of n] dec_value_def)
  next
    case False
    with 1 show ?thesis by (simp add: dec.simps [of n] dec_value_snoc)
  qed
qed

lemma dec_inject: "dec m = dec n \<longleftrightarrow> m = n"
  by (metis dec_value_dec)

lemma ParseUint_FormatUint [simp]: "ParseUint (FormatUint n) = Some n"
proof -
  have "unat n < 2 ^ 64" using unsigned_less [of n] by simp
  then show ?thesis by (simp add: ParseUint_def FormatUint_def dec_digits)
qed

lemma FormatUint_inject: "FormatUint m = FormatUint n \<longleftrightarrow> m = n"
  by (metis ParseUint_FormatUint option.inject)

section \<open>Lists and words\<close>

lemma distinct_map_sort_key: "distinct (map f (sort_key k xs)) \<longleftrightarrow> distinct (map f xs)"
  by (simp add: distinct_map)

lemma find_None_iff_all: "find P xs = None \<longleftrightarrow> (\<forall>x \<in> set xs. \<not> P x)"
  by (auto simp: find_None_iff)

lemma find_Some_mem: "find P xs = Some x \<Longrightarrow> x \<in> set xs \<and> P x"
  by (metis find_Some_iff nth_mem)

lemma word_xor_eq_0: "x XOR y = 0 \<longleftrightarrow> x = (y :: 'a :: len word)"
  by (auto simp: bit_eq_iff bit_xor_iff)

lemma word_Suc_le: "x + 1 \<le> x \<longleftrightarrow> x = (- 1 :: 'a :: len word)"
proof (cases "x + 1 = 0")
  case True
  then have "x = - 1" by (simp add: eq_neg_iff_add_eq_0)
  then show ?thesis using True by simp
next
  case False
  then have "unat (x + 1) = Suc (unat x)" using unatSuc [of x] by (simp add: add.commute)
  moreover have "x \<noteq> - 1" using False by (simp add: eq_neg_iff_add_eq_0)
  ultimately show ?thesis by (simp add: word_le_nat_alt)
qed

lemma word_less_Suc_unat:
  assumes "(a :: 'a :: len word) < b"
  shows "unat (a + 1) = unat a + 1"
proof -
  have "unat b < 2 ^ LENGTH('a)" by (rule unsigned_less)
  with assms have "unat a + 1 < 2 ^ LENGTH('a)" unfolding word_less_nat_alt by linarith
  then show ?thesis by (simp add: unat_word_ariths)
qed

end
