(* ===== verification/Json.thy ===== *)
theory Json
  imports Prelude Complex_Main
begin

text \<open>
  The part of \<^verbatim>\<open>encoding/json\<close> the program uses, on parsed documents.

  A \<open>raw\<close> value is what a \<^verbatim>\<open>[]byte\<close> or \<^verbatim>\<open>json.RawMessage\<close> holds: nothing, the text of one JSON
  document (kept as its tree), or bytes that are not JSON. Decoding a struct follows
  \<^verbatim>\<open>json.Unmarshal\<close>: a key matches a field up to ASCII case, every occurrence is stored in turn,
  \<^verbatim>\<open>null\<close> leaves the field as it was, a value of the wrong type or out of the field's range is an
  error, unknown keys are skipped and missing fields keep their zero value. Text encoding (escapes,
  UTF-8, number syntax) is left out. A float literal is \<open>JReal\<close>, an integer literal \<open>JInt\<close>.
\<close>

section \<open>Documents\<close>

datatype json = JNull | JBool bool | JInt int | JReal real | JStr string
  | JArr "json list" | JObj "(string \<times> json) list"

datatype raw = RawNil | RawBad | RawJson json

datatype jsonErr = SyntaxError | TypeError string

text \<open>Key matching folds ASCII letters.\<close>

definition fold_char :: "char \<Rightarrow> char" where
  "fold_char c = (if 65 \<le> (of_char c :: nat) \<and> (of_char c :: nat) \<le> 90 then char_of (of_char c + 32 :: nat) else c)"

definition key_match :: "string \<Rightarrow> string \<Rightarrow> bool" where
  "key_match k name \<longleftrightarrow> map fold_char k = map fold_char name"

section \<open>Typed readers\<close>

definition read_str :: "json \<Rightarrow> string option" where
  "read_str j = (case j of JStr s \<Rightarrow> Some s | _ \<Rightarrow> None)"

definition read_bool :: "json \<Rightarrow> bool option" where
  "read_bool j = (case j of JBool b \<Rightarrow> Some b | _ \<Rightarrow> None)"

definition read_uint :: "json \<Rightarrow> 'a :: len word option" where
  "read_uint j = (case j of JInt i \<Rightarrow> (if 0 \<le> i \<and> i < 2 ^ LENGTH('a) then Some (word_of_int i) else None) | _ \<Rightarrow> None)"

definition read_int64 :: "json \<Rightarrow> int option" where
  "read_int64 j = (case j of JInt i \<Rightarrow> (if - (2 ^ 63) \<le> i \<and> i < 2 ^ 63 then Some i else None) | _ \<Rightarrow> None)"

text \<open>One struct field: every matching key stores in turn, an error sticks.\<close>

definition field_step :: "(json \<Rightarrow> 'a option) \<Rightarrow> string \<Rightarrow> jsonErr + 'a \<Rightarrow> string \<times> json \<Rightarrow> jsonErr + 'a" where
  "field_step rd name acc e = (case e of (k, v) \<Rightarrow>
     if key_match k name then
       (case acc of Inl err \<Rightarrow> Inl err
        | Inr _ \<Rightarrow> (if v = JNull then acc else
            (case rd v of None \<Rightarrow> Inl (TypeError name) | Some x \<Rightarrow> Inr x)))
     else acc)"

definition field :: "(json \<Rightarrow> 'a option) \<Rightarrow> 'a \<Rightarrow> string \<Rightarrow> (string \<times> json) list \<Rightarrow> jsonErr + 'a" where
  "field rd zero name kvs = foldl (field_step rd name) (Inr zero) kvs"

text \<open>A \<^verbatim>\<open>json.RawMessage\<close> field takes the value as it stands, \<^verbatim>\<open>null\<close> included.\<close>

definition field_raw :: "string \<Rightarrow> (string \<times> json) list \<Rightarrow> raw" where
  "field_raw name kvs = foldl (\<lambda>acc (k, v). if key_match k name then RawJson v else acc) RawNil kvs"

text \<open>
  The entry of \<^verbatim>\<open>json.Unmarshal\<close> into a struct: \<open>dec\<close> reads the fields of an object; \<^verbatim>\<open>null\<close> is an
  object with no key.
\<close>

definition Unmarshal :: "((string \<times> json) list \<Rightarrow> jsonErr + 'a) \<Rightarrow> raw \<Rightarrow> jsonErr + 'a" where
  "Unmarshal rd r = (case r of
     RawJson (JObj kvs) \<Rightarrow> rd kvs
   | RawJson JNull \<Rightarrow> rd []
   | RawJson _ \<Rightarrow> Inl (TypeError [])
   | _ \<Rightarrow> Inl SyntaxError)"

section \<open>Reading back what was written\<close>

lemma read_str_JStr [simp]: "read_str (JStr s) = Some s"
  by (simp add: read_str_def)

lemma read_bool_JBool [simp]: "read_bool (JBool b) = Some b"
  by (simp add: read_bool_def)

lemma read_uint_uint [simp]: "read_uint (JInt (uint (w :: 'a :: len word))) = Some w"
  using uint_lt2p [of w] by (simp add: read_uint_def)

lemma read_int64_JInt [simp]: "- (2 ^ 63) \<le> i \<Longrightarrow> i < 2 ^ 63 \<Longrightarrow> read_int64 (JInt i) = Some i"
  by (simp add: read_int64_def)

lemma field_step_hit [simp]:
  "v \<noteq> JNull \<Longrightarrow> rd v = Some x \<Longrightarrow> field_step rd name (Inr z) (name, v) = Inr x"
  by (simp add: field_step_def key_match_def)

lemma field_step_miss [simp]:
  "map fold_char k \<noteq> map fold_char name \<Longrightarrow> field_step rd name acc (k, v) = acc"
  by (simp add: field_step_def key_match_def)

lemmas field_simps = field_def field_step_def key_match_def fold_char_def read_str_def

lemma Unmarshal_JObj [simp]: "Unmarshal rd (RawJson (JObj kvs)) = rd kvs"
  by (simp add: Unmarshal_def)

lemma Unmarshal_empty [simp]: "Unmarshal rd RawNil = Inl SyntaxError" "Unmarshal rd RawBad = Inl SyntaxError"
  by (simp_all add: Unmarshal_def)

end
