(* ===== verification/Wire.thy ===== *)
theory Wire
  imports Json
begin

text \<open>
  Package \<^verbatim>\<open>pkg/wire\<close>: the 24-byte data-plane header (\<^verbatim>\<open>header.go\<close>) and the control-plane
  envelope (\<^verbatim>\<open>message.go\<close>). \<open>PutUint64\<close> and its relatives are \<^verbatim>\<open>encoding/binary\<close>'s big-endian
  accessors, written with the shifts the library uses. A Go buffer passed to be filled is an argument
  and its new content the result.
\<close>

section \<open>Big-endian fields\<close>

definition PutUint32 :: "u32 \<Rightarrow> bytes" where
  "PutUint32 v = [ucast (drop_bit 24 v), ucast (drop_bit 16 v), ucast (drop_bit 8 v), ucast v]"

definition PutUint64 :: "u64 \<Rightarrow> bytes" where
  "PutUint64 v = [ucast (drop_bit 56 v), ucast (drop_bit 48 v), ucast (drop_bit 40 v), ucast (drop_bit 32 v),
     ucast (drop_bit 24 v), ucast (drop_bit 16 v), ucast (drop_bit 8 v), ucast v]"

definition Uint32 :: "bytes \<Rightarrow> u32" where
  "Uint32 b = ucast (b ! 3) OR push_bit 8 (ucast (b ! 2)) OR push_bit 16 (ucast (b ! 1))
     OR push_bit 24 (ucast (b ! 0))"

definition Uint64 :: "bytes \<Rightarrow> u64" where
  "Uint64 b = ucast (b ! 7) OR push_bit 8 (ucast (b ! 6)) OR push_bit 16 (ucast (b ! 5))
     OR push_bit 24 (ucast (b ! 4)) OR push_bit 32 (ucast (b ! 3)) OR push_bit 40 (ucast (b ! 2))
     OR push_bit 48 (ucast (b ! 1)) OR push_bit 56 (ucast (b ! 0))"

section \<open>The session header\<close>

definition SessionHeaderSize :: nat where "SessionHeaderSize = 24"
definition Version1 :: u8 where "Version1 = 1"

type_synonym PacketType = u8
type_synonym Direction = u8

definition PacketTypeData :: PacketType where "PacketTypeData = 0"
definition PacketTypeProbe :: PacketType where "PacketTypeProbe = 1"
definition PacketTypeKeepalive :: PacketType where "PacketTypeKeepalive = 2"

definition PacketType_String :: "PacketType \<Rightarrow> string" where
  "PacketType_String t =
     (if t = PacketTypeData then ''DATA''
      else if t = PacketTypeProbe then ''PROBE''
      else if t = PacketTypeKeepalive then ''KEEPALIVE''
      else ''UNKNOWN('' @ dec (unat t) @ '')'')"

definition DirUpstream :: Direction where "DirUpstream = 0"
definition DirDownstream :: Direction where "DirDownstream = 1"

definition flagDirectionBit :: u8 where "flagDirectionBit = 1"

record SessionHeader =
  Version :: u8
  Type :: PacketType
  hDirection :: Direction
  SessionID :: u64
  Epoch :: u32
  SessionSeq :: u64

datatype wireErr = BufferTooSmall nat | ShortBuffer nat | EnvelopeErr jsonErr | MissingType
  | WrongType string

definition EncodeTo :: "SessionHeader \<Rightarrow> bytes \<Rightarrow> wireErr + bytes" where
  "EncodeTo h buf =
     (if length buf < SessionHeaderSize then Inl (BufferTooSmall (length buf))
      else
        let flags = (if hDirection h = DirDownstream then 0 OR flagDirectionBit else 0)
        in Inr ([Version h, Type h, flags, 0]
             @ PutUint64 (SessionID h) @ PutUint32 (Epoch h) @ PutUint64 (SessionSeq h)
             @ drop SessionHeaderSize buf))"

text \<open>The panic of \<^verbatim>\<open>Encode\<close> is the \<^const>\<open>Inl\<close> branch.\<close>

definition Encode :: "SessionHeader \<Rightarrow> wireErr + bytes" where
  "Encode h = EncodeTo h (replicate SessionHeaderSize 0)"

definition Decode :: "bytes \<Rightarrow> wireErr + SessionHeader \<times> nat" where
  "Decode buf =
     (if length buf < SessionHeaderSize then Inl (ShortBuffer (length buf))
      else
        let flags = buf ! 2;
            dir = (if flags AND flagDirectionBit \<noteq> 0 then DirDownstream else DirUpstream)
        in Inr (\<lparr>Version = buf ! 0, Type = buf ! 1, hDirection = dir,
                 SessionID = Uint64 (take 8 (drop 4 buf)),
                 Epoch = Uint32 (take 4 (drop 12 buf)),
                 SessionSeq = Uint64 (take 8 (drop 16 buf))\<rparr>, SessionHeaderSize))"

section \<open>The control envelope\<close>

type_synonym MessageType = string

definition MsgMigratePrepare :: MessageType where "MsgMigratePrepare = ''MIGRATE_PREPARE''"

record Envelope =
  eType :: MessageType
  eSessionID :: u64
  eEpoch :: u32
  Payload :: raw

text \<open>\<^verbatim>\<open>omitempty\<close> leaves an empty payload out; a payload that is not JSON makes \<^verbatim>\<open>Marshal\<close> fail.\<close>

definition Envelope_Encode :: "Envelope \<Rightarrow> jsonErr + raw" where
  "Envelope_Encode e =
     (let hd = [(''type'', JStr (eType e)), (''session_id'', JInt (uint (eSessionID e))),
                (''epoch'', JInt (uint (eEpoch e)))]
      in case Payload e of
           RawNil \<Rightarrow> Inr (RawJson (JObj hd))
         | RawBad \<Rightarrow> Inl SyntaxError
         | RawJson j \<Rightarrow> Inr (RawJson (JObj (hd @ [(''payload'', j)]))))"

definition Envelope_fields :: "(string \<times> json) list \<Rightarrow> jsonErr + Envelope" where
  "Envelope_fields kvs =
     (case field read_str [] ''type'' kvs of Inl e \<Rightarrow> Inl e | Inr t \<Rightarrow>
      case field read_uint 0 ''session_id'' kvs of Inl e \<Rightarrow> Inl e | Inr s \<Rightarrow>
      case field read_uint 0 ''epoch'' kvs of Inl e \<Rightarrow> Inl e | Inr ep \<Rightarrow>
      Inr \<lparr>eType = t, eSessionID = s, eEpoch = ep, Payload = field_raw ''payload'' kvs\<rparr>)"

definition DecodeEnvelope :: "raw \<Rightarrow> wireErr + Envelope" where
  "DecodeEnvelope data =
     (case Unmarshal Envelope_fields data of
        Inl err \<Rightarrow> Inl (EnvelopeErr err)
      | Inr e \<Rightarrow> if eType e = [] then Inl MissingType else Inr e)"

record MigratePreparePayload =
  TargetGateway :: string
  NewEpoch :: u32

definition NewMigratePrepare :: "u64 \<Rightarrow> u32 \<Rightarrow> string \<Rightarrow> u32 \<Rightarrow> Envelope" where
  "NewMigratePrepare sessionID currentEpoch targetGateway newEpoch =
     \<lparr>eType = MsgMigratePrepare, eSessionID = sessionID, eEpoch = currentEpoch,
      Payload = RawJson (JObj [(''target_gateway'', JStr targetGateway), (''new_epoch'', JInt (uint newEpoch))])\<rparr>"

definition MigratePrepare_fields :: "(string \<times> json) list \<Rightarrow> jsonErr + MigratePreparePayload" where
  "MigratePrepare_fields kvs =
     (case field read_str [] ''target_gateway'' kvs of Inl e \<Rightarrow> Inl e | Inr t \<Rightarrow>
      case field read_uint 0 ''new_epoch'' kvs of Inl e \<Rightarrow> Inl e | Inr ep \<Rightarrow>
      Inr \<lparr>TargetGateway = t, NewEpoch = ep\<rparr>)"

definition AsMigratePrepare :: "Envelope \<Rightarrow> wireErr + MigratePreparePayload" where
  "AsMigratePrepare e =
     (if eType e \<noteq> MsgMigratePrepare then Inl (WrongType (eType e))
      else case Unmarshal MigratePrepare_fields (Payload e) of
             Inl err \<Rightarrow> Inl (EnvelopeErr err)
           | Inr p \<Rightarrow> Inr p)"

section \<open>Byte-level lemmas\<close>

lemma length_PutUint [simp]: "length (PutUint32 v) = 4" "length (PutUint64 w) = 8"
  by (simp_all add: PutUint32_def PutUint64_def)


lemma bit_byte_field:
  "bit (push_bit k (ucast (ucast (drop_bit k (v :: 'a :: len word)) :: u8)) :: 'a word) n
     \<longleftrightarrow> k \<le> n \<and> n < k + 8 \<and> n < LENGTH('a) \<and> bit v n"
  by (auto simp: bit_simps dest: bit_imp_le_length)

lemma bit_byte_field0:
  "bit (ucast (ucast (v :: 'a :: len word) :: u8) :: 'a word) n \<longleftrightarrow> n < 8 \<and> n < LENGTH('a) \<and> bit v n"
  by (auto simp: bit_simps dest: bit_imp_le_length)

lemma Uint32_PutUint32 [simp]: "Uint32 (PutUint32 v) = v"
proof (rule bit_word_eqI)
  fix n assume "n < LENGTH(32)"
  then have "n < 8 \<or> 8 \<le> n \<and> n < 16 \<or> 16 \<le> n \<and> n < 24 \<or> 24 \<le> n \<and> n < 32" by auto
  then show "bit (Uint32 (PutUint32 v)) n = bit v n"
    unfolding Uint32_def PutUint32_def
    by (elim disjE) (simp_all add: bit_or_iff bit_byte_field bit_byte_field0)
qed

lemma Uint64_PutUint64 [simp]: "Uint64 (PutUint64 v) = v"
proof (rule bit_word_eqI)
  fix n assume "n < LENGTH(64)"
  then have "n < 8 \<or> 8 \<le> n \<and> n < 16 \<or> 16 \<le> n \<and> n < 24 \<or> 24 \<le> n \<and> n < 32
    \<or> 32 \<le> n \<and> n < 40 \<or> 40 \<le> n \<and> n < 48 \<or> 48 \<le> n \<and> n < 56 \<or> 56 \<le> n \<and> n < 64" by auto
  then show "bit (Uint64 (PutUint64 v)) n = bit v n"
    unfolding Uint64_def PutUint64_def
    by (elim disjE) (simp_all add: bit_or_iff bit_byte_field bit_byte_field0)
qed


lemma bit_byte_place:
  "bit (push_bit j (ucast (b :: u8)) :: 'a :: len word) m
     \<longleftrightarrow> j \<le> m \<and> m < j + 8 \<and> m < LENGTH('a) \<and> bit b (m - j)"
  using bit_imp_le_length [of b "m - j"] by (auto simp: bit_simps)

lemma bit_byte_place0:
  "bit (ucast (b :: u8) :: 'a :: len word) m \<longleftrightarrow> m < 8 \<and> m < LENGTH('a) \<and> bit b m"
  using bit_imp_le_length [of b m] by (auto simp: bit_simps)

lemma bit_take_byte: "n < 8 \<Longrightarrow> bit (ucast (drop_bit k (w :: 'a :: len word)) :: u8) n \<longleftrightarrow> bit w (k + n)"
  by (simp add: bit_simps)

lemma bit_take_byte0: "n < 8 \<Longrightarrow> bit (ucast (w :: 'a :: len word) :: u8) n \<longleftrightarrow> bit w n"
  by (simp add: bit_simps)

lemma bit_drop_word: "bit (drop_bit k (w :: 'a :: len word)) n \<longleftrightarrow> bit w (k + n)"
  by (simp add: bit_simps)

lemmas byte_bits = bit_drop_word bit_or_iff bit_byte_place bit_byte_place0 bit_take_byte bit_take_byte0

lemma PutUint32_Uint32_bytes: "PutUint32 (Uint32 [b0, b1, b2, b3]) = [b0, b1, b2, b3]"
  unfolding PutUint32_def Uint32_def list.inject
  by (intro conjI refl bit_word_eqI) (simp_all add: byte_bits)

lemma PutUint64_Uint64_bytes:
  "PutUint64 (Uint64 [b0, b1, b2, b3, b4, b5, b6, b7]) = [b0, b1, b2, b3, b4, b5, b6, b7]"
  unfolding PutUint64_def Uint64_def list.inject
  by (intro conjI refl bit_word_eqI) (simp_all add: byte_bits)

lemma PutUint32_Uint32 [simp]:
  assumes "length b = 4" shows "PutUint32 (Uint32 b) = b"
proof -
  have "b = [b ! 0, b ! 1, b ! 2, b ! 3]"
    using map_nth [of b] unfolding assms by (simp add: upt_rec numeral_eq_Suc)
  then show ?thesis by (metis PutUint32_Uint32_bytes)
qed

lemma PutUint64_Uint64 [simp]:
  assumes "length b = 8" shows "PutUint64 (Uint64 b) = b"
proof -
  have "b = [b ! 0, b ! 1, b ! 2, b ! 3, b ! 4, b ! 5, b ! 6, b ! 7]"
    using map_nth [of b] unfolding assms by (simp add: upt_rec numeral_eq_Suc)
  then show ?thesis by (metis PutUint64_Uint64_bytes)
qed

lemma header_split:
  assumes "24 \<le> length buf"
  shows "[buf ! 0, buf ! 1, buf ! 2, buf ! 3] @ take 8 (drop 4 buf) @ take 4 (drop 12 buf)
    @ take 8 (drop 16 buf) @ drop 24 buf = buf"
proof -
  have "map ((!) (take 4 buf)) [0..<4] = take 4 buf"
    using map_nth [of "take 4 buf"] assms by simp
  then have a: "[buf ! 0, buf ! 1, buf ! 2, buf ! 3] = take 4 buf"
    by (simp add: upt_rec numeral_eq_Suc)
  have "take 24 buf = take 4 buf @ take 8 (drop 4 buf) @ take 4 (drop 12 buf) @ take 8 (drop 16 buf)"
    using take_add [of 4 20 buf] take_add [of 8 12 "drop 4 buf"] take_add [of 4 8 "drop 12 buf"] by simp
  with a show ?thesis by (metis append_take_drop_id append_assoc)
qed

section \<open>Header codec\<close>

lemma length_EncodeTo: "EncodeTo h buf = Inr out \<Longrightarrow> length out = length buf"
  by (auto simp: EncodeTo_def SessionHeaderSize_def Let_def split: if_splits)

lemma Decode_total: "SessionHeaderSize \<le> length buf \<Longrightarrow> \<exists>h. Decode buf = Inr (h, SessionHeaderSize)"
  by (auto simp: Decode_def Let_def)

lemma Decode_frame:
  "Decode ([v, t, f, r] @ PutUint64 sid @ PutUint32 ep @ PutUint64 sq @ rest) =
     Inr (\<lparr>Version = v, Type = t,
           hDirection = (if f AND flagDirectionBit \<noteq> 0 then DirDownstream else DirUpstream),
           SessionID = sid, Epoch = ep, SessionSeq = sq\<rparr>, SessionHeaderSize)"
  by (simp add: Decode_def SessionHeaderSize_def Let_def)

lemma EncodeTo_frame:
  "SessionHeaderSize \<le> length buf \<Longrightarrow>
   EncodeTo h buf = Inr ([Version h, Type h, (if hDirection h = DirDownstream then flagDirectionBit else 0), 0]
     @ PutUint64 (SessionID h) @ PutUint32 (Epoch h) @ PutUint64 (SessionSeq h) @ drop SessionHeaderSize buf)"
  by (simp add: EncodeTo_def Let_def)

lemma Encode_frame:
  "Encode h = Inr ([Version h, Type h, (if hDirection h = DirDownstream then flagDirectionBit else 0), 0]
     @ PutUint64 (SessionID h) @ PutUint32 (Epoch h) @ PutUint64 (SessionSeq h))"
  by (simp add: Encode_def EncodeTo_frame)

text \<open>What decoding makes of a direction that is neither constant: everything but downstream is upstream.\<close>

definition canonDirection :: "Direction \<Rightarrow> Direction" where
  "canonDirection d = (if d = DirDownstream then DirDownstream else DirUpstream)"

lemma Decode_EncodeTo:
  assumes "EncodeTo h buf = Inr out"
  shows "Decode out = Inr (h\<lparr>hDirection := canonDirection (hDirection h)\<rparr>, SessionHeaderSize)"
proof -
  have len: "SessionHeaderSize \<le> length buf"
    using assms by (auto simp: EncodeTo_def split: if_splits)
  show ?thesis
    using assms unfolding EncodeTo_frame [OF len]
    by (auto simp: Decode_frame [unfolded append_Cons append_Nil] canonDirection_def flagDirectionBit_def)
qed

text \<open> The header codec loses nothing: encoding a header into the front of any buffer of at least 24
  bytes and decoding that buffer gives the header back, reports 24 consumed bytes and leaves the
  rest of the buffer untouched.
\<close>

theorem header_roundtrip:
  assumes "SessionHeaderSize \<le> length buf"
    and "hDirection h = DirUpstream \<or> hDirection h = DirDownstream"
  shows "\<exists>out. EncodeTo h buf = Inr out \<and> Decode out = Inr (h, 24)
    \<and> length out = length buf \<and> drop 24 out = drop 24 buf"
proof -
  obtain out where out: "EncodeTo h buf = Inr out" using EncodeTo_frame [OF assms(1)] by blast
  have "canonDirection (hDirection h) = hDirection h" using assms(2) by (auto simp: canonDirection_def)
  then have "Decode out = Inr (h, 24)" using Decode_EncodeTo [OF out] by (simp add: SessionHeaderSize_def)
  moreover have "drop 24 out = drop 24 buf"
    using out unfolding EncodeTo_frame [OF assms(1)] by (auto simp: SessionHeaderSize_def)
  ultimately show ?thesis using out length_EncodeTo [OF out] by blast
qed

theorem header_roundtrip_witness:
  "\<exists>out. EncodeTo \<lparr>Version = 1, Type = 0, hDirection = 1, SessionID = 7, Epoch = 3, SessionSeq = 2 ^ 40\<rparr>
      (replicate 26 9) = Inr out
    \<and> Decode out = Inr (\<lparr>Version = 1, Type = 0, hDirection = 1, SessionID = 7, Epoch = 3, SessionSeq = 2 ^ 40\<rparr>, 24)
    \<and> length out = length (replicate 26 (9 :: u8)) \<and> drop 24 out = drop 24 (replicate 26 9)"
  by (rule header_roundtrip) (simp_all add: SessionHeaderSize_def DirDownstream_def)

text \<open> The other direction: a datagram that decodes is, up to the bits the format reserves (flag bits
  1 to 7 and byte 3), exactly the encoding of what it decoded to. No two readings of the remaining
  bytes exist.
\<close>

theorem header_reencode:
  assumes "Decode buf = Inr (h, n)"
  shows "EncodeTo h buf = Inr (buf[2 := buf ! 2 AND 1, 3 := 0])"
proof -
  have len: "24 \<le> length buf" using assms by (auto simp: Decode_def SessionHeaderSize_def split: if_splits)
  let ?f = "if hDirection h = DirDownstream then flagDirectionBit else 0"
  have h: "Version h = buf ! 0" "Type h = buf ! 1" "PutUint64 (SessionID h) = take 8 (drop 4 buf)"
    "PutUint32 (Epoch h) = take 4 (drop 12 buf)" "PutUint64 (SessionSeq h) = take 8 (drop 16 buf)"
    and dir: "hDirection h = (if buf ! 2 AND 1 \<noteq> 0 then DirDownstream else DirUpstream)"
    using assms len by (auto simp: Decode_def SessionHeaderSize_def flagDirectionBit_def Let_def)
  have f: "?f = buf ! 2 AND 1"
    unfolding dir by (auto simp: DirUpstream_def DirDownstream_def flagDirectionBit_def and_one_eq mod_2_eq_odd)
  have "EncodeTo h buf = Inr ([buf ! 0, buf ! 1, ?f, 0] @ take 8 (drop 4 buf) @ take 4 (drop 12 buf)
    @ take 8 (drop 16 buf) @ drop 24 buf)"
    using len by (simp add: EncodeTo_frame SessionHeaderSize_def h)
  also have "[buf ! 0, buf ! 1, ?f, 0] @ take 8 (drop 4 buf) @ take 4 (drop 12 buf)
    @ take 8 (drop 16 buf) @ drop 24 buf = buf[2 := ?f, 3 := 0]"
    (is "?l = _")
  proof -
    have "([buf ! 0, buf ! 1, buf ! 2, buf ! 3] @ take 8 (drop 4 buf) @ take 4 (drop 12 buf)
      @ take 8 (drop 16 buf) @ drop 24 buf)[2 := ?f, 3 := 0] = ?l"
      by (simp add: list_update_append numeral_eq_Suc)
    then show ?thesis by (metis header_split [OF len])
  qed
  finally show ?thesis by (simp only: f)
qed

theorem header_reencode_witness:
  "EncodeTo \<lparr>Version = 1, Type = 0, hDirection = 1, SessionID = 0, Epoch = 0, SessionSeq = 0\<rparr>
     ([1, 0, 255, 77] @ replicate 20 0) = Inr (([1, 0, 255, 77] @ replicate 20 0)[2 := ([1, 0, 255, 77] @ replicate 20 (0 :: u8)) ! 2 AND 1, 3 := 0])"
  by (rule header_reencode [where n = 24])
     (simp add: Decode_def SessionHeaderSize_def flagDirectionBit_def DirDownstream_def Uint64_def Uint32_def
        numeral_eq_Suc Let_def)

section \<open>Control messages\<close>

lemmas envelope_keys = field_def field_raw_def field_step_def key_match_def fold_char_def

lemma DecodeEnvelope_Encode:
  assumes "Envelope_Encode e = Inr msg"
  shows "DecodeEnvelope msg = (if eType e = [] then Inl MissingType else Inr e)"
proof (cases "Payload e")
  case RawNil
  with assms have "msg = RawJson (JObj [(''type'', JStr (eType e)), (''session_id'', JInt (uint (eSessionID e))),
    (''epoch'', JInt (uint (eEpoch e)))])" by (simp add: Envelope_Encode_def)
  with RawNil show ?thesis by (simp add: DecodeEnvelope_def Envelope_fields_def envelope_keys)
next
  case RawBad
  with assms show ?thesis by (simp add: Envelope_Encode_def Let_def)
next
  case (RawJson j)
  with assms have "msg = RawJson (JObj [(''type'', JStr (eType e)), (''session_id'', JInt (uint (eSessionID e))),
    (''epoch'', JInt (uint (eEpoch e))), (''payload'', j)])" by (simp add: Envelope_Encode_def)
  with RawJson show ?thesis by (simp add: DecodeEnvelope_def Envelope_fields_def envelope_keys)
qed

lemma AsMigratePrepare_New [simp]:
  "AsMigratePrepare (NewMigratePrepare s c t n) = Inr \<lparr>TargetGateway = t, NewEpoch = n\<rparr>"
  by (simp add: AsMigratePrepare_def NewMigratePrepare_def MigratePrepare_fields_def envelope_keys)

text \<open> A MIGRATE_PREPARE survives the wire: the envelope built for a session, encoded, decoded and
  read back yields the session, the current epoch, the target gateway and the new epoch it was built
  from, for every value of each.
\<close>

theorem migrate_prepare_roundtrip:
  "\<exists>msg e. Envelope_Encode (NewMigratePrepare sid cur target new) = Inr msg
     \<and> DecodeEnvelope msg = Inr e \<and> eSessionID e = sid \<and> eEpoch e = cur
     \<and> AsMigratePrepare e = Inr \<lparr>TargetGateway = target, NewEpoch = new\<rparr>"
proof -
  let ?e = "NewMigratePrepare sid cur target new"
  obtain msg where msg: "Envelope_Encode ?e = Inr msg"
    by (simp add: Envelope_Encode_def NewMigratePrepare_def)
  have "DecodeEnvelope msg = Inr ?e"
    using DecodeEnvelope_Encode [OF msg] by (simp add: NewMigratePrepare_def MsgMigratePrepare_def)
  moreover have "eSessionID ?e = sid" "eEpoch ?e = cur" by (simp_all add: NewMigratePrepare_def)
  ultimately show ?thesis using msg AsMigratePrepare_New by blast
qed

end
