(* ===== verification/SessionBind.thy ===== *)
theory SessionBind
  imports Wire
begin

text \<open>
  \<^verbatim>\<open>internal/tunnel/sessionbind.go\<close>: the layer that prepends a session header to each datagram a
  WireGuard device sends and strips it from each one it receives. The wrapped \<^verbatim>\<open>conn.Bind\<close> is
  third-party code: its receive function is an argument. The caller's \<^verbatim>\<open>packets\<close>, \<^verbatim>\<open>sizes\<close> and
  \<^verbatim>\<open>eps\<close> arrays, which the wrapper rewrites in place, are the record \<open>RecvBuf\<close>; \<open>seen\<close> collects the
  headers handed to \<^verbatim>\<open>onRecv\<close>. The buffers of a batch are separate memory, as WireGuard allocates them.
\<close>

section \<open>Model\<close>

record 'e RecvBuf =
  packets :: "bytes list"
  sizes :: "nat list"
  eps :: "'e list"
  seen :: "SessionHeader list"

datatype bindErr = RealErr string | IndexOutOfRange | SendErr wireErr

record sessionBind =
  sessionID :: u64
  epoch :: u32
  seq :: u64

definition newSessionBind :: "u64 \<Rightarrow> u32 \<Rightarrow> sessionBind" where
  "newSessionBind sid ep = \<lparr>sessionID = sid, epoch = ep, seq = 0\<rparr>"

definition setEpoch :: "u32 \<Rightarrow> sessionBind \<Rightarrow> sessionBind" where
  "setEpoch ep b = b\<lparr>epoch := ep\<rparr>"

text \<open>
  The receive loop over the indices still to visit; \<open>out\<close> is the next slot to fill. \<open>admit\<close> is the
  optional fence, \<open>onRecv\<close> says whether a callback is installed.
\<close>

fun recv_loop :: "(SessionHeader \<Rightarrow> bool) option \<Rightarrow> bool \<Rightarrow> nat list \<Rightarrow> nat \<Rightarrow> 'e RecvBuf \<Rightarrow> bindErr + nat \<times> 'e RecvBuf" where
  "recv_loop admit onRecv [] out st = Inr (out, st)"
| "recv_loop admit onRecv (i # is) out st =
     (if length (packets st) \<le> i \<or> length (sizes st) \<le> i \<or> length (packets st ! i) < sizes st ! i
      then Inl IndexOutOfRange
      else
        let data = take (sizes st ! i) (packets st ! i) in
        if length data < SessionHeaderSize then recv_loop admit onRecv is out st
        else case Decode data of
          Inl _ \<Rightarrow> recv_loop admit onRecv is out st
        | Inr (h, consumed) \<Rightarrow>
            if (case admit of None \<Rightarrow> False | Some f \<Rightarrow> \<not> f h) then recv_loop admit onRecv is out st
            else
              let st = (if onRecv then st\<lparr>seen := seen st @ [h]\<rparr> else st);
                  rest = drop consumed data
              in if length (packets st) \<le> out \<or> length (sizes st) \<le> out \<or> length (eps st) \<le> out \<or> length (eps st) \<le> i
                 then Inl IndexOutOfRange
                 else recv_loop admit onRecv is (out + 1)
                   (st\<lparr>packets := (packets st)[out := gocopy (packets st ! out) rest],
                       sizes := (sizes st)[out := length rest],
                       eps := (eps st)[out := eps st ! i]\<rparr>))"

definition wrapReceiveFunc ::
  "(SessionHeader \<Rightarrow> bool) option \<Rightarrow> bool \<Rightarrow> ('e RecvBuf \<Rightarrow> nat \<times> 'e RecvBuf \<times> string option)
   \<Rightarrow> 'e RecvBuf \<Rightarrow> bindErr + nat \<times> 'e RecvBuf" where
  "wrapReceiveFunc admit onRecv rcv st =
     (case rcv st of
        (n, st', Some err) \<Rightarrow> Inl (RealErr err)
      | (n, st', None) \<Rightarrow> recv_loop admit onRecv [0..<n] 0 st')"

fun Send_loop :: "bytes list \<Rightarrow> sessionBind \<Rightarrow> bindErr + bytes list \<times> sessionBind" where
  "Send_loop [] b = Inr ([], b)"
| "Send_loop (buf # bufs) b =
     (let b = b\<lparr>seq := seq b + 1\<rparr>;
          h = \<lparr>Version = Version1, Type = PacketTypeData, hDirection = DirUpstream,
               SessionID = sessionID b, Epoch = epoch b, SessionSeq = seq b\<rparr>;
          out = replicate (SessionHeaderSize + length buf) 0
      in case EncodeTo h (take SessionHeaderSize out) of
           Inl e \<Rightarrow> Inl (SendErr e)
         | Inr hd24 \<Rightarrow>
             let framed = hd24 @ gocopy (drop SessionHeaderSize out) buf
             in case Send_loop bufs b of
                  Inl e \<Rightarrow> Inl e
                | Inr (rest, b') \<Rightarrow> Inr (framed # rest, b'))"

text \<open>The datagrams handed to the wrapped bind, and the sequence counter afterwards.\<close>

definition Send :: "bytes list \<Rightarrow> sessionBind \<Rightarrow> bindErr + bytes list \<times> sessionBind" where
  "Send bufs b = Send_loop bufs b"

section \<open>What a batch means\<close>

text \<open>The datagrams in the first \<open>n\<close> slots, and what the wrapper should leave of a sequence of them.\<close>

definition frames :: "'e RecvBuf \<Rightarrow> nat \<Rightarrow> (bytes \<times> 'e) list" where
  "frames st n = map (\<lambda>i. (take (sizes st ! i) (packets st ! i), eps st ! i)) [0..<n]"

definition accepted :: "(SessionHeader \<Rightarrow> bool) option \<Rightarrow> bytes \<Rightarrow> SessionHeader option" where
  "accepted admit d = (case Decode d of Inl _ \<Rightarrow> None
     | Inr (h, _) \<Rightarrow> (case admit of None \<Rightarrow> Some h | Some f \<Rightarrow> if f h then Some h else None))"

definition strip :: "(SessionHeader \<Rightarrow> bool) option \<Rightarrow> (bytes \<times> 'e) list \<Rightarrow> (bytes \<times> 'e) list" where
  "strip admit fs = map (\<lambda>(d, e). (drop SessionHeaderSize d, e)) (filter (\<lambda>(d, _). accepted admit d \<noteq> None) fs)"

definition headers :: "(SessionHeader \<Rightarrow> bool) option \<Rightarrow> (bytes \<times> 'e) list \<Rightarrow> SessionHeader list" where
  "headers admit fs = List.map_filter (\<lambda>(d, _). accepted admit d) fs"

text \<open>Buffers of one capacity, sizes within it, arrays of one length.\<close>

definition batch_ok :: "nat \<Rightarrow> 'e RecvBuf \<Rightarrow> bool" where
  "batch_ok cap st \<longleftrightarrow> (\<forall>p \<in> set (packets st). length p = cap) \<and> (\<forall>s \<in> set (sizes st). s \<le> cap)
     \<and> length (sizes st) = length (packets st) \<and> length (eps st) = length (packets st)"

section \<open>The receive loop compacts without clobbering\<close>

lemma accepted_long: "accepted admit d = Some h \<Longrightarrow> SessionHeaderSize \<le> length d"
  by (auto simp: accepted_def Decode_def split: if_splits)

lemma strip_simps [simp]:
  "strip admit [] = []"
  "strip admit ((d, e) # fs) =
     (case accepted admit d of None \<Rightarrow> strip admit fs | Some _ \<Rightarrow> (drop SessionHeaderSize d, e) # strip admit fs)"
  by (simp_all add: strip_def split: option.splits)

lemma headers_simps [simp]:
  "headers admit [] = []"
  "headers admit ((d, e) # fs) = (case accepted admit d of None \<Rightarrow> headers admit fs | Some h \<Rightarrow> h # headers admit fs)"
  by (simp_all add: headers_def List.map_filter_def split: option.splits)

lemma seen_first:
  "st\<lparr>seen := s, packets := p, sizes := z, eps := e\<rparr> = st\<lparr>packets := p, sizes := z, eps := e, seen := s\<rparr>"
  by (cases st) simp

lemma batch_ok_write:
  "batch_ok cap st \<Longrightarrow> out < length (packets st) \<Longrightarrow> length rest \<le> cap \<Longrightarrow>
   batch_ok cap (st\<lparr>packets := (packets st)[out := gocopy (packets st ! out) rest],
     sizes := (sizes st)[out := length rest], eps := (eps st)[out := e], seen := s\<rparr>)"
  by (auto simp: batch_ok_def dest!: set_update_subset_insert [THEN subsetD])

lemma frames_write:
  assumes "batch_ok cap st" "out < length (packets st)" "length rest \<le> cap"
  shows "frames (st\<lparr>packets := (packets st)[out := gocopy (packets st ! out) rest],
     sizes := (sizes st)[out := length rest], eps := (eps st)[out := e], seen := s\<rparr>) (Suc out)
     = frames st out @ [(rest, e)]"
proof -
  have "length (packets st ! out) = cap" "length (sizes st) = length (packets st)" "length (eps st) = length (packets st)"
    using assms by (auto simp: batch_ok_def)
  then show ?thesis using assms by (auto simp: frames_def nth_list_update)
qed

text \<open>
  The \<open>m\<close> slots from \<open>k\<close> on. The slots after the current index are the ones still to be read, so a
  write at \<open>out\<close> keeps them.
\<close>

definition slots :: "'e RecvBuf \<Rightarrow> nat \<Rightarrow> nat \<Rightarrow> (bytes \<times> 'e) list" where
  "slots st k m = map (\<lambda>i. (take (sizes st ! i) (packets st ! i), eps st ! i)) [k..<k + m]"

lemma upt_Suc_conv: "[k..<k + Suc m] = k # [Suc k..<Suc k + m]"
  by (simp add: upt_rec)

lemma slots_simps [simp]:
  "slots st k 0 = []"
  "slots st k (Suc m) = (take (sizes st ! k) (packets st ! k), eps st ! k) # slots st (Suc k) m"
  unfolding slots_def upt_Suc_conv by simp_all

lemma slots_write:
  "out < k \<Longrightarrow> slots (st\<lparr>packets := (packets st)[out := p], sizes := (sizes st)[out := z],
     eps := (eps st)[out := e], seen := s\<rparr>) k m = slots st k m"
  unfolding slots_def by (rule map_cong) auto

lemma recv_loop_skip:
  assumes "batch_ok cap st" "k < length (packets st)"
    and "accepted admit (take (sizes st ! k) (packets st ! k)) = None"
  shows "recv_loop admit onRecv (k # is) out st = recv_loop admit onRecv is out st"
proof -
  have "\<not> length (packets st ! k) < sizes st ! k" "k < length (sizes st)"
    using assms by (auto simp: batch_ok_def not_less) 
  then show ?thesis
    using assms by (auto simp: accepted_def Let_def split: sum.splits option.splits if_splits)
qed

lemma recv_loop_take:
  assumes "batch_ok cap st" "k < length (packets st)" "out \<le> k"
    and "accepted admit (take (sizes st ! k) (packets st ! k)) = Some h"
  defines "rest \<equiv> drop SessionHeaderSize (take (sizes st ! k) (packets st ! k))"
  shows "recv_loop admit onRecv (k # is) out st =
    recv_loop admit onRecv is (Suc out)
      (st\<lparr>packets := (packets st)[out := gocopy (packets st ! out) rest], sizes := (sizes st)[out := length rest],
          eps := (eps st)[out := eps st ! k], seen := seen st @ (if onRecv then [h] else [])\<rparr>)"
proof -
  have r: "\<not> length (packets st ! k) < sizes st ! k" "k < length (sizes st)" "k < length (eps st)"
    using assms by (auto simp: batch_ok_def not_less)
  have long: "SessionHeaderSize \<le> length (take (sizes st ! k) (packets st ! k))"
    using accepted_long [OF assms(4)] .
  obtain h' where d: "Decode (take (sizes st ! k) (packets st ! k)) = Inr (h', SessionHeaderSize)"
    using Decode_total [OF long] by blast
  with assms(4) have "h' = h" "(case admit of None \<Rightarrow> False | Some f \<Rightarrow> \<not> f h) = False"
    by (auto simp: accepted_def split: option.splits if_splits)
  with d r long assms(2,3) show ?thesis
    by (simp add: rest_def Let_def seen_first)
qed

lemma recv_loop_correct:
  assumes "batch_ok cap st" "out \<le> k" "k + m \<le> length (packets st)"
  shows "\<exists>st'. recv_loop admit onRecv [k..<k + m] out st = Inr (out + length (strip admit (slots st k m)), st')
    \<and> frames st' (out + length (strip admit (slots st k m))) = frames st out @ strip admit (slots st k m)
    \<and> seen st' = seen st @ (if onRecv then headers admit (slots st k m) else [])"
  using assms
proof (induction m arbitrary: k out st)
  case 0
  then show ?case by simp
next
  case (Suc m)
  let ?d = "take (sizes st ! k) (packets st ! k)"
  have k: "k < length (packets st)" using Suc.prems by simp
  show ?case
  proof (cases "accepted admit ?d")
    case None
    then show ?thesis
      using Suc.IH [of st out "Suc k"] Suc.prems
      unfolding upt_Suc_conv recv_loop_skip [OF Suc.prems(1) k None]
      by (cases onRecv) (simp_all del: upt_Suc)
  next
    case (Some h)
    let ?rest = "drop SessionHeaderSize ?d"
    let ?st = "st\<lparr>packets := (packets st)[out := gocopy (packets st ! out) ?rest], sizes := (sizes st)[out := length ?rest],
      eps := (eps st)[out := eps st ! k], seen := seen st @ (if onRecv then [h] else [])\<rparr>"
    have out: "out < length (packets st)" using Suc.prems by simp
    have "length (packets st ! k) = cap" using Suc.prems(1) k by (auto simp: batch_ok_def)
    then have cap: "length ?rest \<le> cap" by simp
    have len: "Suc k + m \<le> length (packets ?st)" using Suc.prems by simp
    have later: "slots ?st (Suc k) m = slots st (Suc k) m"
      using Suc.prems(2) by (intro slots_write) simp
    obtain st' where IH: "recv_loop admit onRecv [Suc k..<Suc k + m] (Suc out) ?st
        = Inr (Suc out + length (strip admit (slots st (Suc k) m)), st')"
      "frames st' (Suc out + length (strip admit (slots st (Suc k) m))) = frames ?st (Suc out) @ strip admit (slots st (Suc k) m)"
      "seen st' = seen ?st @ (if onRecv then headers admit (slots st (Suc k) m) else [])"
      using Suc.IH [OF batch_ok_write [OF Suc.prems(1) out cap] _ len] Suc.prems(2)
      unfolding later by blast
    have fr: "frames ?st (Suc out) = frames st out @ [(?rest, eps st ! k)]"
      by (rule frames_write [OF Suc.prems(1) out cap])
    have loop: "recv_loop admit onRecv [k..<k + Suc m] out st = recv_loop admit onRecv [Suc k..<Suc k + m] (Suc out) ?st"
      unfolding upt_Suc_conv by (rule recv_loop_take [OF Suc.prems(1) k Suc.prems(2) Some])
    show ?thesis
      unfolding loop IH(1) using IH(2,3) fr Some by (intro exI [of _ st']) simp
  qed
qed

text \<open>
  (C18) Receiving in place is filtering: when the wrapped bind fills \<open>n\<close> slots, the wrapper returns
  exactly the datagrams that carry a full header the fence admits, in their order, each without its
  24 header bytes and with its own sender address, and reports each admitted header once. Writing
  slot \<open>out\<close> while reading slot \<open>i\<close> never damages a datagram still to be read.
\<close>

theorem receive_strips_in_order:
  assumes "rcv st0 = (n, st, None)" "batch_ok cap st" "n \<le> length (packets st)"
  shows "\<exists>out st'. wrapReceiveFunc admit onRecv rcv st0 = Inr (out, st')
    \<and> frames st' out = strip admit (frames st n)
    \<and> seen st' = seen st @ (if onRecv then headers admit (frames st n) else [])"
proof -
  have "slots st 0 n = frames st n" by (simp add: frames_def slots_def)
  then show ?thesis
    using recv_loop_correct [OF assms(2), of 0 0 n admit onRecv] assms
    by (auto simp: wrapReceiveFunc_def frames_def [of _ 0])
qed

definition demo_batch :: "nat RecvBuf" where
  "demo_batch = \<lparr>packets = [replicate 26 0, [1, 0, 0, 0] @ replicate 11 0 @ [2] @ replicate 10 7],
     sizes = [3, 25], eps = [5, 6], seen = []\<rparr>"

theorem receive_strips_in_order_witness:
  "\<exists>out st'. wrapReceiveFunc (Some (\<lambda>h. 2 \<le> Epoch h)) True (\<lambda>_. (2, demo_batch, None)) demo_batch = Inr (out, st')
    \<and> frames st' out = strip (Some (\<lambda>h. 2 \<le> Epoch h)) (frames demo_batch 2)
    \<and> seen st' = seen demo_batch @ (if True then headers (Some (\<lambda>h. 2 \<le> Epoch h)) (frames demo_batch 2) else [])"
  by (rule receive_strips_in_order [where cap = 26]) (simp_all add: demo_batch_def batch_ok_def)

section \<open>Sending\<close>

definition stamp :: "sessionBind \<Rightarrow> u64 \<Rightarrow> SessionHeader" where
  "stamp b s = \<lparr>Version = Version1, Type = PacketTypeData, hDirection = DirUpstream,
     SessionID = sessionID b, Epoch = epoch b, SessionSeq = s\<rparr>"

lemma Send_loop_Cons:
  "\<exists>f. Decode f = Inr (stamp b (seq b + 1), 24) \<and> drop 24 f = buf \<and>
     Send_loop (buf # bufs) b = (case Send_loop bufs (b\<lparr>seq := seq b + 1\<rparr>) of
        Inl e \<Rightarrow> Inl e | Inr (rest, b') \<Rightarrow> Inr (f # rest, b'))"
proof -
  let ?h = "stamp b (seq b + 1)"
  obtain hd24 where e: "EncodeTo ?h (replicate SessionHeaderSize 0) = Inr hd24"
    using EncodeTo_frame [of "replicate SessionHeaderSize 0"] by auto
  have len: "length hd24 = 24" using length_EncodeTo [OF e] by (simp add: SessionHeaderSize_def)
  let ?f = "hd24 @ gocopy (replicate (length buf) 0) buf"
  have copy: "gocopy (replicate (length buf) 0) buf = buf" by (simp add: gocopy_def)
  have "EncodeTo ?h (replicate SessionHeaderSize 0 @ buf) = Inr (hd24 @ buf)"
    using e by (auto simp: EncodeTo_frame)
  then have "Decode ?f = Inr (?h, 24)"
    using Decode_EncodeTo by (auto simp: stamp_def canonDirection_def DirUpstream_def DirDownstream_def
        SessionHeaderSize_def copy)
  moreover have "drop 24 ?f = buf" by (simp add: len copy)
  moreover have "Send_loop (buf # bufs) b = (case Send_loop bufs (b\<lparr>seq := seq b + 1\<rparr>) of
      Inl e \<Rightarrow> Inl e | Inr (rest, b') \<Rightarrow> Inr (?f # rest, b'))"
    using e by (simp add: stamp_def Let_def replicate_add)
  ultimately show ?thesis by blast
qed

text \<open>
  (C19) Sending never fails for want of room, keeps the payloads and their order, and stamps datagram
  \<open>i\<close> of a batch with the device's session, its current epoch and the sequence number \<open>seq + 1 + i\<close>
  (modulo 2 to the 64); the counter ends where the next batch starts.
\<close>

theorem send_stamps_consecutive:
  "\<exists>fs. Send bufs b = Inr (fs, b\<lparr>seq := seq b + of_nat (length bufs)\<rparr>)
     \<and> map Decode fs = map (\<lambda>i. Inr (stamp b (seq b + 1 + of_nat i), 24)) [0..<length bufs]
     \<and> map (drop 24) fs = bufs"
  unfolding Send_def
proof (induction bufs arbitrary: b)
  case Nil
  then show ?case by simp
next
  case (Cons buf bufs)
  let ?b = "b\<lparr>seq := seq b + 1\<rparr>"
  obtain f where f: "Decode f = Inr (stamp b (seq b + 1), 24)" "drop 24 f = buf"
    "Send_loop (buf # bufs) b = (case Send_loop bufs ?b of Inl e \<Rightarrow> Inl e | Inr (rest, b') \<Rightarrow> Inr (f # rest, b'))"
    using Send_loop_Cons by blast
  obtain fs where fs: "Send_loop bufs ?b = Inr (fs, ?b\<lparr>seq := seq ?b + of_nat (length bufs)\<rparr>)"
    "map Decode fs = map (\<lambda>i. Inr (stamp ?b (seq ?b + 1 + of_nat i), 24)) [0..<length bufs]" "map (drop 24) fs = bufs"
    using Cons.IH [of ?b] by blast
  have st: "stamp ?b (seq ?b + 1 + of_nat i) = stamp b (seq b + 1 + of_nat (Suc i))" for i
    by (simp add: stamp_def)
  have "map Decode (f # fs) = map (\<lambda>i. Inr (stamp b (seq b + 1 + of_nat i), 24)) [0..<length (buf # bufs)]"
    unfolding list.map f(1) fs(2) st list.size(4) add_0_right add_Suc_right map_upt_Suc by simp
  moreover have "?b\<lparr>seq := seq ?b + of_nat (length bufs)\<rparr> = b\<lparr>seq := seq b + of_nat (length (buf # bufs))\<rparr>"
    by (simp add: add.assoc)
  then have "Send_loop (buf # bufs) b = Inr (f # fs, b\<lparr>seq := seq b + of_nat (length (buf # bufs))\<rparr>)"
    unfolding f(3) fs(1) by simp
  moreover have "map (drop 24) (f # fs) = buf # bufs" using f(2) fs(3) by simp
  ultimately show ?case by (intro exI [of _ "f # fs"] conjI)
qed

end
