(* ===== verification/Reorder.thy ===== *)
theory Reorder
  imports Prelude "HOL-Library.Multiset"
begin

text \<open>
  \<^verbatim>\<open>internal/reorder/receiver.go\<close>: the receiver that restores the order of a session's packets across
  a cutover. Each method holds the mutex from start to end, so an execution is a sequence of whole
  operations (\<open>rop\<close>, \<open>run\<close>). Sequence numbers and epochs keep their 64 bits.
\<close>

section \<open>Model\<close>

record Packet =
  pEpoch :: u64
  pSeq :: u64
  pPayload :: bytes

datatype DropReason = NotDropped | DropEpochStale | DropDuplicate | DropOutOfWindow | DropClosed

definition reason_code :: "DropReason \<Rightarrow> nat" where
  "reason_code r = (case r of NotDropped \<Rightarrow> 0 | DropEpochStale \<Rightarrow> 1 | DropDuplicate \<Rightarrow> 2 | DropOutOfWindow \<Rightarrow> 3 | DropClosed \<Rightarrow> 4)"

definition DropReason_String :: "DropReason \<Rightarrow> string" where
  "DropReason_String r = (case r of
     NotDropped \<Rightarrow> ''not dropped''
   | DropEpochStale \<Rightarrow> ''epoch stale''
   | DropDuplicate \<Rightarrow> ''duplicate''
   | DropOutOfWindow \<Rightarrow> ''out of window''
   | _ \<Rightarrow> ''DropReason('' @ dec (reason_code r) @ '')'')"

record Receiver =
  WindowSize :: u64
  currentEpoch :: u64
  delivered :: u64
  pending :: "(u64, Packet) gomap"
  closed :: bool

definition DefaultWindow :: u64 where "DefaultWindow = 64"

definition NewReceiver :: "u64 \<Rightarrow> u64 \<Rightarrow> u64 \<Rightarrow> Receiver" where
  "NewReceiver window ep seedSeq =
     \<lparr>WindowSize = window, currentEpoch = ep, delivered = seedSeq, pending = [], closed = False\<rparr>"

definition AdvanceEpoch :: "u64 \<Rightarrow> Receiver \<Rightarrow> Receiver" where
  "AdvanceEpoch ep r = (if ep > currentEpoch r then r\<lparr>currentEpoch := ep\<rparr> else r)"

text \<open>The delivery loop of \<^verbatim>\<open>Receive\<close>: hand over buffered packets while the next one is there.\<close>

function drain :: "Packet list \<Rightarrow> Receiver \<Rightarrow> Packet list \<times> Receiver" where
  "drain out r =
     (let nxt = delivered r + 1 in
      case mget (pending r) nxt of
        None \<Rightarrow> (out, r)
      | Some p \<Rightarrow> drain (out @ [p]) (r\<lparr>pending := mdel nxt (pending r), delivered := nxt\<rparr>))"
  by pat_completeness auto
termination
  by (relation "measure (\<lambda>(_, r). length (pending r))") (auto intro: length_mdel_less)

declare drain.simps [simp del]

definition Receive :: "Packet \<Rightarrow> Receiver \<Rightarrow> Packet list \<times> DropReason \<times> Receiver" where
  "Receive pkt r =
     (if closed r then ([], DropClosed, r)
      else if pEpoch pkt < currentEpoch r then ([], DropEpochStale, r)
      else if pSeq pkt \<le> delivered r then ([], DropDuplicate, r)
      else if mget (pending r) (pSeq pkt) \<noteq> None then ([], DropDuplicate, r)
      else if pSeq pkt - delivered r > WindowSize r + 1 then ([], DropOutOfWindow, r)
      else let (out, r') = drain [] (r\<lparr>pending := mput (pSeq pkt) pkt (pending r)\<rparr>)
           in (out, NotDropped, r'))"

definition PendingCount :: "Receiver \<Rightarrow> nat" where
  "PendingCount r = length (pending r)"

text \<open>\<^verbatim>\<open>Close\<close> sorts the keys and hands over the packets in that order.\<close>

definition Close :: "Receiver \<Rightarrow> Packet list \<times> Receiver" where
  "Close r =
     (if closed r then ([], r)
      else let r = r\<lparr>closed := True\<rparr> in
        if pending r = [] then ([], r)
        else (map (\<lambda>s. the (mget (pending r) s)) (sort (mkeys (pending r))), r\<lparr>pending := []\<rparr>))"

section \<open>Executions\<close>

datatype rop = Recv Packet | Advance u64 | CloseOp

definition rstep :: "rop \<Rightarrow> Receiver \<Rightarrow> Packet list \<times> Receiver" where
  "rstep op r = (case op of
     Recv p \<Rightarrow> (let (out, _, r') = Receive p r in (out, r'))
   | Advance e \<Rightarrow> ([], AdvanceEpoch e r)
   | CloseOp \<Rightarrow> ([], snd (Close r)))"

text \<open>All packets a sequence of operations hands to the application through \<^verbatim>\<open>Receive\<close>.\<close>

fun run :: "rop list \<Rightarrow> Receiver \<Rightarrow> Packet list \<times> Receiver" where
  "run [] r = ([], r)"
| "run (op # ops) r = (let (out, r1) = rstep op r; (outs, r2) = run ops r1 in (out @ outs, r2))"

definition received :: "rop list \<Rightarrow> Packet list" where
  "received ops = List.map_filter (\<lambda>op. case op of Recv p \<Rightarrow> Some p | _ \<Rightarrow> None) ops"

section \<open>Invariant\<close>

text \<open>The buffer before the loop has run: every packet filed under its number, inside the window.\<close>

definition buffered_ok :: "Receiver \<Rightarrow> bool" where
  "buffered_ok r \<longleftrightarrow> mwf (pending r)
     \<and> (\<forall>(s, p) \<in> set (pending r). pSeq p = s \<and> delivered r < s \<and> unat s \<le> unat (delivered r) + unat (WindowSize r + 1))"

definition recv_inv :: "Receiver \<Rightarrow> bool" where
  "recv_inv r \<longleftrightarrow> buffered_ok r \<and> mget (pending r) (delivered r + 1) = None"

text \<open>\<open>k\<close> consecutive sequence numbers after \<open>d\<close>.\<close>

definition consec :: "u64 \<Rightarrow> nat \<Rightarrow> u64 list" where
  "consec d k = map (\<lambda>i. d + 1 + of_nat i) [0..<k]"

lemma consec_0 [simp]: "consec d 0 = []"
  by (simp add: consec_def)

lemma consec_Suc: "consec d (Suc k) = (d + 1) # consec (d + 1) k"
proof -
  have "(d + 1) + 1 + of_nat i = d + 1 + (of_nat (Suc i) :: u64)" for i by simp
  then show ?thesis unfolding consec_def map_upt_Suc by simp
qed

lemma consec_append: "consec d (m + n) = consec d m @ consec (d + of_nat m) n"
proof (induction m arbitrary: d)
  case (Suc m)
  have "d + 1 + of_nat m = d + (of_nat (Suc m) :: u64)" by simp
  with Suc show ?case by (simp only: add_Suc consec_Suc append_Cons)
qed simp

lemma buffered_ok_next:
  assumes "buffered_ok r" "mget (pending r) (delivered r + 1) = Some p"
  shows "pSeq p = delivered r + 1" "unat (delivered r + 1) = unat (delivered r) + 1"
    "buffered_ok (r\<lparr>pending := mdel (delivered r + 1) (pending r), delivered := delivered r + 1\<rparr>)"
proof -
  have mem: "(delivered r + 1, p) \<in> set (pending r)" using assms(2) by (rule map_of_SomeD)
  then have lt: "delivered r < delivered r + 1" and s: "pSeq p = delivered r + 1"
    using assms(1) by (auto simp: buffered_ok_def)
  show "pSeq p = delivered r + 1" by (rule s)
  show u: "unat (delivered r + 1) = unat (delivered r) + 1" by (rule word_less_Suc_unat [OF lt])
  have "delivered r + 1 < s" if "s \<noteq> delivered r + 1" "delivered r < s" for s
  proof -
    have "unat s \<noteq> unat (delivered r + 1)" using that(1) by (simp add: word_unat_eq_iff)
    then show ?thesis using that(2) u by (simp add: word_less_nat_alt)
  qed
  then show "buffered_ok (r\<lparr>pending := mdel (delivered r + 1) (pending r), delivered := delivered r + 1\<rparr>)"
    using assms(1) unfolding buffered_ok_def by (simp add: set_mdel u) (blast intro: le_SucI)
qed

text \<open>What the loop hands over, and what it leaves.\<close>

definition drain_post :: "Receiver \<Rightarrow> Packet list \<Rightarrow> Receiver \<Rightarrow> bool" where
  "drain_post r new r' \<longleftrightarrow> recv_inv r' \<and> map pSeq new = consec (delivered r) (length new)
     \<and> unat (delivered r') = unat (delivered r) + length new
     \<and> mset (map snd (pending r)) = mset new + mset (map snd (pending r'))
     \<and> WindowSize r' = WindowSize r \<and> currentEpoch r' = currentEpoch r \<and> closed r' = closed r"

lemma drain_post_Nil: "buffered_ok r \<Longrightarrow> mget (pending r) (delivered r + 1) = None \<Longrightarrow> drain_post r [] r"
  by (simp add: drain_post_def recv_inv_def)

lemma mset_mdel:
  "mwf m \<Longrightarrow> mget m n = Some p \<Longrightarrow> mset (map snd m) = add_mset p (mset (map snd (mdel n m)))"
proof (induction m)
  case (Cons e m)
  then show ?case
    by (cases e) (auto simp: image_iff split: if_splits)
qed simp

lemma drain_post_Cons:
  assumes "buffered_ok r" "mget (pending r) (delivered r + 1) = Some p"
    and "drain_post (r\<lparr>pending := mdel (delivered r + 1) (pending r), delivered := delivered r + 1\<rparr>) new r'"
  shows "drain_post r (p # new) r'"
proof -
  have "mset (map snd (pending r)) = add_mset p (mset (map snd (mdel (delivered r + 1) (pending r))))"
    using assms(1,2) by (intro mset_mdel) (simp_all add: buffered_ok_def)
  then show ?thesis
    using assms(3) buffered_ok_next(1,2) [OF assms(1,2)] by (simp add: drain_post_def consec_Suc)
qed

lemma drain_spec:
  "buffered_ok r \<Longrightarrow> \<exists>new r'. drain out r = (out @ new, r') \<and> drain_post r new r'"
proof (induction out r rule: drain.induct)
  case (1 out r)
  show ?case
  proof (cases "mget (pending r) (delivered r + 1)")
    case None
    with drain_post_Nil [OF 1(2) None] show ?thesis by (simp add: drain.simps [of out r])
  next
    case (Some p)
    let ?r = "r\<lparr>pending := mdel (delivered r + 1) (pending r), delivered := delivered r + 1\<rparr>"
    obtain new r' where IH: "drain (out @ [p]) ?r = ((out @ [p]) @ new, r')" "drain_post ?r new r'"
      using 1(1) [OF refl Some buffered_ok_next(3) [OF 1(2) Some]] by blast
    then have "drain out r = (out @ (p # new), r')" using Some by (simp add: drain.simps [of out r])
    with drain_post_Cons [OF 1(2) Some IH(2)] show ?thesis by blast
  qed
qed

section \<open>One packet\<close>

lemma buffered_ok_mput:
  assumes "recv_inv r" "delivered r < pSeq pkt" "\<not> WindowSize r + 1 < pSeq pkt - delivered r"
  shows "buffered_ok (r\<lparr>pending := mput (pSeq pkt) pkt (pending r)\<rparr>)"
proof -
  have "unat (pSeq pkt - delivered r) = unat (pSeq pkt) - unat (delivered r)"
    using assms(2) by (simp add: unat_sub)
  then have "unat (pSeq pkt) \<le> unat (delivered r) + unat (WindowSize r + 1)"
    using assms(3) unfolding not_less word_le_nat_alt by linarith
  then show ?thesis
    using assms(1,2) by (auto simp: recv_inv_def buffered_ok_def set_mput)
qed

text \<open>The two outcomes of \<open>Receive\<close>: dropped with the state untouched, or filed and the loop run.\<close>

lemma Receive_cases:
  assumes "recv_inv r"
  obtains (dropped) reason where "Receive pkt r = ([], reason, r)" "reason \<noteq> NotDropped"
  | (accepted) new r' where "Receive pkt r = (new, NotDropped, r')" "\<not> closed r" "currentEpoch r \<le> pEpoch pkt"
      "delivered r < pSeq pkt" "mget (pending r) (pSeq pkt) = None"
      "drain_post (r\<lparr>pending := mput (pSeq pkt) pkt (pending r)\<rparr>) new r'"
proof (cases "closed r \<or> pEpoch pkt < currentEpoch r \<or> pSeq pkt \<le> delivered r
    \<or> mget (pending r) (pSeq pkt) \<noteq> None \<or> WindowSize r + 1 < pSeq pkt - delivered r")
  case True
  then have "\<exists>reason. Receive pkt r = ([], reason, r) \<and> reason \<noteq> NotDropped"
    by (auto simp: Receive_def)
  then show ?thesis using dropped by blast
next
  case False
  then have c: "\<not> closed r" "currentEpoch r \<le> pEpoch pkt" "delivered r < pSeq pkt"
      "mget (pending r) (pSeq pkt) = None" "\<not> WindowSize r + 1 < pSeq pkt - delivered r"
    by auto
  obtain new r' where d: "drain [] (r\<lparr>pending := mput (pSeq pkt) pkt (pending r)\<rparr>) = (new, r')"
      "drain_post (r\<lparr>pending := mput (pSeq pkt) pkt (pending r)\<rparr>) new r'"
    using drain_spec [OF buffered_ok_mput [OF assms c(3,5)], of "[]"] by auto
  then show ?thesis using c by (intro accepted) (auto simp: Receive_def)
qed

lemma mset_pending_mput:
  "mget m k = None \<Longrightarrow> image_mset snd (mset (mput k v m)) = add_mset v (image_mset snd (mset m))"
  by (simp add: mput_new)

lemma length_pending_bound:
  assumes "recv_inv r"
  shows "length (pending r) \<le> unat (WindowSize r)"
proof -
  let ?d = "unat (delivered r)" and ?w = "unat (WindowSize r + 1)"
  have "unat s \<in> {?d + 2..?d + ?w}" if "s \<in> set (mkeys (pending r))" for s
  proof -
    have lt: "delivered r < s" and le: "unat s \<le> ?d + ?w"
      using assms that by (auto simp: recv_inv_def buffered_ok_def)
    have "s \<noteq> delivered r + 1" using assms that by (metis mget_None_iff recv_inv_def)
    then have "unat s \<noteq> ?d + 1" using word_less_Suc_unat [OF lt] by (auto simp: word_unat_eq_iff)
    with lt le show ?thesis by (simp add: word_less_nat_alt)
  qed
  then have "unat ` set (mkeys (pending r)) \<subseteq> {?d + 2..?d + ?w}" by (rule image_subsetI)
  then have "card (unat ` set (mkeys (pending r))) \<le> ?w - 1"
    using card_mono [of "{?d + 2..?d + ?w}"] by fastforce
  moreover have "card (unat ` set (mkeys (pending r))) = length (pending r)"
    using assms distinct_card [of "mkeys (pending r)"]
    by (subst card_image) (auto simp: recv_inv_def buffered_ok_def inj_on_def word_unat_eq_iff)
  moreover have "?w - 1 \<le> unat (WindowSize r)"
    using unatSuc [of "WindowSize r"] by (cases "1 + WindowSize r = 0") (simp_all add: add.commute)
  ultimately show ?thesis by simp
qed

section \<open>Sequences of operations\<close>

lemma rstep_post:
  assumes "recv_inv r" "rstep op r = (out, r')"
  shows "recv_inv r' \<and> map pSeq out = consec (delivered r) (length out)
    \<and> unat (delivered r') = unat (delivered r) + length out
    \<and> WindowSize r' = WindowSize r \<and> currentEpoch r \<le> currentEpoch r'"
proof (cases op)
  case (Recv p)
  from assms(1) show ?thesis
  proof (cases rule: Receive_cases [of r p])
    case (dropped reason)
    with assms Recv show ?thesis by (auto simp: rstep_def)
  next
    case (accepted new r'')
    with assms Recv show ?thesis by (auto simp: rstep_def drain_post_def)
  qed
next
  case (Advance e)
  with assms show ?thesis
    by (cases "currentEpoch r < e") (auto simp: rstep_def AdvanceEpoch_def recv_inv_def buffered_ok_def)
next
  case CloseOp
  with assms show ?thesis
    by (auto simp: rstep_def Close_def recv_inv_def buffered_ok_def Let_def split: if_splits)
qed

lemma New_sel [simp]:
  "WindowSize (NewReceiver w e s) = w" "currentEpoch (NewReceiver w e s) = e" "delivered (NewReceiver w e s) = s"
  "pending (NewReceiver w e s) = []" "closed (NewReceiver w e s) = False"
  by (simp_all add: NewReceiver_def)

lemma recv_inv_New [simp]: "recv_inv (NewReceiver w e s)"
  by (simp add: recv_inv_def buffered_ok_def)

lemma consec_unat: "unat d' = unat d + k \<Longrightarrow> d' = d + of_nat k"
  by (metis of_nat_add of_nat_unat ucast_id)

lemma run_post:
  "recv_inv r \<Longrightarrow> run ops r = (outs, r') \<Longrightarrow>
   recv_inv r' \<and> map pSeq outs = consec (delivered r) (length outs)
    \<and> unat (delivered r') = unat (delivered r) + length outs
    \<and> WindowSize r' = WindowSize r \<and> currentEpoch r \<le> currentEpoch r'"
proof (induction ops arbitrary: r outs)
  case Nil
  then show ?case by simp
next
  case (Cons op ops)
  obtain out r1 outs' where st: "rstep op r = (out, r1)" "run ops r1 = (outs', r')" "outs = out @ outs'"
    using Cons.prems(2) by (auto split: prod.splits)
  note post = rstep_post [OF Cons.prems(1) st(1)]
  note IH = Cons.IH [OF conjunct1 [OF post] st(2)]
  have "delivered r1 = delivered r + of_nat (length out)" using post by (intro consec_unat) simp
  with post IH show ?case by (auto simp: st(3) consec_append)
qed

lemma rstep_sources:
  assumes "recv_inv r" "rstep op r = (out, r')"
  shows "set out \<union> snd ` set (pending r') \<subseteq> snd ` set (pending r) \<union> {p. op = Recv p \<and> currentEpoch r \<le> pEpoch p}"
proof (cases op)
  case (Recv p)
  from assms(1) show ?thesis
  proof (cases rule: Receive_cases [of r p])
    case (dropped reason)
    with assms Recv show ?thesis by (auto simp: rstep_def)
  next
    case (accepted new r'')
    then have "mset new + mset (map snd (pending r'')) = add_mset p (mset (map snd (pending r)))"
      by (simp add: drain_post_def mset_pending_mput)
    then have "set_mset (mset new + mset (map snd (pending r''))) = set_mset (add_mset p (mset (map snd (pending r))))"
      by simp
    with accepted(1,3) assms Recv show ?thesis by (auto simp: rstep_def)
  qed
next
  case (Advance e)
  with assms show ?thesis by (cases "currentEpoch r < e") (auto simp: rstep_def AdvanceEpoch_def)
next
  case CloseOp
  with assms show ?thesis by (auto simp: rstep_def Close_def Let_def split: if_splits)
qed

lemma received_simps [simp]:
  "received [] = []" "received (Recv p # ops) = p # received ops"
  "received (Advance e # ops) = received ops" "received (CloseOp # ops) = received ops"
  by (simp_all add: received_def List.map_filter_def)

lemma run_sources:
  "recv_inv r \<Longrightarrow> run ops r = (outs, r') \<Longrightarrow> E \<le> currentEpoch r \<Longrightarrow>
   set outs \<union> snd ` set (pending r') \<subseteq> snd ` set (pending r) \<union> {p \<in> set (received ops). E \<le> pEpoch p}"
proof (induction ops arbitrary: r outs)
  case Nil
  then show ?case by simp
next
  case (Cons op ops)
  obtain out r1 outs' where st: "rstep op r = (out, r1)" "run ops r1 = (outs', r')" "outs = out @ outs'"
    using Cons.prems(2) by (auto split: prod.splits)
  note post = rstep_post [OF Cons.prems(1) st(1)]
  have E1: "E \<le> currentEpoch r1" using post Cons.prems(3) by (meson order_trans)
  have "{p. op = Recv p \<and> currentEpoch r \<le> pEpoch p} \<union> {p \<in> set (received ops). E \<le> pEpoch p}
      \<subseteq> {p \<in> set (received (op # ops)). E \<le> pEpoch p}"
    using Cons.prems(3) by (cases op) (auto dest: order_trans)
  with rstep_sources [OF Cons.prems(1) st(1)] Cons.IH [OF conjunct1 [OF post] st(2) E1]
  show ?case unfolding st(3) set_append by blast
qed

lemma run_append: "run (ops1 @ ops2) r =
   (let (out1, r1) = run ops1 r; (out2, r2) = run ops2 r1 in (out1 @ out2, r2))"
  by (induction ops1 arbitrary: r) (auto split: prod.splits)

lemma run_inv: "recv_inv (snd (run ops (NewReceiver w e seed)))"
  using run_post [OF recv_inv_New, of ops w e seed] by (cases "run ops (NewReceiver w e seed)") auto

text \<open>
  (C2) Exactly once and in order: whatever packets arrive, in whatever order, repeated or stale, and
  whatever epoch changes and closes come between them, the packets handed to the application over the
  whole execution carry the sequence numbers \<open>seed + 1, seed + 2, \<dots>\<close> without a gap, a repetition or
  an inversion, and \<open>delivered\<close> never wraps past the 64-bit maximum.
\<close>

theorem delivers_in_order:
  "map pSeq (fst (run ops (NewReceiver w e seed))) = consec seed (length (fst (run ops (NewReceiver w e seed))))
   \<and> unat (delivered (snd (run ops (NewReceiver w e seed)))) = unat seed + length (fst (run ops (NewReceiver w e seed)))
   \<and> set (fst (run ops (NewReceiver w e seed))) \<subseteq> set (received ops)"
proof -
  obtain outs r' where r: "run ops (NewReceiver w e seed) = (outs, r')" by fastforce
  show ?thesis
    using run_post [OF recv_inv_New r] run_sources [OF recv_inv_New r, of 0]
    unfolding r by auto
qed

text \<open>
  (C17) The buffer is bounded: a receiver with window \<open>w\<close> never holds more than \<open>w\<close> packets, after any
  sequence of operations.
\<close>

theorem pending_bounded: "PendingCount (snd (run ops (NewReceiver w e seed))) \<le> unat w"
proof -
  obtain outs r' where r: "run ops (NewReceiver w e seed) = (outs, r')" by fastforce
  show ?thesis
    using run_post [OF recv_inv_New r] length_pending_bound [of r'] unfolding r by (simp add: PendingCount_def)
qed

text \<open>
  (C16) The epoch fence: once a receiver has advanced to epoch \<open>E\<close>, no packet that arrives later with a
  lower epoch is ever delivered; what is delivered afterwards either arrived at epoch \<open>E\<close> or above or
  was already buffered when the epoch changed.
\<close>

theorem stale_epochs_fenced:
  "set (fst (run (Advance E # ops) r)) \<subseteq> snd ` set (pending r) \<union> {p \<in> set (received ops). E \<le> pEpoch p}"
  if "recv_inv r"
proof -
  obtain outs r' where st: "run ops (AdvanceEpoch E r) = (outs, r')" by fastforce
  have inv: "recv_inv (AdvanceEpoch E r)"
    using rstep_post [OF that, of "Advance E"] by (simp add: rstep_def)
  have E: "E \<le> currentEpoch (AdvanceEpoch E r)" by (auto simp: AdvanceEpoch_def)
  have "pending (AdvanceEpoch E r) = pending r" by (simp add: AdvanceEpoch_def)
  with run_sources [OF inv st E] st show ?thesis by (auto simp: rstep_def)
qed

theorem stale_epochs_fenced_witness:
  "set (fst (run (Advance 5 # [Recv \<lparr>pEpoch = 4, pSeq = 1, pPayload = []\<rparr>]) (NewReceiver 64 3 0)))
    \<subseteq> snd ` set (pending (NewReceiver 64 3 0)) \<union> {p \<in> set (received [Recv \<lparr>pEpoch = 4, pSeq = 1, pPayload = []\<rparr>]). 5 \<le> pEpoch p}"
  by (rule stale_epochs_fenced) simp

section \<open>Nothing is lost\<close>

text \<open>The packets of an execution that \<open>Receive\<close> accepted.\<close>

fun acceptedPkts :: "rop list \<Rightarrow> Receiver \<Rightarrow> Packet list" where
  "acceptedPkts [] r = []"
| "acceptedPkts (op # ops) r =
     (case op of Recv p \<Rightarrow> (if fst (snd (Receive p r)) = NotDropped then [p] else []) | _ \<Rightarrow> [])
     @ acceptedPkts ops (snd (rstep op r))"

lemma rstep_account:
  assumes "recv_inv r" "op \<noteq> CloseOp"
  shows "mset (acceptedPkts [op] r) + mset (map snd (pending r))
    = mset (fst (rstep op r)) + mset (map snd (pending (snd (rstep op r))))"
proof (cases op)
  case (Recv p)
  from assms(1) show ?thesis
  proof (cases rule: Receive_cases [of r p])
    case (dropped reason)
    with Recv show ?thesis by (simp add: rstep_def)
  next
    case (accepted new r'')
    with Recv show ?thesis by (simp add: rstep_def drain_post_def mset_pending_mput)
  qed
next
  case (Advance e)
  then show ?thesis by (simp add: rstep_def AdvanceEpoch_def)
qed (use assms in simp)

lemma run_account:
  "recv_inv r \<Longrightarrow> CloseOp \<notin> set ops \<Longrightarrow>
   mset (acceptedPkts ops r) + mset (map snd (pending r)) = mset (fst (run ops r)) + mset (map snd (pending (snd (run ops r))))"
proof (induction ops arbitrary: r)
  case Nil
  then show ?case by simp
next
  case (Cons op ops)
  obtain out r1 where st: "rstep op r = (out, r1)" by fastforce
  have "recv_inv r1" using rstep_post [OF Cons.prems(1) st] by blast
  then have IH: "mset (acceptedPkts ops r1) + mset (map snd (pending r1)) = mset (fst (run ops r1)) + mset (map snd (pending (snd (run ops r1))))"
    using Cons by simp
  have hd: "mset (acceptedPkts [op] r) + mset (map snd (pending r)) = mset out + mset (map snd (pending r1))"
    using rstep_account [OF Cons.prems(1), of op] Cons.prems(2) st by force
  have "acceptedPkts (op # ops) r = acceptedPkts [op] r @ acceptedPkts ops r1" using st by simp
  moreover have "run (op # ops) r = (out @ fst (run ops r1), snd (run ops r1))" using st by (simp add: case_prod_beta)
  ultimately show ?case using IH hd by (simp add: ac_simps)
qed

lemma mset_Close:
  assumes "recv_inv r" "\<not> closed r"
  shows "mset (fst (Close r)) = mset (map snd (pending r))"
proof -
  have wf: "mwf (pending r)" using assms by (simp add: recv_inv_def buffered_ok_def)
  have "mset (map (\<lambda>s. the (mget (pending r) s)) (sort (mkeys (pending r))))
      = image_mset (\<lambda>s. the (mget (pending r) s)) (mset (mkeys (pending r)))"
    by simp
  also have "\<dots> = mset (map (\<lambda>e. the (mget (pending r) (fst e))) (pending r))"
    by (simp add: image_mset.compositionality o_def)
  also have "\<dots> = mset (map snd (pending r))"
    using wf by (intro arg_cong [of _ _ mset] map_cong) auto
  finally show ?thesis using assms(2) by (simp add: Close_def Let_def)
qed

lemma run_open: "CloseOp \<notin> set ops \<Longrightarrow> recv_inv r \<Longrightarrow> closed (snd (run ops r)) = closed r"
proof (induction ops arbitrary: r)
  case (Cons op ops)
  obtain out r1 where st: "rstep op r = (out, r1)" by fastforce
  have inv: "recv_inv r1" using rstep_post [OF Cons.prems(2) st] by blast
  have "closed r1 = closed r"
  proof (cases op)
    case (Recv p)
    from Cons.prems(2) show ?thesis
      by (cases rule: Receive_cases [of r p]) (use st Recv in \<open>auto simp: rstep_def drain_post_def\<close>)
  qed (use st Cons.prems in \<open>auto simp: rstep_def AdvanceEpoch_def split: if_splits\<close>)
  with Cons inv st show ?case by (simp add: case_prod_beta)
qed simp

text \<open>
  (C15) Nothing accepted is lost or duplicated: until the receiver is closed, the packets it delivered
  together with those \<open>Close\<close> hands back at the end are, as a multiset, exactly the packets \<open>Receive\<close>
  did not report as dropped.
\<close>

theorem accepted_are_accounted_for:
  assumes "CloseOp \<notin> set ops"
  shows "mset (fst (run ops (NewReceiver w e seed))) + mset (fst (Close (snd (run ops (NewReceiver w e seed)))))
    = mset (acceptedPkts ops (NewReceiver w e seed))"
  using run_account [OF recv_inv_New assms, of w e seed] mset_Close [OF run_inv, of ops w e seed]
    run_open [OF assms recv_inv_New, of w e seed]
  by simp

theorem accepted_are_accounted_for_witness:
  "mset (fst (run [Recv \<lparr>pEpoch = 0, pSeq = 2, pPayload = []\<rparr>] (NewReceiver 64 0 0)))
     + mset (fst (Close (snd (run [Recv \<lparr>pEpoch = 0, pSeq = 2, pPayload = []\<rparr>] (NewReceiver 64 0 0)))))
   = mset (acceptedPkts [Recv \<lparr>pEpoch = 0, pSeq = 2, pPayload = []\<rparr>] (NewReceiver 64 0 0))"
  by (rule accepted_are_accounted_for) simp

section \<open>Any arrival order inside the window is repaired\<close>

lemma mem_consec:
  assumes "unat d + k < 2 ^ 64"
  shows "s \<in> set (consec d k) \<longleftrightarrow> unat d < unat s \<and> unat s \<le> unat d + k"
proof -
  have u: "unat (d + 1 + of_nat i) = unat d + 1 + i" if "i < k" for i
  proof -
    have "unat d + 1 + i < 2 ^ LENGTH(64)" using assms that by simp
    then show ?thesis by (intro of_nat_inverse) simp_all
  qed
  show ?thesis
  proof
    assume "s \<in> set (consec d k)"
    then show "unat d < unat s \<and> unat s \<le> unat d + k" by (auto simp: consec_def u)
  next
    assume a: "unat d < unat s \<and> unat s \<le> unat d + k"
    let ?i = "unat s - unat d - 1"
    have "unat (d + 1 + of_nat ?i) = unat s" using a by (subst u) auto
    then have "s = d + 1 + of_nat ?i" by (simp add: word_unat_eq_iff)
    moreover have "?i < k" using a by linarith
    ultimately show "s \<in> set (consec d k)" unfolding consec_def by force
  qed
qed

lemma acceptedPkts_append:
  "acceptedPkts (ops1 @ ops2) r = acceptedPkts ops1 r @ acceptedPkts ops2 (snd (run ops1 r))"
  by (induction ops1 arbitrary: r) (auto simp: case_prod_beta)

lemma run_Recv_epoch: "recv_inv r \<Longrightarrow> currentEpoch (snd (run (map Recv ps) r)) = currentEpoch r"
proof (induction ps arbitrary: r)
  case (Cons p ps)
  obtain out r1 where st: "rstep (Recv p) r = (out, r1)" by fastforce
  have inv: "recv_inv r1" using rstep_post [OF Cons.prems st] by blast
  from Cons.prems have "currentEpoch r1 = currentEpoch r"
    by (cases rule: Receive_cases [of r p]) (use st in \<open>auto simp: rstep_def drain_post_def\<close>)
  with Cons.IH [OF inv] st show ?case by (simp add: case_prod_beta)
qed simp

lemma Receive_accepts:
  assumes "recv_inv r" "\<not> closed r" "currentEpoch r \<le> pEpoch p" "unat (delivered r) < unat (pSeq p)"
    "mget (pending r) (pSeq p) = None" "unat (pSeq p) \<le> unat (delivered r) + unat (WindowSize r + 1)"
  shows "fst (snd (Receive p r)) = NotDropped"
proof -
  have "unat (pSeq p - delivered r) = unat (pSeq p) - unat (delivered r)"
    using assms(4) by (simp add: unat_sub word_le_nat_alt)
  then have "\<not> WindowSize r + 1 < pSeq p - delivered r"
    using assms(6) by (simp add: word_less_nat_alt)
  then show ?thesis using assms(2-5) by (auto simp: Receive_def word_le_nat_alt word_less_nat_alt split: prod.splits)
qed

lemma all_accepted:
  assumes "unat seed + n < 2 ^ 64" "n \<le> unat (w + 1)"
  shows "distinct (map pSeq ps) \<Longrightarrow> pSeq ` set ps \<subseteq> set (consec seed n) \<Longrightarrow> (\<And>p. p \<in> set ps \<Longrightarrow> e \<le> pEpoch p) \<Longrightarrow>
    acceptedPkts (map Recv ps) (NewReceiver w e seed) = ps"
proof (induction ps rule: rev_induct)
  case Nil
  then show ?case by simp
next
  case (snoc p ps)
  obtain outs r where r: "run (map Recv ps) (NewReceiver w e seed) = (outs, r)" by fastforce
  note post = run_post [OF recv_inv_New r]
  have IH: "acceptedPkts (map Recv ps) (NewReceiver w e seed) = ps" using snoc by simp
  have noclose: "CloseOp \<notin> set (map Recv ps)" by auto
  have acc: "mset ps = mset outs + mset (map snd (pending r))"
    using run_account [OF recv_inv_New noclose, of w e seed] IH by (simp add: r)
  have op: "\<not> closed r" "currentEpoch r = e"
    using run_open [OF noclose recv_inv_New, of w e seed] run_Recv_epoch [OF recv_inv_New, of ps w e seed] by (simp_all add: r)
  have fresh: "pSeq p \<notin> pSeq ` set ps" using snoc.prems(1) by auto
  have sub: "set outs \<union> snd ` set (pending r) = set ps"
    using arg_cong [OF acc, of set_mset] by simp
  have range: "unat seed < unat (pSeq p)" "unat (pSeq p) \<le> unat seed + n"
    using snoc.prems(2) mem_consec [OF assms(1)] by auto
  have d: "unat (delivered r) = unat seed + length outs" and sq: "map pSeq outs = consec seed (length outs)"
    using post by simp_all
  have "unat (delivered r) < 2 ^ LENGTH(64)" by (rule unsigned_less)
  then have bound: "unat seed + length outs < 2 ^ 64" using d by simp
  have "set (map pSeq outs) \<subseteq> pSeq ` set ps" using sub by auto
  then have "pSeq p \<notin> set (consec seed (length outs))" unfolding sq using fresh by blast
  then have gt: "unat (delivered r) < unat (pSeq p)" using mem_consec [OF bound] range(1) d by force
  have "mget (pending r) (pSeq p) = None"
  proof (rule ccontr)
    assume "mget (pending r) (pSeq p) \<noteq> None"
    then obtain q where "(pSeq p, q) \<in> set (pending r)" by (auto dest: map_of_SomeD)
    moreover from this have "pSeq q = pSeq p" using post by (auto simp: recv_inv_def buffered_ok_def)
    moreover have "q \<in> snd ` set (pending r)" using calculation(1) by (rule rev_image_eqI) simp
    ultimately show False using fresh sub by (metis UnI2 image_eqI)
  qed
  moreover have "e \<le> pEpoch p" using snoc.prems(3) by simp
  moreover have "unat (pSeq p) \<le> unat (delivered r) + unat (WindowSize r + 1)"
    using range(2) assms(2) d post by simp
  ultimately have "fst (snd (Receive p r)) = NotDropped"
    using Receive_accepts [of r p] post op gt by auto
  then show ?case using IH by (simp add: acceptedPkts_append r)
qed

text \<open>
  (C3) The window repairs every reordering: if the packets \<open>seed + 1, \<dots>, seed + n\<close> arrive once each in
  any order, at the current epoch or above, with \<open>n\<close> at most one more than the window, then all of
  them are delivered, in sequence order, and the buffer ends empty.
\<close>

theorem reordering_repaired:
  assumes "distinct (map pSeq ps)" "set (map pSeq ps) = set (consec seed n)"
    and "\<forall>p \<in> set ps. e \<le> pEpoch p" "unat seed + n < 2 ^ 64" "n \<le> unat (w + 1)"
  shows "map pSeq (fst (run (map Recv ps) (NewReceiver w e seed))) = consec seed n
    \<and> mset (fst (run (map Recv ps) (NewReceiver w e seed))) = mset ps
    \<and> pending (snd (run (map Recv ps) (NewReceiver w e seed))) = []"
proof -
  obtain outs r where r: "run (map Recv ps) (NewReceiver w e seed) = (outs, r)" by fastforce
  note post = run_post [OF recv_inv_New r]
  have noclose: "CloseOp \<notin> set (map Recv ps)" by auto
  have "acceptedPkts (map Recv ps) (NewReceiver w e seed) = ps"
    using assms by (intro all_accepted [of seed n]) auto
  then have acc: "mset ps = mset outs + mset (map snd (pending r))"
    using run_account [OF recv_inv_New noclose, of w e seed] by (simp add: r)
  have sub: "set outs \<union> snd ` set (pending r) = set ps" using arg_cong [OF acc, of set_mset] by simp
  have d: "unat (delivered r) = unat seed + length outs" and sq: "map pSeq outs = consec seed (length outs)"
    using post by simp_all
  have "length (consec seed n) = n" by (simp add: consec_def)
  have "card (set (consec seed n)) \<le> n" using card_length [of "consec seed n"] by (simp add: consec_def)
  then have psn: "length ps \<le> n" using assms(1,2) by (metis distinct_card length_map)
  have "\<not> length outs < n"
  proof
    assume lt: "length outs < n"
    have u: "unat (delivered r + 1) = unat seed + length outs + 1"
      using lt assms(4) by (intro of_nat_inverse) (simp_all only: d [symmetric], simp_all, simp_all add: d)
    have "delivered r + 1 \<in> set (consec seed n)"
      unfolding mem_consec [OF assms(4)] u using lt by simp
    then obtain p where p: "p \<in> set ps" "pSeq p = delivered r + 1"
      unfolding assms(2) [symmetric] by auto
    have "unat seed + length outs < 2 ^ 64" using lt assms(4) by simp
    then have "delivered r + 1 \<notin> set (map pSeq outs)" unfolding sq by (simp add: mem_consec u)
    then have "p \<in> snd ` set (pending r)" using p sub by force
    then have "mget (pending r) (delivered r + 1) \<noteq> None"
      using p(2) post by (auto simp: recv_inv_def buffered_ok_def)
    then show False using post by (simp add: recv_inv_def)
  qed
  moreover have "length ps = length outs + length (pending r)" using arg_cong [OF acc, of size] by simp
  ultimately have "length outs = n" "length (pending r) = 0" using psn by linarith+
  then show ?thesis using acc sq by (simp add: r)
qed

theorem reordering_repaired_witness:
  "let ps = [\<lparr>pEpoch = 1, pSeq = 3, pPayload = []\<rparr>, \<lparr>pEpoch = 1, pSeq = 1, pPayload = []\<rparr>, \<lparr>pEpoch = 2, pSeq = 2, pPayload = []\<rparr>]
   in map pSeq (fst (run (map Recv ps) (NewReceiver 2 1 0))) = consec 0 3
    \<and> mset (fst (run (map Recv ps) (NewReceiver 2 1 0))) = mset ps
    \<and> pending (snd (run (map Recv ps) (NewReceiver 2 1 0))) = []"
  unfolding Let_def by (rule reordering_repaired) (auto simp: consec_def upt_rec)

end
