(* ===== verification/Store.thy ===== *)
theory Store
  imports Json "HOL-Library.Multiset"
begin

text \<open>
  \<^verbatim>\<open>internal/control/store.go\<close>: the key-value store interface (\<^verbatim>\<open>KVStore\<close> and \<^verbatim>\<open>Fencer\<close>), as a record
  of operations over a state type, and its in-memory implementation \<^verbatim>\<open>MemStore\<close> with revisions and
  watch channels. The locale \<open>fenced_store\<close> is the contract the ownership service relies on;
  \<^verbatim>\<open>MemStore\<close> is shown to keep it. Values are documents (type \<^typ>\<open>raw\<close>). A send on a closed Go channel is a
  run-time panic; the model records it in \<open>panicked\<close>. Revisions are unbounded.
\<close>

section \<open>The interface\<close>

datatype storeErr = StoreErr string

text \<open>An operation that writes returns the store after it, also when it fails.\<close>

record 's kvops =
  kGet :: "string \<Rightarrow> 's \<Rightarrow> storeErr + raw option"
  kPut :: "string \<Rightarrow> raw \<Rightarrow> 's \<Rightarrow> storeErr option \<times> 's"
  kList :: "string \<Rightarrow> 's \<Rightarrow> storeErr + (string, raw) gomap"
  kRevision :: "string \<Rightarrow> 's \<Rightarrow> storeErr + int option"
  kCAS :: "string \<Rightarrow> int \<Rightarrow> raw \<Rightarrow> 's \<Rightarrow> (storeErr + int \<times> bool) \<times> 's"

section \<open>MemStore\<close>

record Event =
  eKey :: string
  eValue :: raw
  eDeleted :: bool

record memEntry =
  mValue :: raw
  mRevision :: int

record chan =
  queue :: "Event list"
  chClosed :: bool

definition chanCap :: nat where "chanCap = 16"

record MemStore =
  mData :: "(string, memEntry) gomap"
  nextRev :: int
  watchers :: "(string, nat list) gomap"
  chans :: "chan list"
  panicked :: bool

definition NewMemStore :: MemStore where
  "NewMemStore = \<lparr>mData = [], nextRev = 0, watchers = [], chans = [], panicked = False\<rparr>"

text \<open>\<^verbatim>\<open>select { case ch <- ev: default: }\<close> on one channel.\<close>

definition trySend :: "Event \<Rightarrow> nat \<Rightarrow> MemStore \<Rightarrow> MemStore" where
  "trySend ev c m =
     (if chClosed (chans m ! c) then m\<lparr>panicked := True\<rparr>
      else if length (queue (chans m ! c)) < chanCap
      then m\<lparr>chans := (chans m)[c := (chans m ! c)\<lparr>queue := queue (chans m ! c) @ [ev]\<rparr>]\<rparr>
      else m)"

text \<open>The two halves of \<^verbatim>\<open>notify\<close>: collecting the channels under the lock, sending after it.\<close>

definition toNotify :: "string \<Rightarrow> MemStore \<Rightarrow> nat list" where
  "toNotify key m = concat (map snd (filter (\<lambda>(pre, _). prefix pre key) (watchers m)))"

definition sendAll :: "Event \<Rightarrow> nat list \<Rightarrow> MemStore \<Rightarrow> MemStore" where
  "sendAll ev cs m = fold (trySend ev) cs m"

definition notify :: "Event \<Rightarrow> MemStore \<Rightarrow> MemStore" where
  "notify ev m = sendAll ev (toNotify (eKey ev) m) m"

text \<open>The locked part of \<^verbatim>\<open>Put\<close> and of a successful \<^verbatim>\<open>CompareAndSwap\<close>.\<close>

definition mem_write :: "string \<Rightarrow> raw \<Rightarrow> MemStore \<Rightarrow> MemStore" where
  "mem_write key v m =
     m\<lparr>nextRev := nextRev m + 1, mData := mput key \<lparr>mValue = v, mRevision = nextRev m + 1\<rparr> (mData m)\<rparr>"

definition mem_Put :: "string \<Rightarrow> raw \<Rightarrow> MemStore \<Rightarrow> storeErr option \<times> MemStore" where
  "mem_Put key v m = (None, notify \<lparr>eKey = key, eValue = v, eDeleted = False\<rparr> (mem_write key v m))"

definition mem_Get :: "string \<Rightarrow> MemStore \<Rightarrow> storeErr + raw option" where
  "mem_Get key m = Inr (case mget (mData m) key of None \<Rightarrow> None | Some e \<Rightarrow> Some (mValue e))"

definition mem_List :: "string \<Rightarrow> MemStore \<Rightarrow> storeErr + (string, raw) gomap" where
  "mem_List pre m = Inr (map (\<lambda>(k, e). (k, mValue e)) (filter (\<lambda>(k, _). prefix pre k) (mData m)))"

definition mem_Watch :: "string \<Rightarrow> MemStore \<Rightarrow> nat \<times> MemStore" where
  "mem_Watch pre m =
     (let c = length (chans m) in
      (c, m\<lparr>chans := chans m @ [\<lparr>queue = [], chClosed = False\<rparr>],
             watchers := mput pre ((case mget (watchers m) pre of None \<Rightarrow> [] | Some cs \<Rightarrow> cs) @ [c]) (watchers m)\<rparr>))"

text \<open>The goroutine of \<^verbatim>\<open>Watch\<close> once its context is done: unregister, then close.\<close>

definition mem_cancel :: "string \<Rightarrow> nat \<Rightarrow> MemStore \<Rightarrow> MemStore" where
  "mem_cancel pre c m =
     (let cs = (case mget (watchers m) pre of None \<Rightarrow> [] | Some cs \<Rightarrow> cs);
          m = (if c \<in> set cs then m\<lparr>watchers := mput pre (remove1 c cs) (watchers m)\<rparr> else m)
      in m\<lparr>chans := (chans m)[c := (chans m ! c)\<lparr>chClosed := True\<rparr>]\<rparr>)"

definition mem_Revision :: "string \<Rightarrow> MemStore \<Rightarrow> storeErr + int option" where
  "mem_Revision key m = Inr (case mget (mData m) key of None \<Rightarrow> None | Some e \<Rightarrow> Some (mRevision e))"

definition mem_CAS :: "string \<Rightarrow> int \<Rightarrow> raw \<Rightarrow> MemStore \<Rightarrow> (storeErr + int \<times> bool) \<times> MemStore" where
  "mem_CAS key expectedRevision v m =
     (let cur = (case mget (mData m) key of None \<Rightarrow> 0 | Some e \<Rightarrow> mRevision e) in
      if cur \<noteq> expectedRevision then (Inr (cur, False), m)
      else let m = mem_write key v m; rev = nextRev m
           in (Inr (rev, True), notify \<lparr>eKey = key, eValue = v, eDeleted = False\<rparr> m))"

definition mem_ops :: "MemStore kvops" where
  "mem_ops = \<lparr>kGet = mem_Get, kPut = mem_Put, kList = mem_List, kRevision = mem_Revision, kCAS = mem_CAS\<rparr>"

section \<open>The contract\<close>

text \<open>
  What a client may rely on: reads see the last write, a listing shows exactly the keys with the
  prefix, a compare-and-swap writes exactly when the revision it names is the key's current one (0 for
  an absent key), and every write of a document (anything that is not malformed) gives the key a
  revision above every revision handed out before (\<open>clock\<close>). No operation of such a store fails.
\<close>

locale fenced_store =
  fixes ops :: "'s kvops" and sinv :: "'s \<Rightarrow> bool" and look :: "'s \<Rightarrow> string \<Rightarrow> (raw \<times> int) option"
    and clock :: "'s \<Rightarrow> int"
  assumes Get: "sinv s \<Longrightarrow> kGet ops k s = Inr (map_option fst (look s k))"
    and Revision: "sinv s \<Longrightarrow> kRevision ops k s = Inr (map_option snd (look s k))"
    and rev_range: "sinv s \<Longrightarrow> look s k = Some (v, r) \<Longrightarrow> 0 < r \<and> r \<le> clock s"
    and clock_nonneg: "sinv s \<Longrightarrow> 0 \<le> clock s"
    and CAS_fail: "sinv s \<Longrightarrow> (case look s k of None \<Rightarrow> 0 | Some (v, r) \<Rightarrow> r) \<noteq> e \<Longrightarrow>
        \<exists>cur. kCAS ops k e v s = (Inr (cur, False), s)"
    and CAS_ok: "sinv s \<Longrightarrow> (case look s k of None \<Rightarrow> 0 | Some (v, r) \<Rightarrow> r) = e \<Longrightarrow> v \<noteq> RawBad \<Longrightarrow>
        \<exists>s' r'. kCAS ops k e v s = (Inr (r', True), s') \<and> sinv s' \<and> clock s < r' \<and> clock s' = r'
          \<and> look s' = (look s)(k \<mapsto> (v, r'))"
begin

text \<open>A swap never succeeds against a revision older than the current one.\<close>

lemma CAS_decides:
  assumes "sinv s" "v \<noteq> RawBad"
  shows "(\<exists>r' s'. kCAS ops k e v s = (Inr (r', True), s')) \<longleftrightarrow> (case look s k of None \<Rightarrow> 0 | Some (v, r) \<Rightarrow> r) = e"
  using CAS_fail [OF assms(1), of k e v] CAS_ok [OF assms(1) _ assms(2), of k e]
  by (metis Inr_inject prod.inject)

text \<open>After a successful swap the expectation that succeeded is stale.\<close>

lemma CAS_once:
  assumes "sinv s" "kCAS ops k e v s = (Inr (r', True), s')" "v \<noteq> RawBad"
  shows "\<exists>cur. kCAS ops k e v' s' = (Inr (cur, False), s')"
proof -
  have e: "(case look s k of None \<Rightarrow> 0 | Some (v, r) \<Rightarrow> r) = e" using assms CAS_decides by blast
  then have le: "e \<le> clock s"
    using rev_range [OF assms(1), of k] clock_nonneg [OF assms(1)] by (auto split: option.splits)
  obtain s2 r2 where "kCAS ops k e v s = (Inr (r2, True), s2)" "sinv s2" "clock s < r2" "look s2 = (look s)(k \<mapsto> (v, r2))"
    using CAS_ok [OF assms(1) e assms(3)] by blast
  with assms(2) le show ?thesis by (intro CAS_fail) auto
qed

end

text \<open>The rest of the interface: plain writes, and listings by prefix.\<close>

locale kv_store = fenced_store ops sinv look clock
  for ops :: "'s kvops" and sinv :: "'s \<Rightarrow> bool" and look :: "'s \<Rightarrow> string \<Rightarrow> (raw \<times> int) option" and clock :: "'s \<Rightarrow> int" +
  assumes Put: "sinv s \<Longrightarrow> v \<noteq> RawBad \<Longrightarrow>
        \<exists>s' r'. kPut ops k v s = (None, s') \<and> sinv s' \<and> clock s < r' \<and> clock s' = r' \<and> look s' = (look s)(k \<mapsto> (v, r'))"
    and List: "sinv s \<Longrightarrow> \<exists>kvs. kList ops pre s = Inr kvs \<and> mwf kvs
        \<and> mget kvs = (\<lambda>k. if prefix pre k then map_option fst (look s k) else None)"

section \<open>MemStore keeps the contract\<close>

definition mem_look :: "MemStore \<Rightarrow> string \<Rightarrow> (raw \<times> int) option" where
  "mem_look m k = map_option (\<lambda>e. (mValue e, mRevision e)) (mget (mData m) k)"

definition mem_inv :: "MemStore \<Rightarrow> bool" where
  "mem_inv m \<longleftrightarrow> mwf (mData m) \<and> 0 \<le> nextRev m \<and> (\<forall>(k, e) \<in> set (mData m). 0 < mRevision e \<and> mRevision e \<le> nextRev m)"

lemma trySend_sel [simp]:
  "mData (trySend ev c m) = mData m" "nextRev (trySend ev c m) = nextRev m"
  "watchers (trySend ev c m) = watchers m" "length (chans (trySend ev c m)) = length (chans m)"
  by (simp_all add: trySend_def)

lemma sendAll_sel [simp]:
  "mData (sendAll ev cs m) = mData m" "nextRev (sendAll ev cs m) = nextRev m"
  "watchers (sendAll ev cs m) = watchers m" "length (chans (sendAll ev cs m)) = length (chans m)"
  by (induction cs arbitrary: m) (simp_all add: sendAll_def)

lemma notify_sel [simp]:
  "mData (notify ev m) = mData m" "nextRev (notify ev m) = nextRev m"
  "watchers (notify ev m) = watchers m" "length (chans (notify ev m)) = length (chans m)"
  by (simp_all add: notify_def)

lemma mem_look_notify [simp]: "mem_look (notify ev m) = mem_look m"
  by (simp add: mem_look_def fun_eq_iff)

lemma mem_look_write [simp]: "mem_look (mem_write k v m) = (mem_look m)(k \<mapsto> (v, nextRev m + 1))"
  by (simp add: mem_look_def mem_write_def fun_eq_iff)

lemma mem_inv_notify [simp]: "mem_inv (notify ev m) = mem_inv m"
  by (simp add: mem_inv_def)

lemma mem_inv_write: "mem_inv m \<Longrightarrow> mem_inv (mem_write k v m)"
  by (fastforce simp: mem_inv_def mem_write_def set_mput)

lemma mem_inv_New [simp]: "mem_inv NewMemStore"
  by (simp add: mem_inv_def NewMemStore_def)

lemma mem_look_New [simp]: "mem_look NewMemStore k = None"
  by (simp add: mem_look_def NewMemStore_def)

lemma mem_inv_range: "mem_inv m \<Longrightarrow> mem_look m k = Some (v, r) \<Longrightarrow> 0 < r \<and> r \<le> nextRev m"
  by (auto simp: mem_look_def mem_inv_def dest!: map_of_SomeD)

lemma mem_CAS_cases:
  "mem_CAS k e v m =
    (if (case mem_look m k of None \<Rightarrow> 0 | Some (v, r) \<Rightarrow> r) = e
     then (Inr (nextRev m + 1, True), notify \<lparr>eKey = k, eValue = v, eDeleted = False\<rparr> (mem_write k v m))
     else (Inr (case mem_look m k of None \<Rightarrow> 0 | Some (v, r) \<Rightarrow> r, False), m))"
  by (auto simp: mem_CAS_def mem_look_def mem_write_def Let_def split: option.splits)

interpretation mem: fenced_store mem_ops mem_inv mem_look nextRev
proof (unfold_locales, goal_cases)
  case (1 s k)
  then show ?case by (simp add: mem_ops_def mem_Get_def mem_look_def split: option.splits)
next
  case (2 s k)
  then show ?case by (simp add: mem_ops_def mem_Revision_def mem_look_def split: option.splits)
next
  case (3 s k v r)
  then show ?case by (rule mem_inv_range)
next
  case (4 s)
  then show ?case by (simp add: mem_inv_def)
next
  case (5 s k e v)
  then show ?case by (simp add: mem_ops_def mem_CAS_cases)
next
  case (6 s k e v)
  then show ?case by (simp add: mem_ops_def mem_CAS_cases mem_inv_write) (simp add: mem_write_def)
qed

lemma mget_map_values: "mget (map (\<lambda>(k, e). (k, f e)) m) k = map_option f (mget m k)"
  by (induction m) auto

lemma mem_List_look:
  "mem_inv m \<Longrightarrow> \<exists>kvs. mem_List pre m = Inr kvs \<and> mwf kvs
    \<and> mget kvs = (\<lambda>k. if prefix pre k then map_option fst (mem_look m k) else None)"
  by (simp add: mem_List_def mget_map_values mget_filter_keys mem_look_def mem_inv_def fun_eq_iff option.map_comp comp_def
      case_prod_beta)

interpretation mem: kv_store mem_ops mem_inv mem_look nextRev
proof (unfold_locales, goal_cases)
  case (1 s v k)
  then show ?case by (simp add: mem_ops_def mem_Put_def mem_inv_write) (simp add: mem_write_def)
next
  case (2 s pre)
  then show ?case using mem_List_look [of s pre] by (simp add: mem_ops_def)
qed

section \<open>Watch channels\<close>

text \<open>Every registered channel exists, is open and is registered once.\<close>

definition watch_inv :: "MemStore \<Rightarrow> bool" where
  "watch_inv m \<longleftrightarrow> mwf (watchers m) \<and> distinct (concat (map snd (watchers m)))
     \<and> (\<forall>c \<in> set (concat (map snd (watchers m))). c < length (chans m) \<and> \<not> chClosed (chans m ! c))"

definition pushed :: "Event \<Rightarrow> chan \<Rightarrow> chan" where
  "pushed ev ch = (if length (queue ch) < chanCap then ch\<lparr>queue := queue ch @ [ev]\<rparr> else ch)"

lemma trySend_open:
  "c < length (chans m) \<Longrightarrow> \<not> chClosed (chans m ! c) \<Longrightarrow>
   trySend ev c m = m\<lparr>chans := (chans m)[c := pushed ev (chans m ! c)]\<rparr>"
  by (simp add: trySend_def pushed_def)

lemma chClosed_pushed [simp]: "chClosed (pushed ev ch) = chClosed ch"
  by (simp add: pushed_def)

lemma sendAll_open:
  "distinct cs \<Longrightarrow> (\<And>c. c \<in> set cs \<Longrightarrow> c < length (chans m) \<and> \<not> chClosed (chans m ! c)) \<Longrightarrow>
   panicked (sendAll ev cs m) = panicked m \<and>
   (\<forall>i < length (chans m). chans (sendAll ev cs m) ! i = (if i \<in> set cs then pushed ev (chans m ! i) else chans m ! i))"
proof (induction cs arbitrary: m)
  case Nil
  then show ?case by (simp add: sendAll_def)
next
  case (Cons c cs)
  let ?m = "m\<lparr>chans := (chans m)[c := pushed ev (chans m ! c)]\<rparr>"
  have c: "c < length (chans m)" "\<not> chClosed (chans m ! c)" using Cons.prems(2) by auto
  have "sendAll ev (c # cs) m = sendAll ev cs ?m"
    by (simp add: sendAll_def trySend_open [OF c])
  moreover have "\<And>d. d \<in> set cs \<Longrightarrow> d < length (chans ?m) \<and> \<not> chClosed (chans ?m ! d)"
    using Cons.prems by (auto simp: nth_list_update)
  ultimately show ?case using Cons.IH [of ?m] Cons.prems(1) c(1) by (auto simp: nth_list_update)
qed

lemma distinct_concat_filter: "distinct (concat (map f xs)) \<Longrightarrow> distinct (concat (map f (filter P xs)))"
  by (induction xs) auto

lemma toNotify_ok:
  assumes "watch_inv m"
  shows "distinct (toNotify key m)"
    and "c \<in> set (toNotify key m) \<Longrightarrow> c < length (chans m) \<and> \<not> chClosed (chans m ! c)"
  using assms by (auto simp: watch_inv_def toNotify_def distinct_concat_filter)

lemma notify_open:
  assumes "watch_inv m"
  shows "panicked (notify ev m) = panicked m"
    and "i < length (chans m) \<Longrightarrow> chans (notify ev m) ! i =
      (if i \<in> set (toNotify (eKey ev) m) then pushed ev (chans m ! i) else chans m ! i)"
  using sendAll_open [OF toNotify_ok(1) [OF assms, of "eKey ev"] toNotify_ok(2) [OF assms, of _ "eKey ev"], of ev]
  by (simp_all add: notify_def)

lemma watch_inv_notify: "watch_inv m \<Longrightarrow> watch_inv (notify ev m)"
  using notify_open(2) [of m _ ev] by (auto simp: watch_inv_def)

lemma watch_inv_write [simp]: "watch_inv (mem_write k v m) = watch_inv m"
  by (simp add: watch_inv_def mem_write_def)

lemma mem_write_sel [simp]:
  "chans (mem_write k v m) = chans m" "panicked (mem_write k v m) = panicked m" "watchers (mem_write k v m) = watchers m"
  by (simp_all add: mem_write_def)

lemma toNotify_write [simp]: "toNotify key (mem_write k v m) = toNotify key m"
  by (simp add: toNotify_def)

lemma mset_concat_mput:
  "mset (concat (map snd (mput k new m))) + mset (case mget m k of None \<Rightarrow> [] | Some old \<Rightarrow> old)
     = mset (concat (map snd m)) + mset new"
  by (induction m) (auto split: option.splits simp: ac_simps)

lemma watch_inv_Watch:
  assumes "watch_inv m"
  shows "watch_inv (snd (mem_Watch pre m))"
proof -
  let ?c = "length (chans m)" and ?old = "case mget (watchers m) pre of None \<Rightarrow> [] | Some cs \<Rightarrow> cs"
  have "mset (concat (map snd (mput pre (?old @ [?c]) (watchers m)))) = mset (?c # concat (map snd (watchers m)))"
    using mset_concat_mput [of pre "?old @ [?c]" "watchers m"] by simp
  note perm = this mset_eq_setD [OF this] mset_eq_imp_distinct_iff [OF this]
  have "?c \<notin> set (concat (map snd (watchers m)))" using assms unfolding watch_inv_def by blast
  then have "distinct (concat (map snd (mput pre (?old @ [?c]) (watchers m))))"
    using assms perm(3) by (simp add: watch_inv_def)
  moreover have "x < Suc ?c \<and> \<not> chClosed ((chans m @ [\<lparr>queue = [], chClosed = False\<rparr>]) ! x)"
    if "x \<in> set (concat (map snd (mput pre (?old @ [?c]) (watchers m))))" for x
  proof -
    have "x = ?c \<or> x \<in> set (concat (map snd (watchers m)))" using that unfolding perm(2) by simp
    then have "x = ?c \<or> x < ?c \<and> \<not> chClosed (chans m ! x)" using assms unfolding watch_inv_def by blast
    then show ?thesis by (auto simp: nth_append)
  qed
  ultimately show ?thesis
    using assms unfolding watch_inv_def mem_Watch_def Let_def by simp
qed

lemma watch_inv_cancel:
  assumes "watch_inv m" "mget (watchers m) pre = Some cs" "c \<in> set cs"
  shows "watch_inv (mem_cancel pre c m)"
proof -
  let ?all = "concat (map snd (watchers m))"
  have "(pre, cs) \<in> set (watchers m)" using assms(2) by (rule map_of_SomeD)
  then have mem: "c \<in> set ?all" using assms(3) by force
  obtain X where X: "mset cs = add_mset c X" using assms(3) by (metis multi_member_split set_mset_mset)
  then have "add_mset c (mset (concat (map snd (mput pre (remove1 c cs) (watchers m))))) = mset ?all"
    using mset_concat_mput [of pre "remove1 c cs" "watchers m"] assms(2) by simp
  then have "mset (concat (map snd (mput pre (remove1 c cs) (watchers m)))) = mset (remove1 c ?all)"
    by (metis add_mset_remove_trivial mset_remove1)
  note perm = mset_eq_setD [OF this] mset_eq_imp_distinct_iff [OF this]
  have "distinct ?all" using assms(1) by (simp add: watch_inv_def)
  then have "distinct (remove1 c ?all)" "set (remove1 c ?all) = set ?all - {c}" by simp_all
  then show ?thesis
    using assms perm unfolding watch_inv_def mem_cancel_def Let_def by simp blast
qed

text \<open> Watchers see writes: when a write to a key runs without interference, every channel watching a
  prefix of the key gets the event at the end of its queue, exactly once, unless sixteen events are
  already waiting in it (then this event is dropped for that channel); every other channel keeps its
  queue, and nothing panics.
\<close>

theorem put_notifies_watchers:
  assumes "watch_inv m" "c < length (chans m)" "mem_Put key v m = (err, m')"
  shows "chans m' ! c = (if c \<in> set (toNotify key m) \<and> length (queue (chans m ! c)) < chanCap
      then (chans m ! c)\<lparr>queue := queue (chans m ! c) @ [\<lparr>eKey = key, eValue = v, eDeleted = False\<rparr>]\<rparr>
      else chans m ! c)
    \<and> panicked m' = panicked m \<and> watch_inv m' \<and> err = None"
proof -
  let ?ev = "\<lparr>eKey = key, eValue = v, eDeleted = False\<rparr>" and ?w = "mem_write key v m"
  have m': "m' = notify ?ev ?w" "err = None" using assms(3) by (auto simp: mem_Put_def)
  have inv: "watch_inv ?w" using assms(1) by simp
  show ?thesis
    using notify_open(1) [OF inv, of ?ev] notify_open(2) [OF inv, of c ?ev] watch_inv_notify [OF inv, of ?ev] assms(2)
    by (simp add: m' pushed_def)
qed

theorem put_notifies_watchers_witness:
  "let m = snd (mem_Watch ''/a'' NewMemStore) in
   let m' = snd (mem_Put ''/a/b'' RawNil m) in
   chans m' ! 0 = (if 0 \<in> set (toNotify ''/a/b'' m) \<and> length (queue (chans m ! 0)) < chanCap
      then (chans m ! 0)\<lparr>queue := queue (chans m ! 0) @ [\<lparr>eKey = ''/a/b'', eValue = RawNil, eDeleted = False\<rparr>]\<rparr>
      else chans m ! 0)
    \<and> panicked m' = panicked m \<and> watch_inv m' \<and> (None :: storeErr option) = None"
  unfolding Let_def
  by (rule put_notifies_watchers) (simp_all add: mem_Watch_def NewMemStore_def watch_inv_def mem_Put_def)

text \<open>
  (C29) A cancelled watch can crash the writer: \<^verbatim>\<open>notify\<close> sends after releasing the lock, so if a
  watch is cancelled (its channel unregistered and closed) between the moment a write collected the
  channels and the moment it sends, the send hits a closed channel and panics.
\<close>

theorem cancel_during_notify_panics:
  assumes "watch_inv m" "c \<in> set (toNotify (eKey ev) m)"
  shows "panicked (sendAll ev (toNotify (eKey ev) m) (mem_cancel pre c m))"
proof -
  have c: "c < length (chans m)" using toNotify_ok(2) [OF assms] by simp
  have "chClosed (chans (mem_cancel pre c m) ! c)" "c < length (chans (mem_cancel pre c m))"
    using c by (simp_all add: mem_cancel_def Let_def)
  moreover have "panicked (sendAll ev cs m2)"
    if "c \<in> set cs" "chClosed (chans m2 ! c)" "c < length (chans m2)" for cs m2
    using that
  proof (induction cs arbitrary: m2)
    case (Cons d cs)
    have keep: "panicked m3 \<Longrightarrow> panicked (sendAll ev cs m3)" for m3
      by (induction cs arbitrary: m3) (simp_all add: sendAll_def trySend_def)
    show ?case
    proof (cases "d = c")
      case True
      then show ?thesis using Cons.prems keep by (simp add: sendAll_def trySend_def)
    next
      case False
      then have "chClosed (chans (trySend ev d m2) ! c)" "c < length (chans (trySend ev d m2))"
        using Cons.prems by (simp_all add: trySend_def)
      with Cons False show ?thesis by (simp add: sendAll_def)
    qed
  qed simp
  ultimately show ?thesis using assms(2) by blast
qed

theorem cancel_during_notify_panics_witness:
  "let m = snd (mem_Watch ''/a'' NewMemStore); ev = \<lparr>eKey = ''/a/b'', eValue = RawNil, eDeleted = False\<rparr>
   in panicked (sendAll ev (toNotify (eKey ev) m) (mem_cancel ''/a'' 0 m))"
  unfolding Let_def
  by (rule cancel_during_notify_panics) (simp_all add: mem_Watch_def NewMemStore_def watch_inv_def toNotify_def)

end
