(* ===== verification/Ownership.thy ===== *)
theory Ownership
  imports Store
begin

text \<open>
  \<^verbatim>\<open>internal/control/ownership.go\<close> and \<^verbatim>\<open>ownership_service.go\<close>: who serves a session, and the rule that
  a record only replaces one of a lower epoch. \<^verbatim>\<open>SetIfNewer\<close> makes several store calls with nothing
  held between them, so it is given step by step (\<open>sin_step\<close>, one store call per step); \<open>SetIfNewer\<close>
  runs one caller alone, and \<open>sys_step\<close> interleaves any number of callers. The facts are proved
  once for every store that keeps the \<open>fenced_store\<close> contract and then used for \<^verbatim>\<open>MemStore\<close>.
\<close>

section \<open>Records\<close>

record OwnershipRecord =
  oSession :: string
  oAccess :: string
  oEgress :: string
  oEpoch :: u64

datatype ownErr = EmptySession | EmptyAccess | EmptyEgress | DecodeErr jsonErr | OwnStore storeErr | Unfinished

definition Validate :: "OwnershipRecord \<Rightarrow> ownErr option" where
  "Validate r =
     (if oSession r = [] then Some EmptySession
      else if oAccess r = [] then Some EmptyAccess
      else if oEgress r = [] then Some EmptyEgress
      else None)"

definition NextEpoch :: "string \<Rightarrow> OwnershipRecord \<Rightarrow> OwnershipRecord" where
  "NextEpoch newEgress r = r\<lparr>oEgress := newEgress, oEpoch := oEpoch r + 1\<rparr>"

definition NextAccessEpoch :: "string \<Rightarrow> OwnershipRecord \<Rightarrow> OwnershipRecord" where
  "NextAccessEpoch newAccess r = r\<lparr>oAccess := newAccess, oEpoch := oEpoch r + 1\<rparr>"

definition Newer :: "OwnershipRecord \<Rightarrow> OwnershipRecord \<Rightarrow> bool" where
  "Newer r existing \<longleftrightarrow> oEpoch r > oEpoch existing"

definition sessionKeyPrefix :: string where
  "sessionKeyPrefix = ''/egressa/session/''"

definition SessionKey :: "string \<Rightarrow> string" where
  "SessionKey sessionID = sessionKeyPrefix @ sessionID"

definition MarshalOwnership :: "OwnershipRecord \<Rightarrow> ownErr + raw" where
  "MarshalOwnership r = (case Validate r of
     Some e \<Rightarrow> Inl e
   | None \<Rightarrow> Inr (RawJson (JObj [(''session'', JStr (oSession r)), (''access'', JStr (oAccess r)),
       (''egress'', JStr (oEgress r)), (''epoch'', JInt (uint (oEpoch r)))])))"

definition Ownership_fields :: "(string \<times> json) list \<Rightarrow> jsonErr + OwnershipRecord" where
  "Ownership_fields kvs =
     (case field read_str [] ''session'' kvs of Inl e \<Rightarrow> Inl e | Inr s \<Rightarrow>
      case field read_str [] ''access'' kvs of Inl e \<Rightarrow> Inl e | Inr a \<Rightarrow>
      case field read_str [] ''egress'' kvs of Inl e \<Rightarrow> Inl e | Inr g \<Rightarrow>
      case field read_uint 0 ''epoch'' kvs of Inl e \<Rightarrow> Inl e | Inr ep \<Rightarrow>
      Inr \<lparr>oSession = s, oAccess = a, oEgress = g, oEpoch = ep\<rparr>)"

definition UnmarshalOwnership :: "raw \<Rightarrow> ownErr + OwnershipRecord" where
  "UnmarshalOwnership data =
     (case Unmarshal Ownership_fields data of
        Inl e \<Rightarrow> Inl (DecodeErr e)
      | Inr r \<Rightarrow> (case Validate r of Some e \<Rightarrow> Inl e | None \<Rightarrow> Inr r))"

section \<open>The service\<close>

definition OS_Get :: "'s kvops \<Rightarrow> string \<Rightarrow> 's \<Rightarrow> ownErr + OwnershipRecord option" where
  "OS_Get ops sessionID s =
     (case kGet ops (SessionKey sessionID) s of
        Inl e \<Rightarrow> Inl (OwnStore e)
      | Inr None \<Rightarrow> Inr None
      | Inr (Some data) \<Rightarrow> (case UnmarshalOwnership data of Inl e \<Rightarrow> Inl e | Inr rec \<Rightarrow> Inr (Some rec)))"

fun decode_all :: "raw list \<Rightarrow> ownErr + OwnershipRecord list" where
  "decode_all [] = Inr []"
| "decode_all (d # ds) =
     (case UnmarshalOwnership d of Inl e \<Rightarrow> Inl e
      | Inr rec \<Rightarrow> (case decode_all ds of Inl e \<Rightarrow> Inl e | Inr recs \<Rightarrow> Inr (rec # recs)))"

definition OS_List :: "'s kvops \<Rightarrow> 's \<Rightarrow> ownErr + OwnershipRecord list" where
  "OS_List ops s =
     (case kList ops sessionKeyPrefix s of
        Inl e \<Rightarrow> Inl (OwnStore e)
      | Inr kvs \<Rightarrow> decode_all (map snd kvs))"

text \<open>The goroutine of \<^verbatim>\<open>Watch\<close>: which records it forwards of a sequence of events.\<close>

definition OS_Watch :: "Event list \<Rightarrow> OwnershipRecord list" where
  "OS_Watch evs = List.map_filter (\<lambda>ev.
     if eDeleted ev then None
     else case UnmarshalOwnership (eValue ev) of Inl _ \<Rightarrow> None | Inr rec \<Rightarrow> Some rec) evs"

text \<open>
  Where a caller of \<^verbatim>\<open>SetIfNewer\<close> stands in the loop: about to ask for the revision, about to read the
  value (holding a revision), about to swap (holding what it expects), or returned.
\<close>

datatype pc = PRevision | PGet int | PSwap "int option" | PDone "ownErr + bool"

definition sin_step :: "'s kvops \<Rightarrow> OwnershipRecord \<Rightarrow> pc \<Rightarrow> 's \<Rightarrow> pc \<times> 's" where
  "sin_step ops rec pc s = (case pc of
     PRevision \<Rightarrow>
       (case kRevision ops (SessionKey (oSession rec)) s of
          Inl e \<Rightarrow> (PDone (Inl (OwnStore e)), s)
        | Inr None \<Rightarrow> (PSwap None, s)
        | Inr (Some rv) \<Rightarrow> (PGet rv, s))
   | PGet rv \<Rightarrow>
       (case kGet ops (SessionKey (oSession rec)) s of
          Inl e \<Rightarrow> (PDone (Inl (OwnStore e)), s)
        | Inr d \<Rightarrow>
            (case UnmarshalOwnership (case d of None \<Rightarrow> RawNil | Some v \<Rightarrow> v) of
               Inl e \<Rightarrow> (PDone (Inl e), s)
             | Inr current \<Rightarrow> if \<not> Newer rec current then (PDone (Inr False), s) else (PSwap (Some rv), s)))
   | PSwap found \<Rightarrow>
       (case MarshalOwnership rec of
          Inl e \<Rightarrow> (PDone (Inl e), s)
        | Inr data \<Rightarrow>
            (case kCAS ops (SessionKey (oSession rec)) (case found of None \<Rightarrow> 0 | Some rv \<Rightarrow> rv) data s of
               (Inl e, s') \<Rightarrow> (PDone (Inl (OwnStore e)), s')
             | (Inr (_, True), s') \<Rightarrow> (PDone (Inr True), s')
             | (Inr (_, False), s') \<Rightarrow> (PRevision, s')))
   | PDone r \<Rightarrow> (PDone r, s))"

fun sin_loop :: "nat \<Rightarrow> 's kvops \<Rightarrow> OwnershipRecord \<Rightarrow> pc \<Rightarrow> 's \<Rightarrow> (ownErr + bool) \<times> 's" where
  "sin_loop n ops rec (PDone r) s = (r, s)"
| "sin_loop 0 ops rec pc s = (Inl Unfinished, s)"
| "sin_loop (Suc n) ops rec pc s = (let (pc', s') = sin_step ops rec pc s in sin_loop n ops rec pc' s')"

text \<open>
  One caller on a store with a \<^verbatim>\<open>Fencer\<close>, nobody else writing: three store calls are enough
  (\<open>SetIfNewer_spec\<close> below shows that the budget never runs out).
\<close>

definition SetIfNewer :: "'s kvops \<Rightarrow> OwnershipRecord \<Rightarrow> 's \<Rightarrow> (ownErr + bool) \<times> 's" where
  "SetIfNewer ops rec s =
     (case Validate rec of Some e \<Rightarrow> (Inl e, s) | None \<Rightarrow> sin_loop 3 ops rec PRevision s)"

text \<open>The branch for a store without revisions.\<close>

definition SetIfNewer_unfenced :: "'s kvops \<Rightarrow> OwnershipRecord \<Rightarrow> 's \<Rightarrow> (ownErr + bool) \<times> 's" where
  "SetIfNewer_unfenced ops rec s =
     (case Validate rec of Some e \<Rightarrow> (Inl e, s) | None \<Rightarrow>
      case OS_Get ops (oSession rec) s of
        Inl e \<Rightarrow> (Inl e, s)
      | Inr found \<Rightarrow>
          if (case found of None \<Rightarrow> False | Some current \<Rightarrow> \<not> Newer rec current) then (Inr False, s)
          else (case MarshalOwnership rec of
                  Inl e \<Rightarrow> (Inl e, s)
                | Inr data \<Rightarrow>
                    (case kPut ops (SessionKey (oSession rec)) data s of
                       (Some e, s') \<Rightarrow> (Inl (OwnStore e), s')
                     | (None, s') \<Rightarrow> (Inr True, s'))))"

section \<open>Concurrent callers\<close>

text \<open>
  A configuration: the store, every call made so far with where it stands, and the records applied,
  in order. A new call may start at any time; any unfinished call may make its next store call.
\<close>

type_synonym 's sys = "'s \<times> (OwnershipRecord \<times> pc) list \<times> OwnershipRecord list"

inductive sys_step :: "'s kvops \<Rightarrow> 's sys \<Rightarrow> 's sys \<Rightarrow> bool" for ops where
  Call: "Validate rec = None \<Longrightarrow> sys_step ops (s, ps, h) (s, ps @ [(rec, PRevision)], h)"
| Step: "i < length ps \<Longrightarrow> ps ! i = (rec, pc) \<Longrightarrow> (\<forall>r. pc \<noteq> PDone r) \<Longrightarrow> sin_step ops rec pc s = (pc', s') \<Longrightarrow>
    sys_step ops (s, ps, h) (s', ps[i := (rec, pc')], if pc' = PDone (Inr True) then h @ [rec] else h)"

inductive_cases sys_stepE: "sys_step ops (s, ps, h) c'"

section \<open>Codec\<close>

lemma SessionKey_inject [simp]: "SessionKey a = SessionKey b \<longleftrightarrow> a = b"
  by (simp add: SessionKey_def)

lemma Unmarshal_Marshal [simp]: "MarshalOwnership r = Inr d \<Longrightarrow> UnmarshalOwnership d = Inr r"
  by (cases r) (auto simp: MarshalOwnership_def UnmarshalOwnership_def Ownership_fields_def field_def field_step_def
      key_match_def fold_char_def split: option.splits)

lemma Marshal_valid: "Validate r = None \<Longrightarrow> \<exists>d. MarshalOwnership r = Inr d"
  by (simp add: MarshalOwnership_def)

lemma Marshal_not_bad: "MarshalOwnership r = Inr d \<Longrightarrow> d \<noteq> RawBad"
  by (auto simp: MarshalOwnership_def split: option.splits)

lemma Unmarshal_valid: "UnmarshalOwnership d = Inr r \<Longrightarrow> Validate r = None"
  by (auto simp: UnmarshalOwnership_def split: sum.splits option.splits)

section \<open>Any fenced store\<close>

definition sessions_ok :: "(string \<Rightarrow> (raw \<times> int) option) \<Rightarrow> bool" where
  "sessions_ok lk \<longleftrightarrow> (\<forall>sid v r. lk (SessionKey sid) = Some (v, r) \<longrightarrow> (\<exists>c. UnmarshalOwnership v = Inr c \<and> oSession c = sid))"

text \<open>
  A session's stored record, and the invariants: every stored session record decodes and names its
  own session; a caller about to swap against revision \<open>r\<close> has seen that its record is newer than
  whatever revision \<open>r\<close> holds.
\<close>

context fenced_store
begin

abbreviation stored_ok :: "'s \<Rightarrow> bool" where
  "stored_ok s \<equiv> sessions_ok (look s)"

definition pc_ok :: "'s \<Rightarrow> OwnershipRecord \<Rightarrow> pc \<Rightarrow> bool" where
  "pc_ok s rec pc \<longleftrightarrow> (case pc of
     PGet r \<Rightarrow> 0 < r \<and> r \<le> clock s
   | PSwap (Some r) \<Rightarrow> 0 < r \<and> r \<le> clock s
       \<and> (\<forall>v c. look s (SessionKey (oSession rec)) = Some (v, r) \<longrightarrow> UnmarshalOwnership v = Inr c \<longrightarrow> Newer rec c)
   | _ \<Rightarrow> True)"

definition hist_ok :: "'s \<Rightarrow> OwnershipRecord list \<Rightarrow> bool" where
  "hist_ok s h \<longleftrightarrow> sorted_wrt (\<lambda>a b. oSession a = oSession b \<longrightarrow> oEpoch a < oEpoch b) h
     \<and> (\<forall>x \<in> set h. \<exists>v r c. look s (SessionKey (oSession x)) = Some (v, r) \<and> UnmarshalOwnership v = Inr c \<and> oEpoch x \<le> oEpoch c)"

definition sys_inv :: "'s sys \<Rightarrow> bool" where
  "sys_inv cfg = (case cfg of (s, ps, h) \<Rightarrow> sinv s \<and> stored_ok s \<and> (\<forall>(rec, pc) \<in> set ps. Validate rec = None \<and> pc_ok s rec pc) \<and> hist_ok s h)"

lemma pc_ok_simps [simp]: "pc_ok s rec PRevision" "pc_ok s rec (PDone r)"
  by (simp_all add: pc_ok_def)

lemma OS_Get_look:
  "sinv s \<Longrightarrow> stored_ok s \<Longrightarrow> OS_Get ops sid s = Inr (case look s (SessionKey sid) of None \<Rightarrow> None
     | Some (v, r) \<Rightarrow> (case UnmarshalOwnership v of Inl _ \<Rightarrow> None | Inr c \<Rightarrow> Some c))"
  by (fastforce simp: OS_Get_def Get sessions_ok_def split: option.splits sum.splits)

text \<open>The only step that changes the store is a successful swap; this is what it does.\<close>

lemma swap_step:
  assumes "sinv s" "Validate rec = None" "sin_step ops rec (PSwap found) s = (pc', s')"
  obtains (lost) "pc' = PRevision" "s' = s" "(case look s (SessionKey (oSession rec)) of None \<Rightarrow> 0 | Some (v, r) \<Rightarrow> r) \<noteq> (case found of None \<Rightarrow> 0 | Some r \<Rightarrow> r)"
  | (won) d r' where "pc' = PDone (Inr True)" "MarshalOwnership rec = Inr d" "sinv s'" "clock s < r'" "clock s' = r'"
      "look s' = (look s)(SessionKey (oSession rec) \<mapsto> (d, r'))"
      "(case look s (SessionKey (oSession rec)) of None \<Rightarrow> 0 | Some (v, r) \<Rightarrow> r) = (case found of None \<Rightarrow> 0 | Some r \<Rightarrow> r)"
proof -
  let ?k = "SessionKey (oSession rec)" and ?e = "case found of None \<Rightarrow> 0 | Some r \<Rightarrow> r"
  obtain d where d: "MarshalOwnership rec = Inr d" using Marshal_valid [OF assms(2)] by blast
  show thesis
  proof (cases "(case look s ?k of None \<Rightarrow> 0 | Some (v, r) \<Rightarrow> r) = ?e")
    case True
    obtain s2 r' where "kCAS ops ?k ?e d s = (Inr (r', True), s2)" "sinv s2" "clock s < r'" "clock s2 = r'"
      "look s2 = (look s)(?k \<mapsto> (d, r'))"
      using CAS_ok [OF assms(1) True Marshal_not_bad [OF d]] by blast
    then show thesis using assms(3) d True by (intro won [of d r']) (auto simp: sin_step_def)
  next
    case False
    obtain cur where "kCAS ops ?k ?e d s = (Inr (cur, False), s)" using CAS_fail [OF assms(1) False] by blast
    then show thesis using assms(3) d False by (intro lost) (auto simp: sin_step_def)
  qed
qed

lemma read_step:
  assumes "sinv s" "stored_ok s" "pc = PRevision \<or> (\<exists>r. pc = PGet r)" "pc_ok s rec pc" "sin_step ops rec pc s = (pc', s')"
  shows "s' = s \<and> pc' \<noteq> PDone (Inr True) \<and> pc_ok s rec pc'"
proof (cases pc)
  case PRevision
  then show ?thesis
    using assms(5) rev_range [OF assms(1), of "SessionKey (oSession rec)"]
    by (auto simp: sin_step_def Revision [OF assms(1)] pc_ok_def split: option.splits)
next
  case (PGet r)
  then show ?thesis
    using assms(4,5) by (auto simp: sin_step_def Get [OF assms(1)] pc_ok_def split: option.splits sum.splits if_splits)
qed (use assms(3) in auto)

text \<open>A write by one caller leaves every other caller's knowledge true, because its revision is fresh.\<close>

lemma pc_ok_write:
  assumes "pc_ok s rec pc" "clock s < r'" "clock s' = r'" "look s' = (look s)(k \<mapsto> (d, r'))"
  shows "pc_ok s' rec pc"
  using assms by (auto simp: pc_ok_def split: pc.splits option.splits if_splits)

lemma stored_ok_write:
  "stored_ok s \<Longrightarrow> MarshalOwnership rec = Inr d \<Longrightarrow> look s' = (look s)(SessionKey (oSession rec) \<mapsto> (d, r')) \<Longrightarrow> stored_ok s'"
  by (auto simp: sessions_ok_def)

lemma winner_newer:
  assumes "sinv s" "stored_ok s" "pc_ok s rec (PSwap found)"
    and "(case look s (SessionKey (oSession rec)) of None \<Rightarrow> 0 | Some (v, r) \<Rightarrow> r) = (case found of None \<Rightarrow> 0 | Some r \<Rightarrow> r)"
    and "look s (SessionKey (oSession rec)) = Some (v, r)" "UnmarshalOwnership v = Inr c"
  shows "oEpoch c < oEpoch rec"
  using assms rev_range [OF assms(1,5)] by (auto simp: pc_ok_def Newer_def split: option.splits)

lemma hist_ok_write:
  assumes "hist_ok s h" "MarshalOwnership rec = Inr d" "look s' = (look s)(SessionKey (oSession rec) \<mapsto> (d, r'))"
    and newer: "\<And>v r c. look s (SessionKey (oSession rec)) = Some (v, r) \<Longrightarrow> UnmarshalOwnership v = Inr c \<Longrightarrow> oEpoch c < oEpoch rec"
  shows "hist_ok s' (h @ [rec])"
proof -
  have old: "\<exists>v r c. look s (SessionKey (oSession x)) = Some (v, r) \<and> UnmarshalOwnership v = Inr c \<and> oEpoch x \<le> oEpoch c"
    if "x \<in> set h" for x using assms(1) that by (simp add: hist_ok_def)
  have less: "oEpoch x < oEpoch rec" if x: "x \<in> set h" "oSession x = oSession rec" for x
  proof -
    obtain v r c where c: "look s (SessionKey (oSession rec)) = Some (v, r)" "UnmarshalOwnership v = Inr c" "oEpoch x \<le> oEpoch c"
      using old [OF x(1)] unfolding x(2) by blast
    with newer [OF c(1,2)] show ?thesis by simp
  qed
  have "\<exists>v r c. look s' (SessionKey (oSession x)) = Some (v, r) \<and> UnmarshalOwnership v = Inr c \<and> oEpoch x \<le> oEpoch c"
    if "x \<in> set (h @ [rec])" for x
  proof (cases "oSession x = oSession rec")
    case True
    then have "oEpoch x \<le> oEpoch rec" using that less [of x] by force
    with True show ?thesis using assms(2,3) by simp
  next
    case False
    then show ?thesis using that old [of x] assms(3) by auto
  qed
  moreover have "sorted_wrt (\<lambda>a b. oSession a = oSession b \<longrightarrow> oEpoch a < oEpoch b) (h @ [rec])"
    using assms(1) less by (simp add: hist_ok_def sorted_wrt_append)
  ultimately show ?thesis by (simp only: hist_ok_def) blast
qed

lemma sys_inv_step:
  assumes inv: "sys_inv (s, ps, h)" and step: "sys_step ops (s, ps, h) cfg"
  shows "sys_inv cfg"
  using step
proof cases
  case (Call rec)
  then show ?thesis using inv by (auto simp: sys_inv_def)
next
  case (Step i rec pc pc' s')
  have s: "sinv s" "stored_ok s" "hist_ok s h" and ps: "\<And>rec pc. (rec, pc) \<in> set ps \<Longrightarrow> Validate rec = None \<and> pc_ok s rec pc"
    using inv by (auto simp: sys_inv_def)
  have rec: "Validate rec = None" "pc_ok s rec pc" using ps Step(2,3) nth_mem by metis+
  have upd: "(rec2, pc2) \<in> set (ps[i := (rec, pc')]) \<Longrightarrow> (rec2, pc2) = (rec, pc') \<or> (rec2, pc2) \<in> set ps" for rec2 pc2
    using set_update_subset_insert [of ps i "(rec, pc')"] by auto
  have all: "\<forall>(rec2, pc2) \<in> set (ps[i := (rec, pc')]). Validate rec2 = None \<and> pc_ok s2 rec2 pc2"
    if "pc_ok s2 rec pc'" "\<And>rec2 pc2. (rec2, pc2) \<in> set ps \<Longrightarrow> pc_ok s2 rec2 pc2" for s2
    using that upd ps rec(1) by blast
  show ?thesis
  proof (cases "pc = PRevision \<or> (\<exists>r. pc = PGet r)")
    case True
    have "s' = s \<and> pc' \<noteq> PDone (Inr True) \<and> pc_ok s rec pc'"
      by (rule read_step [OF s(1,2) True rec(2) Step(5)])
    then show ?thesis using Step(1) s all [of s] ps by (simp add: sys_inv_def)
  next
    case False
    then obtain found where pc: "pc = PSwap found" using Step(4) by (cases pc) auto
    have "sin_step ops rec (PSwap found) s = (pc', s')" using Step(5) pc by simp
    with s(1) rec(1) show ?thesis
    proof (cases rule: swap_step)
      case lost
      then show ?thesis using Step(1) s all [of s] ps by (simp add: sys_inv_def)
    next
      case (won d r')
      have newer: "oEpoch c < oEpoch rec" if "look s (SessionKey (oSession rec)) = Some (v, r)" "UnmarshalOwnership v = Inr c" for v r c
        using winner_newer [OF s(1,2) _ won(7) that] rec(2) pc by simp
      have "pc_ok s' rec2 pc2" if "(rec2, pc2) \<in> set ps" for rec2 pc2
        using pc_ok_write [OF _ won(4,5,6)] ps [OF that] by blast
      then have "\<forall>(rec2, pc2) \<in> set (ps[i := (rec, pc')]). Validate rec2 = None \<and> pc_ok s' rec2 pc2"
        using won(1) by (intro all) simp_all
      moreover have "hist_ok s' (h @ [rec])" by (rule hist_ok_write [OF s(3) won(2,6) newer])
      moreover have "stored_ok s'" by (rule stored_ok_write [OF s(2) won(2,6)])
      ultimately show ?thesis
        using Step(1) won(1,3) by (simp add: sys_inv_def)
    qed
  qed
qed

text \<open>Every session's stored record is the last one applied for it.\<close>

definition last_ok :: "'s sys \<Rightarrow> bool" where
  "last_ok cfg = (case cfg of (s, ps, h) \<Rightarrow> \<forall>sid. (case look s (SessionKey sid) of
     None \<Rightarrow> filter (\<lambda>x. oSession x = sid) h = []
   | Some (v, r) \<Rightarrow> (\<exists>xs c. filter (\<lambda>x. oSession x = sid) h = xs @ [c] \<and> UnmarshalOwnership v = Inr c)))"

lemma last_ok_step:
  assumes inv: "sys_inv (s, ps, h)" "last_ok (s, ps, h)" and step: "sys_step ops (s, ps, h) cfg"
  shows "last_ok cfg"
  using step
proof cases
  case (Call rec)
  then show ?thesis using inv by (simp add: last_ok_def)
next
  case (Step i rec pc pc' s')
  have s: "sinv s" "stored_ok s" and rec: "Validate rec = None" "pc_ok s rec pc"
    using inv(1) Step(2,3) nth_mem [OF Step(2)] by (auto simp: sys_inv_def)
  show ?thesis
  proof (cases "pc = PRevision \<or> (\<exists>r. pc = PGet r)")
    case True
    with read_step [OF s True rec(2) Step(5)] Step(1) inv(2) show ?thesis by (simp add: last_ok_def)
  next
    case False
    then obtain found where pc: "pc = PSwap found" using Step(4) by (cases pc) auto
    have "sin_step ops rec (PSwap found) s = (pc', s')" using Step(5) pc by simp
    with s(1) rec(1) show ?thesis
    proof (cases rule: swap_step)
      case lost
      then show ?thesis using Step(1) inv(2) by (simp add: last_ok_def)
    next
      case (won d r')
      have "case look s' (SessionKey sid) of
          None \<Rightarrow> filter (\<lambda>x. oSession x = sid) (h @ [rec]) = []
        | Some (v, r) \<Rightarrow> (\<exists>xs c. filter (\<lambda>x. oSession x = sid) (h @ [rec]) = xs @ [c] \<and> UnmarshalOwnership v = Inr c)" for sid
      proof (cases "sid = oSession rec")
        case True
        then show ?thesis using won(2,6) by simp
      next
        case False
        then have eqs: "filter (\<lambda>x. oSession x = sid) (h @ [rec]) = filter (\<lambda>x. oSession x = sid) h"
          "look s' (SessionKey sid) = look s (SessionKey sid)" using won(6) by auto
        show ?thesis unfolding eqs by (rule inv(2) [unfolded last_ok_def prod.case, THEN spec, of sid])
      qed
      then show ?thesis using Step(1) won(1) by (simp add: last_ok_def)
    qed
  qed
qed

lemma reach_inv:
  assumes "(sys_step ops)\<^sup>*\<^sup>* c c'" "sys_inv c" "last_ok c"
  shows "sys_inv c' \<and> last_ok c'"
  using assms
proof (induction rule: rtranclp_induct)
  case (step y z)
  obtain s ps h where "y = (s, ps, h)" by (cases y)
  with step show ?case using sys_inv_step [of s ps h z] last_ok_step [of s ps h z] by simp
qed simp

section \<open>One caller alone\<close>

lemma sin_loop_simps [simp]:
  "sin_loop (numeral k) ops rec (PGet r) s = (let (pc', s') = sin_step ops rec (PGet r) s in sin_loop (pred_numeral k) ops rec pc' s')"
  "sin_loop (numeral k) ops rec PRevision s = (let (pc', s') = sin_step ops rec PRevision s in sin_loop (pred_numeral k) ops rec pc' s')"
  "sin_loop (numeral k) ops rec (PSwap f) s = (let (pc', s') = sin_step ops rec (PSwap f) s in sin_loop (pred_numeral k) ops rec pc' s')"
  by (simp_all add: numeral_eq_Suc)

lemma SetIfNewer_seq:
  assumes "sinv s" "stored_ok s" "Validate rec = None"
  shows "(case OS_Get ops (oSession rec) s of
      Inr (Some cur) \<Rightarrow> if oEpoch rec \<le> oEpoch cur then SetIfNewer ops rec s = (Inr False, s)
          else \<exists>s'. SetIfNewer ops rec s = (Inr True, s') \<and> sinv s' \<and> stored_ok s' \<and> OS_Get ops (oSession rec) s' = Inr (Some rec)
            \<and> (\<forall>k. k \<noteq> SessionKey (oSession rec) \<longrightarrow> look s' k = look s k)
    | Inr None \<Rightarrow> \<exists>s'. SetIfNewer ops rec s = (Inr True, s') \<and> sinv s' \<and> stored_ok s' \<and> OS_Get ops (oSession rec) s' = Inr (Some rec)
            \<and> (\<forall>k. k \<noteq> SessionKey (oSession rec) \<longrightarrow> look s' k = look s k)
    | Inl _ \<Rightarrow> False)"
proof -
  let ?k = "SessionKey (oSession rec)"
  obtain d where d: "MarshalOwnership rec = Inr d" using Marshal_valid [OF assms(3)] by blast
  have swap: "\<exists>s'. sin_step ops rec (PSwap found) s = (PDone (Inr True), s') \<and> sinv s' \<and> stored_ok s' \<and> OS_Get ops (oSession rec) s' = Inr (Some rec)
      \<and> (\<forall>k. k \<noteq> ?k \<longrightarrow> look s' k = look s k)"
    if e: "(case look s ?k of None \<Rightarrow> 0 | Some (v, r) \<Rightarrow> r) = (case found of None \<Rightarrow> 0 | Some r \<Rightarrow> r)" for found
  proof -
    obtain pc' s' where st: "sin_step ops rec (PSwap found) s = (pc', s')" by fastforce
    from assms(1,3) st show ?thesis
    proof (cases rule: swap_step)
      case (won d r')
      have "stored_ok s'" by (rule stored_ok_write [OF assms(2) won(2,6)])
      then show ?thesis using won st OS_Get_look [OF won(3)] by simp
    qed (use e in simp)
  qed
  show ?thesis
  proof (cases "look s ?k")
    case None
    obtain s' where s': "sin_step ops rec (PSwap None) s = (PDone (Inr True), s')" "sinv s'" "stored_ok s'"
      "OS_Get ops (oSession rec) s' = Inr (Some rec)" "\<forall>k. k \<noteq> ?k \<longrightarrow> look s' k = look s k"
      using swap [of None] None by auto
    have "sin_step ops rec PRevision s = (PSwap None, s)" by (simp add: sin_step_def Revision [OF assms(1)] None)
    then have "SetIfNewer ops rec s = (Inr True, s')" using s'(1) by (simp add: SetIfNewer_def assms(3))
    then show ?thesis using s' None by (simp add: OS_Get_look assms)
  next
    case (Some vr)
    obtain v r where vr: "look s ?k = Some (v, r)" using Some by (cases vr) auto
    obtain cur where cur: "UnmarshalOwnership v = Inr cur" using assms(2) vr by (auto simp: sessions_ok_def)
    have rv: "sin_step ops rec PRevision s = (PGet r, s)" by (simp add: sin_step_def Revision [OF assms(1)] vr)
    have get: "sin_step ops rec (PGet r) s = (if \<not> Newer rec cur then (PDone (Inr False), s) else (PSwap (Some r), s))"
      by (simp add: sin_step_def Get [OF assms(1)] vr cur)
    obtain s' where s': "sin_step ops rec (PSwap (Some r)) s = (PDone (Inr True), s')" "sinv s'" "stored_ok s'"
      "OS_Get ops (oSession rec) s' = Inr (Some rec)" "\<forall>k. k \<noteq> ?k \<longrightarrow> look s' k = look s k"
      using swap [of "Some r"] vr by auto
    show ?thesis
    proof (cases "Newer rec cur")
      case True
      then have "SetIfNewer ops rec s = (Inr True, s')" using rv get s'(1) by (simp add: SetIfNewer_def assms(3))
      then show ?thesis using s' True vr cur by (simp add: OS_Get_look assms Newer_def)
    next
      case False
      then have "SetIfNewer ops rec s = (Inr False, s)" using rv get by (simp add: SetIfNewer_def assms(3))
      then show ?thesis using False vr cur by (simp add: OS_Get_look assms Newer_def)
    qed
  qed
qed

end

section \<open>On MemStore\<close>

lemma sessions_ok_New [simp]: "sessions_ok (mem_look NewMemStore)"
  by (simp add: sessions_ok_def)

lemma mem_initial: "mem.sys_inv (NewMemStore, [], [])" "mem.last_ok (NewMemStore, [], [])"
  by (simp_all add: mem.sys_inv_def mem.hist_ok_def mem.last_ok_def)

text \<open>
  (C1) One winner per epoch: however many callers race \<^verbatim>\<open>SetIfNewer\<close> on the in-memory store, and
  however their store calls interleave, the records applied for a session carry strictly increasing
  epochs, so no two of them ever share an epoch and none goes back; and a read returns the
  last one applied.
\<close>

theorem epochs_fenced_under_concurrency:
  assumes "(sys_step mem_ops)\<^sup>*\<^sup>* (NewMemStore, [], []) (s, ps, h)"
  shows "sorted_wrt (\<lambda>a b. oSession a = oSession b \<longrightarrow> oEpoch a < oEpoch b) h
    \<and> OS_Get mem_ops sid s = Inr (case rev (filter (\<lambda>x. oSession x = sid) h) of [] \<Rightarrow> None | c # _ \<Rightarrow> Some c)"
proof -
  have inv: "mem.sys_inv (s, ps, h)" "mem.last_ok (s, ps, h)"
    using mem.reach_inv [OF assms mem_initial] by simp_all
  have s: "mem_inv s" "sessions_ok (mem_look s)" "mem.hist_ok s h" using inv(1) by (auto simp: mem.sys_inv_def)
  have "case mem_look s (SessionKey sid) of None \<Rightarrow> filter (\<lambda>x. oSession x = sid) h = []
     | Some (v, r) \<Rightarrow> (\<exists>xs c. filter (\<lambda>x. oSession x = sid) h = xs @ [c] \<and> UnmarshalOwnership v = Inr c)"
    using inv(2) by (simp add: mem.last_ok_def)
  then have "OS_Get mem_ops sid s = Inr (case rev (filter (\<lambda>x. oSession x = sid) h) of [] \<Rightarrow> None | c # _ \<Rightarrow> Some c)"
    by (auto simp: mem.OS_Get_look [OF s(1,2)] split: option.splits)
  then show ?thesis using s(3) by (simp add: mem.hist_ok_def)
qed

definition demo_rec :: OwnershipRecord where
  "demo_rec = \<lparr>oSession = ''7'', oAccess = ''a'', oEgress = ''b'', oEpoch = 1\<rparr>"

lemma demo_reach:
  "\<exists>s ps. (sys_step mem_ops)\<^sup>*\<^sup>* (NewMemStore, [], []) (s, ps, [demo_rec])"
proof -
  let ?m = "NewMemStore"
  have "Validate demo_rec = None" by (simp add: demo_rec_def Validate_def)
  then have a: "sys_step mem_ops (?m, [], []) (?m, [(demo_rec, PRevision)], [])"
    using sys_step.Call [of demo_rec mem_ops ?m "[]" "[]"] by simp
  have "sin_step mem_ops demo_rec PRevision ?m = (PSwap None, ?m)"
    by (simp add: sin_step_def mem_ops_def mem_Revision_def NewMemStore_def)
  then have b: "sys_step mem_ops (?m, [(demo_rec, PRevision)], []) (?m, [(demo_rec, PSwap None)], [])"
    using sys_step.Step [of 0 "[(demo_rec, PRevision)]" demo_rec PRevision mem_ops ?m "PSwap None" ?m "[]"] by simp
  obtain m' where "sin_step mem_ops demo_rec (PSwap None) ?m = (PDone (Inr True), m')"
    by (simp add: sin_step_def mem_ops_def MarshalOwnership_def demo_rec_def Validate_def mem_CAS_def NewMemStore_def Let_def)
  then have c: "sys_step mem_ops (?m, [(demo_rec, PSwap None)], []) (m', [(demo_rec, PDone (Inr True))], [demo_rec])"
    using sys_step.Step [of 0 "[(demo_rec, PSwap None)]" demo_rec "PSwap None" mem_ops ?m "PDone (Inr True)" m' "[]"] by simp
  have "(sys_step mem_ops)\<^sup>*\<^sup>* (?m, [], []) (m', [(demo_rec, PDone (Inr True))], [demo_rec])"
    by (rule rtranclp.rtrancl_into_rtrancl [OF rtranclp.rtrancl_into_rtrancl [OF r_into_rtranclp [of "sys_step mem_ops", OF a] b] c])
  then show ?thesis by blast
qed

theorem epochs_fenced_under_concurrency_witness:
  "\<exists>s. sorted_wrt (\<lambda>a b. oSession a = oSession b \<longrightarrow> oEpoch a < oEpoch b) [demo_rec]
    \<and> OS_Get mem_ops ''7'' s = Inr (case rev (filter (\<lambda>x. oSession x = ''7'') [demo_rec]) of [] \<Rightarrow> None | c # _ \<Rightarrow> Some c)"
proof -
  obtain s ps where "(sys_step mem_ops)\<^sup>*\<^sup>* (NewMemStore, [], []) (s, ps, [demo_rec])" using demo_reach by blast
  from epochs_fenced_under_concurrency [OF this, of "''7''"] show ?thesis by blast
qed

text \<open>
  (C13) One caller's contract: on a store whose session records are readable, \<^verbatim>\<open>SetIfNewer\<close> of a valid
  record ends after at most three store calls; it applies the record exactly when the session has no
  record or one of a lower epoch, after which the session reads back as that record and no other key
  has changed; otherwise it reports not applied and changes nothing.
\<close>

theorem SetIfNewer_spec:
  assumes "mem_inv m" "sessions_ok (mem_look m)" "Validate rec = None"
  shows "\<exists>found m' b. OS_Get mem_ops (oSession rec) m = Inr found \<and> SetIfNewer mem_ops rec m = (Inr b, m')
    \<and> b = (case found of None \<Rightarrow> True | Some cur \<Rightarrow> oEpoch cur < oEpoch rec)
    \<and> mem_inv m' \<and> sessions_ok (mem_look m')
    \<and> (if b then OS_Get mem_ops (oSession rec) m' = Inr (Some rec)
         \<and> (mem_look m')(SessionKey (oSession rec) := None) = (mem_look m)(SessionKey (oSession rec) := None)
       else m' = m)"
proof -
  have others: "(mem_look m')(k := None) = (mem_look m)(k := None)" if "\<forall>k'. k' \<noteq> k \<longrightarrow> mem_look m' k' = mem_look m k'" for m' k
    using that by auto
  obtain found where f: "OS_Get mem_ops (oSession rec) m = Inr found"
    using mem.OS_Get_look [OF assms(1,2)] by blast
  note seq = mem.SetIfNewer_seq [OF assms, unfolded f]
  have applied: ?thesis if a: "\<exists>s'. SetIfNewer mem_ops rec m = (Inr True, s') \<and> mem_inv s' \<and> sessions_ok (mem_look s')
      \<and> OS_Get mem_ops (oSession rec) s' = Inr (Some rec) \<and> (\<forall>k. k \<noteq> SessionKey (oSession rec) \<longrightarrow> mem_look s' k = mem_look m k)"
    and b: "case found of None \<Rightarrow> True | Some cur \<Rightarrow> oEpoch cur < oEpoch rec"
  proof -
    obtain s' where "SetIfNewer mem_ops rec m = (Inr True, s')" "mem_inv s'" "sessions_ok (mem_look s')"
      "OS_Get mem_ops (oSession rec) s' = Inr (Some rec)" "\<forall>k. k \<noteq> SessionKey (oSession rec) \<longrightarrow> mem_look s' k = mem_look m k"
      using a by blast
    then show ?thesis using f b others [of "SessionKey (oSession rec)" s'] by (intro exI [of _ found] exI [of _ s'] exI [of _ True]) simp
  qed
  show ?thesis
  proof (cases "case found of None \<Rightarrow> True | Some cur \<Rightarrow> oEpoch cur < oEpoch rec")
    case True
    with seq show ?thesis by (intro applied) (simp_all add: not_le split: option.splits)
  next
    case False
    with seq have "SetIfNewer mem_ops rec m = (Inr False, m)" by (auto simp: not_less split: option.splits)
    with False f assms show ?thesis by (intro exI [of _ found] exI [of _ m] exI [of _ False]) simp
  qed
qed

theorem SetIfNewer_spec_witness:
  "\<exists>found m' b. OS_Get mem_ops (oSession demo_rec) NewMemStore = Inr found \<and> SetIfNewer mem_ops demo_rec NewMemStore = (Inr b, m')
    \<and> b = (case found of None \<Rightarrow> True | Some cur \<Rightarrow> oEpoch cur < oEpoch demo_rec)
    \<and> mem_inv m' \<and> sessions_ok (mem_look m')
    \<and> (if b then OS_Get mem_ops (oSession demo_rec) m' = Inr (Some demo_rec)
         \<and> (mem_look m')(SessionKey (oSession demo_rec) := None) = (mem_look NewMemStore)(SessionKey (oSession demo_rec) := None)
       else m' = NewMemStore)"
  by (rule SetIfNewer_spec) (simp_all add: demo_rec_def Validate_def)

end
