(* ===== verification/EpochGate.thy ===== *)
theory EpochGate
  imports Ownership
begin

text \<open>
  \<^verbatim>\<open>internal/control/epochgate.go\<close> and \<^verbatim>\<open>epochgate_watch.go\<close>: the fence a gateway keeps in front of
  its data path. Each method runs under the mutex, so a history is a list of whole operations. The
  locale \<open>epoch_fence\<close> states what the packet path and the follower rely on.
\<close>

section \<open>Model\<close>

record EpochGate =
  known :: "(string, u64) gomap"

definition NewEpochGate :: EpochGate where
  "NewEpochGate = \<lparr>known = []\<rparr>"

definition Update :: "string \<Rightarrow> u64 \<Rightarrow> EpochGate \<Rightarrow> EpochGate" where
  "Update session ep g =
     (case mget (known g) session of
        None \<Rightarrow> g\<lparr>known := mput session ep (known g)\<rparr>
      | Some cur \<Rightarrow> if ep > cur then g\<lparr>known := mput session ep (known g)\<rparr> else g)"

definition Admit :: "string \<Rightarrow> u64 \<Rightarrow> EpochGate \<Rightarrow> bool" where
  "Admit session ep g = (case mget (known g) session of None \<Rightarrow> True | Some cur \<Rightarrow> ep \<ge> cur)"

definition AdmitAndAdvance :: "string \<Rightarrow> u64 \<Rightarrow> EpochGate \<Rightarrow> bool \<times> EpochGate" where
  "AdmitAndAdvance session ep g =
     (case mget (known g) session of
        None \<Rightarrow> (True, g\<lparr>known := mput session ep (known g)\<rparr>)
      | Some cur \<Rightarrow>
          if ep < cur then (False, g)
          else if ep > cur then (True, g\<lparr>known := mput session ep (known g)\<rparr>)
          else (True, g))"

definition Known :: "string \<Rightarrow> EpochGate \<Rightarrow> u64 option" where
  "Known session g = mget (known g) session"

fun Follow :: "OwnershipRecord list \<Rightarrow> EpochGate \<Rightarrow> EpochGate" where
  "Follow [] g = g"
| "Follow (rec # recs) g = Follow recs (Update (oSession rec) (oEpoch rec) g)"

text \<open>\<^verbatim>\<open>FollowOwnership\<close> on the events its watch delivers.\<close>

definition FollowOwnership :: "Event list \<Rightarrow> EpochGate \<Rightarrow> EpochGate" where
  "FollowOwnership evs g = Follow (OS_Watch evs) g"

section \<open>The contract of a fence\<close>

text \<open>
  A fence remembers one epoch per session, raises it when told to, admits what is not below it, and
  keeps sessions apart.
\<close>

locale epoch_fence =
  fixes admit :: "string \<Rightarrow> u64 \<Rightarrow> 'g \<Rightarrow> bool" and raise :: "string \<Rightarrow> u64 \<Rightarrow> 'g \<Rightarrow> 'g"
    and level :: "'g \<Rightarrow> string \<Rightarrow> u64 option"
  assumes admit_level: "admit s e g \<longleftrightarrow> (case level g s of None \<Rightarrow> True | Some c \<Rightarrow> c \<le> e)"
    and level_raise: "level (raise s e g) s' = (if s = s' then Some (case level g s of None \<Rightarrow> e | Some c \<Rightarrow> max c e) else level g s')"
begin

definition raise_all :: "(string \<times> u64) list \<Rightarrow> 'g \<Rightarrow> 'g" where
  "raise_all xs g = fold (\<lambda>(s, e). raise s e) xs g"

lemma raise_all_simps [simp]:
  "raise_all [] g = g" "raise_all ((s, e) # xs) g = raise_all xs (raise s e g)"
  by (simp_all add: raise_all_def)

lemma admit_raise: "admit s e (raise s' e' g) \<longleftrightarrow> admit s e g \<and> (s' = s \<longrightarrow> e' \<le> e)"
  by (auto simp: admit_level level_raise split: option.splits)

text \<open>After any raises, exactly the epochs not below any of them pass.\<close>

lemma admit_raise_all: "admit s e (raise_all xs g) \<longleftrightarrow> admit s e g \<and> (\<forall>(s', e') \<in> set xs. s' = s \<longrightarrow> e' \<le> e)"
  by (induction xs arbitrary: g) (auto simp: admit_raise)

lemma admit_mono: "admit s e g \<Longrightarrow> e \<le> e' \<Longrightarrow> admit s e' g"
  by (auto simp: admit_level split: option.splits)

lemma level_raise_all_mono:
  "level g s = Some c \<Longrightarrow> \<exists>c'. level (raise_all xs g) s = Some c' \<and> c \<le> c'"
proof (induction xs arbitrary: g c)
  case (Cons x xs)
  obtain s1 e1 where x: "x = (s1, e1)" by (cases x)
  have "\<exists>c1. level (raise s1 e1 g) s = Some c1 \<and> c \<le> c1" using Cons.prems by (simp add: level_raise)
  then obtain c1 where "level (raise s1 e1 g) s = Some c1" "c \<le> c1" by blast
  with Cons.IH [OF this(1)] show ?case by (auto simp: x)
qed simp

end

lemma Known_Update:
  "Known s' (Update s e g) = (if s = s' then Some (case Known s g of None \<Rightarrow> e | Some c \<Rightarrow> max c e) else Known s' g)"
  by (auto simp: Known_def Update_def max_def split: option.splits)

interpretation gate: epoch_fence Admit Update "\<lambda>g s. Known s g"
  by unfold_locales (simp add: Admit_def Known_def, rule Known_Update)

lemma AdmitAndAdvance_eq:
  "AdmitAndAdvance s e g = (Admit s e g, if Admit s e g then Update s e g else g)"
  by (auto simp: AdmitAndAdvance_def Admit_def Update_def split: option.splits)

section \<open>Histories\<close>

datatype gop = GUpdate string u64 | GAdmitAdvance string u64

definition gstep :: "gop \<Rightarrow> EpochGate \<Rightarrow> EpochGate" where
  "gstep op g = (case op of GUpdate s e \<Rightarrow> Update s e g | GAdmitAdvance s e \<Rightarrow> snd (AdmitAndAdvance s e g))"

definition gate_run :: "gop list \<Rightarrow> EpochGate \<Rightarrow> EpochGate" where
  "gate_run ops g = fold gstep ops g"

text \<open>Every epoch the gate was shown for a session, admitted or not.\<close>

fun shown :: "string \<Rightarrow> gop list \<Rightarrow> u64 list" where
  "shown s [] = []"
| "shown s (GUpdate s' e # ops) = (if s' = s then e # shown s ops else shown s ops)"
| "shown s (GAdmitAdvance s' e # ops) = (if s' = s then e # shown s ops else shown s ops)"

lemma Update_rejected: "\<not> Admit s e g \<Longrightarrow> Update s e g = g"
  by (auto simp: Admit_def Update_def split: option.splits)

lemma gstep_Update:
  "gstep op g = (case op of GUpdate s e \<Rightarrow> Update s e g | GAdmitAdvance s e \<Rightarrow> Update s e g)"
  by (auto simp: gstep_def AdmitAndAdvance_eq Update_rejected split: gop.splits)

lemma admit_gate_run:
  "Admit s e (gate_run ops g) \<longleftrightarrow> Admit s e g \<and> list_all (\<lambda>x. x \<le> e) (shown s ops)"
proof (induction ops arbitrary: g)
  case (Cons op ops)
  then show ?case by (cases op) (auto simp: gate_run_def gstep_Update gate.admit_raise)
qed (simp add: gate_run_def)

text \<open>
  (C14) The fence is exactly a high-water mark: after any history of updates and advancing admissions
  (rejected ones included) the gate admits an epoch for a session if and only if it is not below any
  epoch the gate was ever shown for that session; other sessions play no role.
\<close>

theorem gate_admits_iff_not_stale:
  "Admit s e (gate_run ops NewEpochGate) = list_all (\<lambda>x. x \<le> e) (shown s ops)"
  by (simp add: admit_gate_run) (simp add: Admit_def NewEpochGate_def)

lemma Follow_raise_all: "Follow recs g = gate.raise_all (map (\<lambda>r. (oSession r, oEpoch r)) recs) g"
  by (induction recs arbitrary: g) auto

lemma admit_Follow:
  "Admit s e (Follow recs g) \<longleftrightarrow> Admit s e g \<and> (\<forall>r \<in> set recs. oSession r = s \<longrightarrow> oEpoch r \<le> e)"
  by (auto simp: Follow_raise_all gate.admit_raise_all)

end
