(* ===== verification/Membership.thy ===== *)
theory Membership
  imports Store
begin

text \<open>
  \<^verbatim>\<open>internal/control/membership.go\<close>: the gateways' roles and the membership records kept in the store.
  \<^verbatim>\<open>GatewayRole\<close> is a Go \<^verbatim>\<open>int\<close> used as a bit set.
\<close>

section \<open>Model\<close>

type_synonym GatewayRole = int

definition RoleAccess :: GatewayRole where "RoleAccess = 1"
definition RoleEgress :: GatewayRole where "RoleEgress = 2"

definition Has :: "GatewayRole \<Rightarrow> GatewayRole \<Rightarrow> bool" where
  "Has r role \<longleftrightarrow> r AND role \<noteq> 0"

definition GatewayRole_String :: "GatewayRole \<Rightarrow> string" where
  "GatewayRole_String r =
     (if Has r RoleAccess \<and> Has r RoleEgress then ''access+egress''
      else if Has r RoleAccess then ''access''
      else if Has r RoleEgress then ''egress''
      else ''none'')"

record GatewayMember =
  gmID :: string
  gmRoles :: GatewayRole
  gmAddress :: string

datatype memberErr = MemberEmptyID | MemberEmptyAddress | MemberNoRoles | MemberDecode jsonErr | MemberStore storeErr

definition Member_Validate :: "GatewayMember \<Rightarrow> memberErr option" where
  "Member_Validate m =
     (if gmID m = [] then Some MemberEmptyID
      else if gmAddress m = [] then Some MemberEmptyAddress
      else if gmRoles m = 0 then Some MemberNoRoles
      else None)"

definition membershipKeyPrefix :: string where "membershipKeyPrefix = ''/egressa/gateway/''"

definition GatewayKey :: "string \<Rightarrow> string" where "GatewayKey gid = membershipKeyPrefix @ gid"

definition MarshalMembership :: "GatewayMember \<Rightarrow> memberErr + raw" where
  "MarshalMembership m = (case Member_Validate m of
     Some e \<Rightarrow> Inl e
   | None \<Rightarrow> Inr (RawJson (JObj [(''id'', JStr (gmID m)), (''roles'', JInt (gmRoles m)), (''address'', JStr (gmAddress m))])))"

definition Member_fields :: "(string \<times> json) list \<Rightarrow> jsonErr + GatewayMember" where
  "Member_fields kvs =
     (case field read_str [] ''id'' kvs of Inl e \<Rightarrow> Inl e | Inr i \<Rightarrow>
      case field read_int64 0 ''roles'' kvs of Inl e \<Rightarrow> Inl e | Inr r \<Rightarrow>
      case field read_str [] ''address'' kvs of Inl e \<Rightarrow> Inl e | Inr a \<Rightarrow>
      Inr \<lparr>gmID = i, gmRoles = r, gmAddress = a\<rparr>)"

definition UnmarshalMembership :: "raw \<Rightarrow> memberErr + GatewayMember" where
  "UnmarshalMembership data =
     (case Unmarshal Member_fields data of
        Inl e \<Rightarrow> Inl (MemberDecode e)
      | Inr m \<Rightarrow> (case Member_Validate m of Some e \<Rightarrow> Inl e | None \<Rightarrow> Inr m))"

definition MS_Put :: "'s kvops \<Rightarrow> GatewayMember \<Rightarrow> 's \<Rightarrow> memberErr option \<times> 's" where
  "MS_Put ops m s =
     (case MarshalMembership m of
        Inl e \<Rightarrow> (Some e, s)
      | Inr data \<Rightarrow> (case kPut ops (GatewayKey (gmID m)) data s of
            (Some e, s') \<Rightarrow> (Some (MemberStore e), s')
          | (None, s') \<Rightarrow> (None, s')))"

fun decode_members :: "raw list \<Rightarrow> memberErr + GatewayMember list" where
  "decode_members [] = Inr []"
| "decode_members (d # ds) =
     (case UnmarshalMembership d of Inl e \<Rightarrow> Inl e
      | Inr m \<Rightarrow> (case decode_members ds of Inl e \<Rightarrow> Inl e | Inr ms \<Rightarrow> Inr (m # ms)))"

definition MS_List :: "'s kvops \<Rightarrow> 's \<Rightarrow> memberErr + GatewayMember list" where
  "MS_List ops s =
     (case kList ops membershipKeyPrefix s of
        Inl e \<Rightarrow> Inl (MemberStore e)
      | Inr kvs \<Rightarrow> decode_members (map snd kvs))"

definition MS_Watch :: "Event list \<Rightarrow> GatewayMember list" where
  "MS_Watch evs = List.map_filter (\<lambda>ev.
     if eDeleted ev then None
     else case UnmarshalMembership (eValue ev) of Inl _ \<Rightarrow> None | Inr m \<Rightarrow> Some m) evs"

section \<open>Properties\<close>

text \<open>A Go \<^verbatim>\<open>int\<close> holds 64 bits.\<close>

definition role_ok :: "GatewayRole \<Rightarrow> bool" where
  "role_ok r \<longleftrightarrow> - (2 ^ 63) \<le> r \<and> r < 2 ^ 63"

lemma Unmarshal_MarshalMembership:
  "MarshalMembership m = Inr d \<Longrightarrow> role_ok (gmRoles m) \<Longrightarrow> UnmarshalMembership d = Inr m"
  by (cases m) (auto simp: MarshalMembership_def UnmarshalMembership_def Member_fields_def role_ok_def field_def field_step_def
      key_match_def fold_char_def split: option.splits)

lemma GatewayKey_inject [simp]: "GatewayKey a = GatewayKey b \<longleftrightarrow> a = b"
  by (simp add: GatewayKey_def)

lemma decode_members_ok: "decode_members ds = Inr ms \<Longrightarrow> map UnmarshalMembership ds = map Inr ms"
  by (induction ds arbitrary: ms) (auto split: sum.splits)

text \<open>Every membership document of the store decodes.\<close>

definition members_ok :: "MemStore \<Rightarrow> bool" where
  "members_ok s \<longleftrightarrow> list_all (\<lambda>(k, e). prefix membershipKeyPrefix k \<longrightarrow> (\<exists>m. UnmarshalMembership (mValue e) = Inr m)) (mData s)"

lemma decode_members_total:
  "list_all (\<lambda>d. \<exists>m. UnmarshalMembership d = Inr m) ds \<Longrightarrow> \<exists>ms. decode_members ds = Inr ms"
  by (induction ds) auto

text \<open> Membership is insert-or-replace by id: on a store whose membership documents are readable, putting a valid member succeeds, the listing
  afterwards succeeds and contains the member, and every key outside the member's own keeps its document.
\<close>

theorem member_put_list:
  assumes "mem_inv s" "members_ok s" "Member_Validate m = None" "role_ok (gmRoles m)"
  shows "\<exists>s' ms. MS_Put mem_ops m s = (None, s') \<and> MS_List mem_ops s' = Inr ms \<and> m \<in> set ms
    \<and> (mem_look s')(GatewayKey (gmID m) := None) = (mem_look s)(GatewayKey (gmID m) := None)"
proof -
  let ?k = "GatewayKey (gmID m)"
  obtain d where d: "MarshalMembership m = Inr d" using assms(3) by (simp add: MarshalMembership_def)
  have u: "UnmarshalMembership d = Inr m" by (rule Unmarshal_MarshalMembership [OF d assms(4)])
  let ?s = "notify \<lparr>eKey = ?k, eValue = d, eDeleted = False\<rparr> (mem_write ?k d s)"
  have put: "MS_Put mem_ops m s = (None, ?s)" using d by (simp add: MS_Put_def mem_ops_def mem_Put_def)
  have data: "mData ?s = mput ?k \<lparr>mValue = d, mRevision = nextRev s + 1\<rparr> (mData s)" by (simp add: mem_write_def)
  have wf: "mwf (mData s)" using assms(1) by (simp add: mem_inv_def)
  let ?docs = "map snd (map (\<lambda>(k, e). (k, mValue e)) (filter (\<lambda>(k, _). prefix membershipKeyPrefix k) (mData ?s)))"
  have "list_all (\<lambda>d. \<exists>m. UnmarshalMembership d = Inr m) ?docs"
    using assms(2) u unfolding data by (auto simp: list_all_iff members_ok_def set_mput [OF wf])
  then obtain ms where ms: "decode_members ?docs = Inr ms" using decode_members_total by blast
  then have list: "MS_List mem_ops ?s = Inr ms" by (simp add: MS_List_def mem_ops_def mem_List_def)
  have "(?k, \<lparr>mValue = d, mRevision = nextRev s + 1\<rparr>) \<in> set (mData ?s)" unfolding data by (simp add: set_mput [OF wf])
  then have "(?k, \<lparr>mValue = d, mRevision = nextRev s + 1\<rparr>) \<in> set (filter (\<lambda>(k, _). prefix membershipKeyPrefix k) (mData ?s))"
    by (simp add: GatewayKey_def)
  from imageI [OF this, of "\<lambda>(k, e). mValue e"] have "d \<in> set ?docs" by (simp add: image_image case_prod_beta)
  then have "UnmarshalMembership d \<in> set (map UnmarshalMembership ?docs)" unfolding list.set_map by (rule imageI)
  then have "m \<in> set ms" unfolding u decode_members_ok [OF ms] by auto
  moreover have "(mem_look ?s)(?k := None) = (mem_look s)(?k := None)" by simp
  ultimately show ?thesis using put list by blast
qed

theorem member_put_list_witness:
  "\<exists>s' ms. MS_Put mem_ops \<lparr>gmID = ''g'', gmRoles = 3, gmAddress = ''h:1''\<rparr> NewMemStore = (None, s')
    \<and> MS_List mem_ops s' = Inr ms \<and> \<lparr>gmID = ''g'', gmRoles = 3, gmAddress = ''h:1''\<rparr> \<in> set ms
    \<and> (mem_look s')(GatewayKey (gmID \<lparr>gmID = ''g'', gmRoles = 3, gmAddress = ''h:1''\<rparr>) := None)
      = (mem_look NewMemStore)(GatewayKey (gmID \<lparr>gmID = ''g'', gmRoles = 3, gmAddress = ''h:1''\<rparr>) := None)"
  by (rule member_put_list) (simp_all add: NewMemStore_def mem_inv_def members_ok_def Member_Validate_def role_ok_def)

end
