(* ===== verification/F64.thy ===== *)
theory F64
  imports Prelude Complex_Main
begin

text \<open>
  Go's \<^verbatim>\<open>float64\<close> as the measurement code uses it: the finite values, the two infinities and NaN, with
  the arithmetic and the comparisons of IEEE 754 on them. A NaN compares false with everything and
  absorbs every operation; infinity minus infinity, zero times infinity and zero by zero are NaN. What is idealised:
  finite results are exact (no rounding, no overflow of a finite result to infinity), and there is one
  zero. The operators are the usual symbols, so the definitions below read like the code.
\<close>

section \<open>Values and operators\<close>

datatype f64 = Fin real | PInf | NInf | NaN

instantiation f64 :: "{zero, one, plus, uminus, minus, times, inverse, ord}"
begin

definition zero_f64 :: f64 where "0 = Fin 0"

definition one_f64 :: f64 where "1 = Fin 1"

fun plus_f64 :: "f64 \<Rightarrow> f64 \<Rightarrow> f64" where
  "Fin x + Fin y = Fin (x + y)"
| "NaN + y = NaN"
| "PInf + y = (if y = NaN \<or> y = NInf then NaN else PInf)"
| "NInf + y = (if y = NaN \<or> y = PInf then NaN else NInf)"
| "Fin x + y = y"

fun uminus_f64 :: "f64 \<Rightarrow> f64" where
  "- Fin x = Fin (- x)"
| "- PInf = NInf"
| "- NInf = PInf"
| "- NaN = NaN"

definition minus_f64 :: "f64 \<Rightarrow> f64 \<Rightarrow> f64" where "x - y = x + (- y :: f64)"

fun times_f64 :: "f64 \<Rightarrow> f64 \<Rightarrow> f64" where
  "Fin x * Fin y = Fin (x * y)"
| "NaN * y = NaN"
| "x * NaN = NaN"
| "Fin x * PInf = (if x = 0 then NaN else if x > 0 then PInf else NInf)"
| "Fin x * NInf = (if x = 0 then NaN else if x > 0 then NInf else PInf)"
| "PInf * Fin y = (if y = 0 then NaN else if y > 0 then PInf else NInf)"
| "NInf * Fin y = (if y = 0 then NaN else if y > 0 then NInf else PInf)"
| "PInf * PInf = PInf"
| "PInf * NInf = NInf"
| "NInf * PInf = NInf"
| "NInf * NInf = PInf"

fun divide_f64 :: "f64 \<Rightarrow> f64 \<Rightarrow> f64" where
  "Fin x div Fin y = (if y = 0 then (if x = 0 then NaN else if x > 0 then PInf else NInf) else Fin (x / y))"
| "NaN div y = NaN"
| "x div NaN = NaN"
| "Fin x div PInf = Fin 0"
| "Fin x div NInf = Fin 0"
| "PInf div Fin y = (if y < 0 then NInf else PInf)"
| "NInf div Fin y = (if y < 0 then PInf else NInf)"
| "PInf div PInf = NaN"
| "PInf div NInf = NaN"
| "NInf div PInf = NaN"
| "NInf div NInf = NaN"

definition inverse_f64 :: "f64 \<Rightarrow> f64" where "inverse x = (Fin 1 :: f64) div x"

fun less_f64 :: "f64 \<Rightarrow> f64 \<Rightarrow> bool" where
  "Fin x < Fin y \<longleftrightarrow> x < y"
| "NaN < y \<longleftrightarrow> False"
| "x < NaN \<longleftrightarrow> False"
| "x < PInf \<longleftrightarrow> x \<noteq> PInf"
| "NInf < y \<longleftrightarrow> y \<noteq> NInf"
| "PInf < y \<longleftrightarrow> False"
| "Fin x < NInf \<longleftrightarrow> False"

definition less_eq_f64 :: "f64 \<Rightarrow> f64 \<Rightarrow> bool" where
  "x \<le> y \<longleftrightarrow> x < y \<or> (x = y \<and> x \<noteq> (NaN :: f64))"

instance ..

end

text \<open>\<^verbatim>\<open>math.Sqrt\<close>, \<^verbatim>\<open>math.Log\<close>, \<^verbatim>\<open>math.Exp2\<close> and the conversion from an unsigned integer.\<close>

fun f_sqrt :: "f64 \<Rightarrow> f64" where
  "f_sqrt (Fin x) = (if x < 0 then NaN else Fin (sqrt x))"
| "f_sqrt PInf = PInf"
| "f_sqrt NInf = NaN"
| "f_sqrt NaN = NaN"

fun f_log :: "f64 \<Rightarrow> f64" where
  "f_log (Fin x) = (if x < 0 then NaN else if x = 0 then NInf else Fin (ln x))"
| "f_log PInf = PInf"
| "f_log NInf = NaN"
| "f_log NaN = NaN"

fun f_exp2 :: "f64 \<Rightarrow> f64" where
  "f_exp2 (Fin x) = Fin (2 powr x)"
| "f_exp2 PInf = PInf"
| "f_exp2 NInf = Fin 0"
| "f_exp2 NaN = NaN"

definition of_u64 :: "u64 \<Rightarrow> f64" where
  "of_u64 n = Fin (real (unat n))"

definition isFin :: "f64 \<Rightarrow> bool" where
  "isFin x = (case x of Fin _ \<Rightarrow> True | _ \<Rightarrow> False)"

section \<open>Laws\<close>

lemma isFin_simps [simp]: "isFin (Fin r)" "\<not> isFin PInf" "\<not> isFin NInf" "\<not> isFin NaN"
  by (simp_all add: isFin_def)

lemma isFinE: "isFin x \<Longrightarrow> (\<And>r. x = Fin r \<Longrightarrow> P) \<Longrightarrow> P"
  by (cases x) auto

lemmas f64_consts [simp] = zero_f64_def one_f64_def

lemma minus_f64_simps [simp]:
  "Fin x - Fin y = Fin (x - y)" "NaN - z = NaN" "z - NaN = NaN"
  "PInf - PInf = NaN" "NInf - NInf = NaN" "PInf - NInf = PInf" "NInf - PInf = NInf"
  "Fin x - PInf = NInf" "Fin x - NInf = PInf" "PInf - Fin y = PInf" "NInf - Fin y = NInf"
  by (simp_all add: minus_f64_def, cases z, simp_all)

lemma plus_NaN [simp]: "x + NaN = NaN"
  by (cases x) simp_all

lemma times_NaN [simp]: "x * NaN = NaN"
  by (cases x) simp_all

lemma less_eq_f64_simps [simp]:
  "Fin x \<le> Fin y \<longleftrightarrow> x \<le> y" "NaN \<le> z \<longleftrightarrow> False" "z \<le> NaN \<longleftrightarrow> False"
  "x' \<le> PInf \<longleftrightarrow> x' \<noteq> NaN" "NInf \<le> y' \<longleftrightarrow> y' \<noteq> NaN" "PInf \<le> Fin y \<longleftrightarrow> False" "PInf \<le> NInf \<longleftrightarrow> False"
  "Fin x \<le> NInf \<longleftrightarrow> False"
  by (cases z; cases x'; cases y'; auto simp: less_eq_f64_def)+

lemma not_less_NaN [simp]: "\<not> x < NaN" "\<not> NaN < x"
  by (cases x; simp)+

lemma not_less_NInf [simp]: "\<not> x < NInf"
  by (cases x) simp_all

lemma not_PInf_less [simp]: "\<not> PInf < x"
  by (cases x) simp_all

lemma f64_less_trans: "x < y \<Longrightarrow> y < z \<Longrightarrow> x < (z :: f64)"
  by (cases x; cases y; cases z; simp)

lemma f64_irrefl [simp]: "\<not> x < (x :: f64)"
  by (cases x) simp_all

lemma f64_asym: "x < y \<Longrightarrow> \<not> y < (x :: f64)"
  using f64_less_trans f64_irrefl by blast

lemma f64_less_le_trans: "x < y \<Longrightarrow> y \<le> z \<Longrightarrow> x < (z :: f64)"
  by (cases x; cases y; cases z; simp)

lemma f64_le_trans: "x \<le> y \<Longrightarrow> y \<le> z \<Longrightarrow> x \<le> (z :: f64)"
  by (cases x; cases y; cases z; simp)

text \<open>Subtracting plus infinity, or subtracting from minus infinity, never gives anything that
  exceeds a threshold.\<close>

lemma minus_PInf_not_greater [simp]: "\<not> t < x - PInf"
  by (cases x) simp_all

lemma NInf_minus_not_greater [simp]: "\<not> t < NInf - x"
  by (cases x) simp_all

end
