(* ===== verification/Cost.thy ===== *)
theory Cost
  imports F64
begin

text \<open>
  \<^verbatim>\<open>internal/measurement/cost.go\<close> and \<^verbatim>\<open>decide.go\<close>: the cost of a path, the comparison of two paths
  to one egress, and the confidence rule a migration must pass.
\<close>

section \<open>Segments and weights\<close>

record SegmentStats =
  P50Micros :: f64
  P95Micros :: f64
  LossRate :: f64
  VarianceMicros2 :: f64
  SampleN :: u64
  Age :: duration
  Confidence :: f64

record CostWeights =
  TailWeight :: f64
  LossWeight :: f64
  LossGate :: f64
  MaxCapacityFraction :: f64

definition DefaultCostWeights :: CostWeights where
  "DefaultCostWeights = \<lparr>TailWeight = 1, LossWeight = Fin 995033, LossGate = Fin 0.20, MaxCapacityFraction = Fin 0.90\<rparr>"

definition lossPenalty :: "f64 \<Rightarrow> f64 \<Rightarrow> f64" where
  "lossPenalty p weight = (if p \<ge> 1 then PInf else - f_log (1 - p) * weight)"

definition SegmentCost :: "SegmentStats \<Rightarrow> CostWeights \<Rightarrow> f64" where
  "SegmentCost s w =
     (let tailPremium = P95Micros s - P50Micros s;
          tailPremium = (if tailPremium < 0 then 0 else tailPremium);
          latency = P50Micros s + TailWeight w * tailPremium
      in latency + lossPenalty (LossRate s) (LossWeight w))"

section \<open>Scoring a path\<close>

datatype GateReason = GateNone | GateLoss | GateCapacity

definition GateReason_String :: "GateReason \<Rightarrow> string" where
  "GateReason_String r = (case r of GateNone \<Rightarrow> ''none'' | GateLoss \<Rightarrow> ''loss'' | GateCapacity \<Rightarrow> ''capacity'')"

record PathCandidate =
  EgressID :: string
  Segments :: "SegmentStats list"
  CapacityFraction :: f64

record PathScore =
  Cost :: f64
  Gate :: GateReason
  GatedSegment :: int

fun score_loop :: "CostWeights \<Rightarrow> int \<Rightarrow> f64 \<Rightarrow> SegmentStats list \<Rightarrow> PathScore" where
  "score_loop w i tot [] = \<lparr>Cost = tot, Gate = GateNone, GatedSegment = -1\<rparr>"
| "score_loop w i tot (seg # segs) =
     (if LossRate seg \<ge> LossGate w then \<lparr>Cost = PInf, Gate = GateLoss, GatedSegment = i\<rparr>
      else score_loop w (i + 1) (tot + SegmentCost seg w) segs)"

definition ScorePath :: "PathCandidate \<Rightarrow> CostWeights \<Rightarrow> PathScore" where
  "ScorePath c w =
     (if CapacityFraction c \<ge> MaxCapacityFraction w
      then \<lparr>Cost = PInf, Gate = GateCapacity, GatedSegment = -1\<rparr>
      else score_loop w 0 0 (Segments c))"

section \<open>Comparing two paths to one egress\<close>

datatype diffErr = DifferentEgress string string | NegativeSuffix int | SuffixTooLong int nat nat
  | SuffixGated | AtCapacity

definition segmentsGated :: "SegmentStats list \<Rightarrow> CostWeights \<Rightarrow> bool" where
  "segmentsGated segs w = list_ex (\<lambda>s. LossRate s \<ge> LossGate w) segs"

definition validateDifferential ::
  "PathCandidate \<Rightarrow> PathCandidate \<Rightarrow> int \<Rightarrow> CostWeights \<Rightarrow> diffErr + SegmentStats list \<times> SegmentStats list" where
  "validateDifferential a b sharedSuffixLen w =
     (if EgressID a \<noteq> EgressID b then Inl (DifferentEgress (EgressID a) (EgressID b))
      else if sharedSuffixLen < 0 then Inl (NegativeSuffix sharedSuffixLen)
      else if sharedSuffixLen > int (length (Segments a)) \<or> sharedSuffixLen > int (length (Segments b))
      then Inl (SuffixTooLong sharedSuffixLen (length (Segments a)) (length (Segments b)))
      else if sharedSuffixLen > 0 \<and> list_ex (\<lambda>s. LossRate s \<ge> LossGate w) (drop (length (Segments a) - nat sharedSuffixLen) (Segments a))
      then Inl SuffixGated
      else if CapacityFraction a \<ge> MaxCapacityFraction w \<or> CapacityFraction b \<ge> MaxCapacityFraction w
      then Inl AtCapacity
      else Inr (take (length (Segments a) - nat sharedSuffixLen) (Segments a),
                take (length (Segments b) - nat sharedSuffixLen) (Segments b)))"

fun differing_loop :: "CostWeights \<Rightarrow> f64 \<Rightarrow> SegmentStats list \<Rightarrow> f64" where
  "differing_loop w tot [] = tot"
| "differing_loop w tot (seg # segs) =
     (if LossRate seg \<ge> LossGate w then PInf else differing_loop w (tot + SegmentCost seg w) segs)"

definition differingCost :: "SegmentStats list \<Rightarrow> CostWeights \<Rightarrow> f64" where
  "differingCost segs w = differing_loop w 0 segs"

definition PathDifferential :: "PathCandidate \<Rightarrow> PathCandidate \<Rightarrow> int \<Rightarrow> CostWeights \<Rightarrow> diffErr + f64" where
  "PathDifferential a b sharedSuffixLen w =
     (case validateDifferential a b sharedSuffixLen w of
        Inl e \<Rightarrow> Inl e
      | Inr (differingA, differingB) \<Rightarrow> Inr (differingCost differingA w - differingCost differingB w))"

section \<open>Confidence bounds\<close>

definition clamp01 :: "f64 \<Rightarrow> f64" where
  "clamp01 x = (if x < 0 then 0 else if x > 1 then 1 else x)"

definition segmentCostBound :: "SegmentStats \<Rightarrow> CostWeights \<Rightarrow> f64 \<Rightarrow> f64 \<times> f64 \<times> f64" where
  "segmentCostBound s w z =
     (let point = SegmentCost s w in
      if SampleN s = 0 \<or> Confidence s \<le> 0 then (point, NInf, PInf)
      else
        let tailPremium = P95Micros s - P50Micros s;
            tailPremium = (if tailPremium < 0 then 0 else tailPremium);
            latencyPoint = P50Micros s + TailWeight w * tailPremium;
            confidenceInflation = f_sqrt (Confidence s);
            se = f_sqrt (VarianceMicros2 s / of_u64 (SampleN s)) / confidenceInflation;
            latencySpread = z * se * (1 + TailWeight w);
            p = clamp01 (LossRate s);
            lossSE = f_sqrt (p * (1 - p) / of_u64 (SampleN s)) / confidenceInflation;
            pLow = clamp01 (p - z * lossSE);
            pHigh = clamp01 (p + z * lossSE);
            lower = (latencyPoint - latencySpread) + lossPenalty pLow (LossWeight w);
            upper = (latencyPoint + latencySpread) + lossPenalty pHigh (LossWeight w);
            lower = (if lower > point then point else lower);
            upper = (if upper < point then point else upper)
        in (point, lower, upper))"

record boundAcc =
  bPoint :: f64
  upperSpreadSq :: f64
  lowerSpreadSq :: f64
  untrusted :: bool

fun bounds_loop :: "CostWeights \<Rightarrow> f64 \<Rightarrow> boundAcc \<Rightarrow> SegmentStats list \<Rightarrow> boundAcc" where
  "bounds_loop w z acc [] = acc"
| "bounds_loop w z acc (s # segs) =
     (let (p, l, u) = segmentCostBound s w z;
          acc = acc\<lparr>bPoint := bPoint acc + p\<rparr>
      in if l = NInf \<or> u = PInf then bounds_loop w z (acc\<lparr>untrusted := True\<rparr>) segs
         else bounds_loop w z (acc\<lparr>upperSpreadSq := upperSpreadSq acc + (u - p) * (u - p),
                                   lowerSpreadSq := lowerSpreadSq acc + (p - l) * (p - l)\<rparr>) segs)"

definition aggregateBounds :: "SegmentStats list \<Rightarrow> CostWeights \<Rightarrow> f64 \<Rightarrow> f64 \<times> f64 \<times> f64" where
  "aggregateBounds segs w z =
     (let acc = bounds_loop w z \<lparr>bPoint = 0, upperSpreadSq = 0, lowerSpreadSq = 0, untrusted = False\<rparr> segs
      in if untrusted acc then (bPoint acc, NInf, PInf)
         else (bPoint acc, bPoint acc - f_sqrt (lowerSpreadSq acc), bPoint acc + f_sqrt (upperSpreadSq acc)))"

record DeltaEstimate =
  Point :: f64
  Lower :: f64
  Upper :: f64

record DecisionWeights =
  ZScore :: f64
  MigrationCost :: f64
  SafetyMargin :: f64

definition DefaultDecisionWeights :: DecisionWeights where
  "DefaultDecisionWeights = \<lparr>ZScore = Fin 1.645, MigrationCost = 0, SafetyMargin = 0\<rparr>"

record MigrationDecision =
  Migrate :: bool
  Delta :: DeltaEstimate
  Threshold :: f64

definition DecideMigration ::
  "PathCandidate \<Rightarrow> PathCandidate \<Rightarrow> int \<Rightarrow> CostWeights \<Rightarrow> DecisionWeights \<Rightarrow> diffErr + MigrationDecision" where
  "DecideMigration current cand sharedSuffixLen cw dw =
     (case validateDifferential current cand sharedSuffixLen cw of
        Inl e \<Rightarrow> Inl e
      | Inr (differingA, differingB) \<Rightarrow>
          let (pointA, lowerA, upperA) =
                (if segmentsGated differingA cw then (PInf, PInf, PInf) else aggregateBounds differingA cw (ZScore dw));
              (pointB, lowerB, upperB) =
                (if segmentsGated differingB cw then (PInf, PInf, PInf) else aggregateBounds differingB cw (ZScore dw));
              delta = \<lparr>Point = pointA - pointB, Lower = lowerA - upperB, Upper = upperA - lowerB\<rparr>;
              threshold = MigrationCost dw + SafetyMargin dw
          in Inr \<lparr>Migrate = Lower delta > threshold, Delta = delta, Threshold = threshold\<rparr>)"

section \<open>Scores\<close>

lemma score_loop_Cost: "Cost (score_loop w i t segs) = differing_loop w t segs"
  by (induction segs arbitrary: i t) simp_all

lemma score_loop_gate:
  "score_loop w i t segs =
     (case find (\<lambda>j. LossRate (segs ! j) \<ge> LossGate w) [0..<length segs] of
        None \<Rightarrow> \<lparr>Cost = differing_loop w t segs, Gate = GateNone, GatedSegment = -1\<rparr>
      | Some j \<Rightarrow> \<lparr>Cost = PInf, Gate = GateLoss, GatedSegment = i + int j\<rparr>)"
proof (induction segs arbitrary: i t)
  case (Cons seg segs)
  have shift: "find P [Suc 0..<Suc n] = map_option Suc (find (P \<circ> Suc) [0..<n])" for P n
  proof -
    have "find P (map Suc xs) = map_option Suc (find (P \<circ> Suc) xs)" for xs by (induction xs) simp_all
    then show ?thesis by (simp only: map_Suc_upt [symmetric])
  qed
  have idx: "[0..<length (seg # segs)] = 0 # [Suc 0..<Suc (length segs)]" by (simp add: upt_rec)
  show ?case
    unfolding idx using Cons.IH
    by (simp add: shift o_def del: upt_Suc split: option.splits)
qed simp

lemma segmentsGated_find:
  "segmentsGated segs w \<longleftrightarrow> find (\<lambda>j. LossRate (segs ! j) \<ge> LossGate w) [0..<length segs] \<noteq> None"
  by (auto simp: segmentsGated_def list_ex_length find_None_iff)

text \<open> Gating: a path is gated by capacity exactly when its egress is at or over the limit; otherwise
  by loss exactly when some segment's loss reaches the gate, and the index reported is that of the first such
  segment. A gated path costs plus infinity; an ungated one costs the sum of its segments' costs.
\<close>

theorem ScorePath_gates:
  "ScorePath c w =
     (if CapacityFraction c \<ge> MaxCapacityFraction w then \<lparr>Cost = PInf, Gate = GateCapacity, GatedSegment = -1\<rparr>
      else if segmentsGated (Segments c) w
      then \<lparr>Cost = PInf, Gate = GateLoss,
             GatedSegment = int (hd (filter (\<lambda>j. LossRate (Segments c ! j) \<ge> LossGate w) [0..<length (Segments c)]))\<rparr>
      else \<lparr>Cost = foldl (\<lambda>t s. t + SegmentCost s w) 0 (Segments c), Gate = GateNone, GatedSegment = -1\<rparr>)"
proof -
  have find_hd: "find P xs = Some x \<Longrightarrow> hd (filter P xs) = x" for P :: "nat \<Rightarrow> bool" and xs x
    by (induction xs) (auto split: if_splits)
  have sum: "\<not> segmentsGated segs w \<Longrightarrow> differing_loop w t segs = foldl (\<lambda>t s. t + SegmentCost s w) t segs" for segs t
    by (induction segs arbitrary: t) (auto simp: segmentsGated_def)
  show ?thesis
  proof (cases "find (\<lambda>j. LossRate (Segments c ! j) \<ge> LossGate w) [0..<length (Segments c)]")
    case None
    then have "\<not> segmentsGated (Segments c) w" by (simp add: segmentsGated_find)
    with None show ?thesis by (simp add: ScorePath_def score_loop_gate sum del: f64_consts)
  next
    case (Some j)
    then have "segmentsGated (Segments c) w" by (simp add: segmentsGated_find)
    with Some find_hd [OF Some] show ?thesis by (simp add: ScorePath_def score_loop_gate del: f64_consts)
  qed
qed

section \<open>Differentials\<close>

lemma plus_eq_Fin: "x + y = Fin z \<longleftrightarrow> (\<exists>a b. x = Fin a \<and> y = Fin b \<and> z = a + b)"
  by (cases x; cases y) auto

lemma differing_loop_Fin:
  "differing_loop w t segs = Fin r \<Longrightarrow> \<exists>t0. t = Fin t0 \<and> (\<forall>t'. differing_loop w (Fin t') segs = Fin (r - t0 + t'))"
proof (induction segs arbitrary: t)
  case (Cons seg segs)
  then have ng: "\<not> LossRate seg \<ge> LossGate w" and r: "differing_loop w (t + SegmentCost seg w) segs = Fin r"
    by (auto split: if_splits)
  obtain t1 where t1: "t + SegmentCost seg w = Fin t1" and all: "\<And>t'. differing_loop w (Fin t') segs = Fin (r - t1 + t')"
    using Cons.IH [OF r] by blast
  obtain a b where ab: "t = Fin a" "SegmentCost seg w = Fin b" "t1 = a + b" using t1 by (auto simp: plus_eq_Fin)
  then show ?case using ng all by (auto simp: algebra_simps)
qed auto

lemma differing_loop_append: "differing_loop w t (xs @ ys) = (if segmentsGated xs w then PInf else differing_loop w (differing_loop w t xs) ys)"
  by (induction xs arbitrary: t) (auto simp: segmentsGated_def)

lemma differing_loop_not_gated: "differing_loop w t segs = Fin r \<Longrightarrow> \<not> segmentsGated segs w"
  by (induction segs arbitrary: t) (auto simp: segmentsGated_def split: if_splits)


definition demo_seg :: "real \<Rightarrow> SegmentStats" where
  "demo_seg x = \<lparr>P50Micros = Fin x, P95Micros = Fin x, LossRate = 0, VarianceMicros2 = 0, SampleN = 4, Age = 0, Confidence = 1\<rparr>"

definition demo_path :: "real list \<Rightarrow> PathCandidate" where
  "demo_path xs = \<lparr>EgressID = ''e'', Segments = map demo_seg xs, CapacityFraction = 0\<rparr>"

lemmas cost_eval = demo_path_def demo_seg_def ScorePath_def SegmentCost_def lossPenalty_def DefaultCostWeights_def


section \<open>The migration rule\<close>

lemma f_sqrt_nonneg: "f_sqrt x = NaN \<or> 0 \<le> f_sqrt x"
  by (cases x) auto

text \<open>A bound of an aggregate is NaN or on the right side of the point estimate.\<close>

lemma minus_nonneg_le: "0 \<le> y \<Longrightarrow> x - y = NaN \<or> x - y \<le> (x :: f64)"
  by (cases x; cases y) auto

lemma plus_nonneg_ge: "0 \<le> y \<Longrightarrow> x + y = NaN \<or> (x :: f64) \<le> x + y"
  by (cases x; cases y) auto

lemma segmentCostBound_untrusted:
  "SampleN s = 0 \<or> Confidence s \<le> 0 \<Longrightarrow> segmentCostBound s w z = (SegmentCost s w, NInf, PInf)"
  by (simp add: segmentCostBound_def)

lemma segmentCostBound_point: "fst (segmentCostBound s w z) = SegmentCost s w"
  by (simp add: segmentCostBound_def Let_def)

lemma bounds_loop_Cons:
  "\<exists>acc'. bounds_loop w z acc (s # segs) = bounds_loop w z acc' segs \<and> bPoint acc' = bPoint acc + SegmentCost s w
     \<and> (untrusted acc \<longrightarrow> untrusted acc') \<and> (SampleN s = 0 \<or> Confidence s \<le> 0 \<longrightarrow> untrusted acc')"
proof -
  obtain p l u where b: "segmentCostBound s w z = (p, l, u)" by (cases "segmentCostBound s w z")
  have p: "p = SegmentCost s w" using segmentCostBound_point [of s w z] b by simp
  have t: "SampleN s = 0 \<or> Confidence s \<le> 0 \<Longrightarrow> l = NInf" using segmentCostBound_untrusted [of s w z] b by simp
  show ?thesis
  proof (cases "l = NInf \<or> u = PInf")
    case True
    then show ?thesis by (intro exI [of _ "acc\<lparr>bPoint := bPoint acc + p, untrusted := True\<rparr>"]) (simp add: b p)
  next
    case False
    then show ?thesis using t
      by (intro exI [of _ "acc\<lparr>bPoint := bPoint acc + p, upperSpreadSq := upperSpreadSq acc + (u - p) * (u - p),
            lowerSpreadSq := lowerSpreadSq acc + (p - l) * (p - l)\<rparr>"]) (auto simp: b p)
  qed
qed

lemma bounds_loop_spec:
  "bPoint (bounds_loop w z acc segs) = foldl (\<lambda>t s. t + SegmentCost s w) (bPoint acc) segs
   \<and> (untrusted acc \<longrightarrow> untrusted (bounds_loop w z acc segs))
   \<and> (list_ex (\<lambda>s. SampleN s = 0 \<or> Confidence s \<le> 0) segs \<longrightarrow> untrusted (bounds_loop w z acc segs))"
proof (induction segs arbitrary: acc)
  case (Cons s segs)
  obtain acc' where "bounds_loop w z acc (s # segs) = bounds_loop w z acc' segs" "bPoint acc' = bPoint acc + SegmentCost s w"
     "untrusted acc \<longrightarrow> untrusted acc'" "SampleN s = 0 \<or> Confidence s \<le> 0 \<longrightarrow> untrusted acc'"
    using bounds_loop_Cons by blast
  with Cons.IH [of acc'] show ?case by (auto simp del: bounds_loop.simps)
qed simp

lemma aggregateBounds_spec:
  assumes "aggregateBounds segs w z = (p, l, u)"
  shows "p = foldl (\<lambda>t s. t + SegmentCost s w) 0 segs"
    and "l = NaN \<or> l = NInf \<or> l \<le> p" and "u = NaN \<or> u = PInf \<or> p \<le> u"
    and "list_ex (\<lambda>s. SampleN s = 0 \<or> Confidence s \<le> 0) segs \<Longrightarrow> l = NInf \<and> u = PInf"
    and "p = NaN \<Longrightarrow> (l = NInf \<or> l = NaN) \<and> (u = PInf \<or> u = NaN)"
proof -
  let ?acc = "bounds_loop w z \<lparr>bPoint = 0, upperSpreadSq = 0, lowerSpreadSq = 0, untrusted = False\<rparr> segs"
  note spec = bounds_loop_spec [of w z "\<lparr>bPoint = 0, upperSpreadSq = 0, lowerSpreadSq = 0, untrusted = False\<rparr>" segs]
  have eq: "(p, l, u) = (if untrusted ?acc then (bPoint ?acc, NInf, PInf)
      else (bPoint ?acc, bPoint ?acc - f_sqrt (lowerSpreadSq ?acc), bPoint ?acc + f_sqrt (upperSpreadSq ?acc)))"
    using assms [symmetric] unfolding aggregateBounds_def Let_def .
  then have p: "p = bPoint ?acc" by (simp split: if_splits)
  show "p = foldl (\<lambda>t s. t + SegmentCost s w) 0 segs" using p spec by simp
  show "l = NaN \<or> l = NInf \<or> l \<le> p"
    using eq p f_sqrt_nonneg [of "lowerSpreadSq ?acc"] minus_nonneg_le [of "f_sqrt (lowerSpreadSq ?acc)" p]
    by (auto split: if_splits)
  show "u = NaN \<or> u = PInf \<or> p \<le> u"
    using eq p f_sqrt_nonneg [of "upperSpreadSq ?acc"] plus_nonneg_ge [of "f_sqrt (upperSpreadSq ?acc)" p]
    by (auto split: if_splits)
  show "list_ex (\<lambda>s. SampleN s = 0 \<or> Confidence s \<le> 0) segs \<Longrightarrow> l = NInf \<and> u = PInf"
    using eq spec by simp
  show "p = NaN \<Longrightarrow> (l = NInf \<or> l = NaN) \<and> (u = PInf \<or> u = NaN)"
    using eq p by (auto split: if_splits)
qed

lemma less_minus_imp:
  assumes "t < lA - uB" "lA \<le> pA" "pB \<le> (uB :: f64)"
  shows "lA - uB \<le> pA - pB"
  using assms by (cases lA; cases uB; cases pA; cases pB; simp)

lemma differingCost_eq:
  "differingCost segs w = (if segmentsGated segs w then PInf else foldl (\<lambda>t s. t + SegmentCost s w) 0 segs)"
proof -
  have "differing_loop w t segs = (if segmentsGated segs w then PInf else foldl (\<lambda>t s. t + SegmentCost s w) t segs)" for t
    by (induction segs arbitrary: t) (auto simp: segmentsGated_def)
  then show ?thesis unfolding differingCost_def .
qed

definition measured :: "SegmentStats \<Rightarrow> bool" where
  "measured s \<longleftrightarrow> SampleN s \<noteq> 0 \<and> \<not> Confidence s \<le> 0"

lemma not_all_measured: "\<not> list_all measured segs \<Longrightarrow> list_ex (\<lambda>s. SampleN s = 0 \<or> Confidence s \<le> 0) segs"
  by (induction segs) (auto simp: measured_def)

text \<open>The two sides of a decision: the bounds \<open>DecideMigration\<close> uses for one path.\<close>

definition side :: "SegmentStats list \<Rightarrow> CostWeights \<Rightarrow> f64 \<Rightarrow> f64 \<times> f64 \<times> f64" where
  "side segs cw z = (if segmentsGated segs cw then (PInf, PInf, PInf) else aggregateBounds segs cw z)"

lemma side_spec:
  assumes "side segs cw z = (p, l, u)"
  shows "p = differingCost segs cw"
    and "l = NaN \<or> l = NInf \<or> l \<le> p" "u = NaN \<or> u = PInf \<or> p \<le> u"
    and "u \<noteq> PInf \<Longrightarrow> \<not> segmentsGated segs cw \<and> list_all measured segs"
    and "l \<noteq> NInf \<Longrightarrow> segmentsGated segs cw \<or> list_all measured segs"
proof -
  have g: "segmentsGated segs cw \<Longrightarrow> p = PInf \<and> l = PInf \<and> u = PInf" using assms by (simp add: side_def)
  have ng: "\<not> segmentsGated segs cw \<Longrightarrow> aggregateBounds segs cw z = (p, l, u)" using assms by (simp add: side_def)
  note agg = aggregateBounds_spec [OF ng]
  show "p = differingCost segs cw" using g agg(1) by (simp add: differingCost_eq)
  show "l = NaN \<or> l = NInf \<or> l \<le> p" "u = NaN \<or> u = PInf \<or> p \<le> u" using g agg(2,3) by (cases "segmentsGated segs cw"; auto)+
  show "u \<noteq> PInf \<Longrightarrow> \<not> segmentsGated segs cw \<and> list_all measured segs"
    using g agg(4) not_all_measured by blast
  show "l \<noteq> NInf \<Longrightarrow> segmentsGated segs cw \<or> list_all measured segs"
    using agg(4) not_all_measured by blast
qed

lemma DecideMigration_sides:
  assumes "DecideMigration cur cand k cw dw = Inr d"
  obtains da db pA lA uA pB lB uB where "validateDifferential cur cand k cw = Inr (da, db)"
    "side da cw (ZScore dw) = (pA, lA, uA)" "side db cw (ZScore dw) = (pB, lB, uB)"
    "d = \<lparr>Migrate = lA - uB > MigrationCost dw + SafetyMargin dw,
          Delta = \<lparr>Point = pA - pB, Lower = lA - uB, Upper = uA - lB\<rparr>, Threshold = MigrationCost dw + SafetyMargin dw\<rparr>"
proof -
  obtain da db where v: "validateDifferential cur cand k cw = Inr (da, db)"
    using assms by (auto simp: DecideMigration_def split: sum.splits)
  obtain pA lA uA where a: "side da cw (ZScore dw) = (pA, lA, uA)" by (cases "side da cw (ZScore dw)")
  obtain pB lB uB where b: "side db cw (ZScore dw) = (pB, lB, uB)" by (cases "side db cw (ZScore dw)")
  show thesis
    by (rule that [OF v a b]) (use assms v a b in \<open>simp add: DecideMigration_def side_def Let_def\<close>)
qed

text \<open>
  (C4) A migration needs evidence: whenever \<^verbatim>\<open>DecideMigration\<close> says migrate, the improvement it estimates,
  which is exactly \<^verbatim>\<open>PathDifferential\<close>, exceeds the threshold already at the lower confidence bound;
  the candidate's differing segments are all measured with positive confidence and none is over the
  loss gate; and the current path's are measured too, unless one of them is over the loss gate. This holds for all weights and
  all statistics, infinite and NaN values included.
\<close>

theorem migrate_needs_evidence:
  assumes "DecideMigration cur cand k cw dw = Inr d" "Migrate d"
  shows "\<exists>da db. validateDifferential cur cand k cw = Inr (da, db)
    \<and> Threshold d = MigrationCost dw + SafetyMargin dw \<and> Threshold d < Lower (Delta d)
    \<and> Lower (Delta d) \<le> Point (Delta d) \<and> PathDifferential cur cand k cw = Inr (Point (Delta d))
    \<and> \<not> segmentsGated db cw \<and> list_all measured db \<and> (segmentsGated da cw \<or> list_all measured da)"
  using assms(1)
proof (cases rule: DecideMigration_sides)
  case (1 da db pA lA uA pB lB uB)
  have gt: "MigrationCost dw + SafetyMargin dw < lA - uB" using 1(4) assms(2) by simp
  note A = side_spec [OF 1(2)] and B = side_spec [OF 1(3)]
  have "lA \<noteq> NaN" "lA \<noteq> NInf" "uB \<noteq> NaN" "uB \<noteq> PInf" using gt by auto
  then have le: "lA \<le> pA" "pB \<le> uB" and m: "\<not> segmentsGated db cw" "list_all measured db" "segmentsGated da cw \<or> list_all measured da"
    using A B by auto
  have "lA - uB \<le> pA - pB" by (rule less_minus_imp [OF gt le])
  moreover have "PathDifferential cur cand k cw = Inr (pA - pB)" using 1(1) A(1) B(1) by (simp add: PathDifferential_def)
  ultimately show ?thesis using 1(1,4) gt m by simp
qed

theorem migrate_needs_evidence_witness:
  "\<exists>d. DecideMigration (demo_path [30]) (demo_path [10]) 0 DefaultCostWeights DefaultDecisionWeights = Inr d \<and> Migrate d
    \<and> (\<exists>da db. validateDifferential (demo_path [30]) (demo_path [10]) 0 DefaultCostWeights = Inr (da, db)
    \<and> Threshold d = MigrationCost DefaultDecisionWeights + SafetyMargin DefaultDecisionWeights \<and> Threshold d < Lower (Delta d)
    \<and> Lower (Delta d) \<le> Point (Delta d) \<and> PathDifferential (demo_path [30]) (demo_path [10]) 0 DefaultCostWeights = Inr (Point (Delta d))
    \<and> \<not> segmentsGated db DefaultCostWeights \<and> list_all measured db \<and> (segmentsGated da DefaultCostWeights \<or> list_all measured da))"
proof -
  let ?D = "DecideMigration (demo_path [30]) (demo_path [10]) 0 DefaultCostWeights DefaultDecisionWeights"
  obtain d where d: "?D = Inr d" "Migrate d"
    by (simp add: DecideMigration_def validateDifferential_def cost_eval segmentsGated_def aggregateBounds_def
        segmentCostBound_def clamp01_def of_u64_def DefaultDecisionWeights_def Let_def)
  from migrate_needs_evidence [OF d] d show ?thesis by blast
qed

end
