(* ===== verification/FlapGuard.thy ===== *)
theory FlapGuard
  imports Prelude
begin

text \<open>
  \<^verbatim>\<open>internal/measurement/flapguard.go\<close> and \<^verbatim>\<open>internal/handoff/deadgateway.go\<close>: the guard that lets a
  migration through only after a candidate has qualified without a break for a while, and only if
  neither the last migration nor the current path is too recent. A tick is one call of \<^verbatim>\<open>Evaluate\<close>.
\<close>

section \<open>Model\<close>

record FlapGuardConfig =
  ConfirmationWindow :: duration
  MinResidence :: duration
  Cooldown :: duration

definition DefaultFlapGuardConfig :: FlapGuardConfig where
  "DefaultFlapGuardConfig = \<lparr>ConfirmationWindow = 5 * Second, MinResidence = 30 * Second, Cooldown = 10 * Second\<rparr>"

record FlapGuard =
  fCfg :: FlapGuardConfig
  activeSince :: time
  lastMigrationAt :: time
  haveMigrated :: bool
  pendingCandidate :: string
  pendingSince :: time
  havePending :: bool

definition NewFlapGuard :: "FlapGuardConfig \<Rightarrow> time \<Rightarrow> FlapGuard" where
  "NewFlapGuard cfg now = \<lparr>fCfg = cfg, activeSince = now, lastMigrationAt = 0, haveMigrated = False,
     pendingCandidate = [], pendingSince = 0, havePending = False\<rparr>"

definition Evaluate :: "time \<Rightarrow> bool \<Rightarrow> string \<Rightarrow> FlapGuard \<Rightarrow> bool \<times> FlapGuard" where
  "Evaluate now qualifies candidateID f =
     (if \<not> qualifies then (False, f\<lparr>havePending := False\<rparr>)
      else
        let f = (if \<not> havePending f \<or> pendingCandidate f \<noteq> candidateID
                 then f\<lparr>havePending := True, pendingCandidate := candidateID, pendingSince := now\<rparr> else f)
        in if now - pendingSince f < ConfirmationWindow (fCfg f) then (False, f)
           else if now - activeSince f < MinResidence (fCfg f) then (False, f)
           else if haveMigrated f \<and> now - lastMigrationAt f < Cooldown (fCfg f) then (False, f)
           else (True, f\<lparr>activeSince := now, lastMigrationAt := now, haveMigrated := True, havePending := False\<rparr>))"

definition Pending :: "time \<Rightarrow> FlapGuard \<Rightarrow> (string \<times> duration) option" where
  "Pending now f = (if \<not> havePending f then None else Some (pendingCandidate f, now - pendingSince f))"

definition Residence :: "time \<Rightarrow> FlapGuard \<Rightarrow> duration" where
  "Residence now f = now - activeSince f"

definition ShouldCutover :: "bool \<Rightarrow> time \<Rightarrow> bool \<Rightarrow> string \<Rightarrow> FlapGuard \<Rightarrow> bool \<times> FlapGuard" where
  "ShouldCutover deadGateway now qualifies candidateID flap =
     (if deadGateway then (True, flap) else Evaluate now qualifies candidateID flap)"

section \<open>Sequences of ticks\<close>

record tick =
  tAt :: time
  tOk :: bool
  tCand :: string

fun eval_all :: "FlapGuard \<Rightarrow> tick list \<Rightarrow> bool list \<times> FlapGuard" where
  "eval_all f [] = ([], f)"
| "eval_all f (t # ts) =
     (let (b, f1) = Evaluate (tAt t) (tOk t) (tCand t) f; (bs, f2) = eval_all f1 ts in (b # bs, f2))"

definition approvals :: "FlapGuardConfig \<Rightarrow> time \<Rightarrow> tick list \<Rightarrow> bool list" where
  "approvals cfg start ts = fst (eval_all (NewFlapGuard cfg start) ts)"

lemma eval_all_snoc:
  "eval_all f (ts @ [t]) = (let (bs, f1) = eval_all f ts; (b, f2) = Evaluate (tAt t) (tOk t) (tCand t) f1 in (bs @ [b], f2))"
  by (induction ts arbitrary: f) (auto simp: case_prod_beta Let_def)

lemma length_eval_all [simp]: "length (fst (eval_all f ts)) = length ts"
  by (induction ts arbitrary: f) (auto simp: case_prod_beta Let_def)

lemma length_approvals [simp]: "length (approvals cfg start ts) = length ts"
  by (simp add: approvals_def)

lemma approvals_snoc:
  "approvals cfg start (ts @ [t]) = approvals cfg start ts
     @ [fst (Evaluate (tAt t) (tOk t) (tCand t) (snd (eval_all (NewFlapGuard cfg start) ts)))]"
  by (simp add: approvals_def eval_all_snoc case_prod_beta Let_def)

text \<open>The last approved tick.\<close>

definition lastTrue :: "bool list \<Rightarrow> nat option" where
  "lastTrue bs = find (\<lambda>i. bs ! i) (rev [0..<length bs])"

lemma lastTrue_Nil [simp]: "lastTrue [] = None"
  by (simp add: lastTrue_def)

lemma lastTrue_snoc [simp]: "lastTrue (bs @ [b]) = (if b then Some (length bs) else lastTrue bs)"
proof -
  have "find (\<lambda>i. (bs @ [b]) ! i) (rev [0..<length bs]) = find (\<lambda>i. bs ! i) (rev [0..<length bs])"
    by (rule find_cong) (auto simp: nth_append)
  then show ?thesis by (cases b) (simp_all add: lastTrue_def)
qed

lemma lastTrue_Some:
  "lastTrue bs = Some i \<Longrightarrow> i < length bs \<and> bs ! i \<and> (\<forall>k. i < k \<longrightarrow> k < length bs \<longrightarrow> \<not> bs ! k)"
  by (induction bs rule: rev_induct) (auto simp: nth_append less_Suc_eq split: if_splits)

lemma lastTrue_None: "lastTrue bs = None \<Longrightarrow> k < length bs \<Longrightarrow> \<not> bs ! k"
  by (auto simp: lastTrue_def find_None_iff)

text \<open>What the guard's fields mean in terms of the ticks so far.\<close>

definition confirmed_from :: "tick list \<Rightarrow> nat \<Rightarrow> string \<Rightarrow> bool" where
  "confirmed_from ts j c \<longleftrightarrow> j < length ts \<and> (\<forall>k. j \<le> k \<longrightarrow> k < length ts \<longrightarrow> tOk (ts ! k) \<and> tCand (ts ! k) = c)"

definition pend_inv :: "tick list \<Rightarrow> FlapGuard \<Rightarrow> bool" where
  "pend_inv ts f \<longleftrightarrow> (havePending f \<longrightarrow> (\<exists>j. confirmed_from ts j (pendingCandidate f) \<and> pendingSince f = tAt (ts ! j)))"

definition mig_inv :: "FlapGuardConfig \<Rightarrow> time \<Rightarrow> tick list \<Rightarrow> FlapGuard \<Rightarrow> bool" where
  "mig_inv cfg start ts f \<longleftrightarrow> fCfg f = cfg \<and> (case lastTrue (approvals cfg start ts) of
     None \<Rightarrow> \<not> haveMigrated f \<and> activeSince f = start
   | Some i \<Rightarrow> haveMigrated f \<and> lastMigrationAt f = tAt (ts ! i) \<and> activeSince f = tAt (ts ! i))"

lemma confirmed_from_snoc:
  "confirmed_from ts j c \<Longrightarrow> tOk t \<Longrightarrow> tCand t = c \<Longrightarrow> confirmed_from (ts @ [t]) j c"
  by (auto simp: confirmed_from_def nth_append less_Suc_eq)

lemma confirmed_from_last: "tOk t \<Longrightarrow> confirmed_from (ts @ [t]) (length ts) (tCand t)"
  by (auto simp: confirmed_from_def nth_append less_Suc_eq)

lemma confirmed_from_tAt: "confirmed_from ts j c \<Longrightarrow> tAt ((ts @ [t]) ! j) = tAt (ts ! j)"
  by (simp add: confirmed_from_def nth_append)

text \<open>The candidate under confirmation once a qualifying tick has been recorded.\<close>

lemma Evaluate_pending:
  assumes "pend_inv ts f" "tOk t"
  defines "f1 \<equiv> if \<not> havePending f \<or> pendingCandidate f \<noteq> tCand t
     then f\<lparr>havePending := True, pendingCandidate := tCand t, pendingSince := tAt t\<rparr> else f"
  shows "\<exists>j. confirmed_from (ts @ [t]) j (tCand t) \<and> pendingSince f1 = tAt ((ts @ [t]) ! j)" "pendingCandidate f1 = tCand t"
    "fCfg f1 = fCfg f" "activeSince f1 = activeSince f" "lastMigrationAt f1 = lastMigrationAt f" "haveMigrated f1 = haveMigrated f"
proof -
  show "\<exists>j. confirmed_from (ts @ [t]) j (tCand t) \<and> pendingSince f1 = tAt ((ts @ [t]) ! j)"
  proof (cases "\<not> havePending f \<or> pendingCandidate f \<noteq> tCand t")
    case True
    then show ?thesis using confirmed_from_last [OF assms(2), of ts] by (auto simp: f1_def)
  next
    case False
    then obtain j where "confirmed_from ts j (tCand t)" "pendingSince f = tAt (ts ! j)"
      using assms(1) by (auto simp: pend_inv_def)
    with False show ?thesis
      using confirmed_from_snoc [OF _ assms(2) refl, of ts j] confirmed_from_tAt [of ts j]
      by (intro exI [of _ j]) (simp add: f1_def)
  qed
qed (auto simp: f1_def)

text \<open>What an approval means for the tick that got it.\<close>

definition approval_ok :: "FlapGuardConfig \<Rightarrow> time \<Rightarrow> tick list \<Rightarrow> tick \<Rightarrow> bool" where
  "approval_ok cfg start ts t \<longleftrightarrow>
     (\<exists>j. confirmed_from (ts @ [t]) j (tCand t) \<and> tAt t - tAt ((ts @ [t]) ! j) \<ge> ConfirmationWindow cfg)
     \<and> (case lastTrue (approvals cfg start ts) of
          None \<Rightarrow> tAt t - start \<ge> MinResidence cfg
        | Some i \<Rightarrow> tAt t - tAt (ts ! i) \<ge> Cooldown cfg \<and> tAt t - tAt (ts ! i) \<ge> MinResidence cfg)"

lemma Evaluate_approves:
  assumes inv: "pend_inv ts f" "mig_inv cfg start ts f" and ev: "Evaluate (tAt t) (tOk t) (tCand t) f = (True, f')"
  shows "approval_ok cfg start ts t"
proof -
  have ok: "tOk t" using ev by (auto simp: Evaluate_def split: if_splits)
  let ?f1 = "if \<not> havePending f \<or> pendingCandidate f \<noteq> tCand t
     then f\<lparr>havePending := True, pendingCandidate := tCand t, pendingSince := tAt t\<rparr> else f"
  note p = Evaluate_pending [OF inv(1) ok]
  have cfg: "fCfg f = cfg" using inv(2) by (simp add: mig_inv_def)
  have g: "ConfirmationWindow cfg \<le> tAt t - pendingSince ?f1" "MinResidence cfg \<le> tAt t - activeSince f"
    "haveMigrated f \<Longrightarrow> Cooldown cfg \<le> tAt t - lastMigrationAt f"
    using ev ok cfg by (auto simp: Evaluate_def Let_def split: if_splits)
  have "\<exists>j. confirmed_from (ts @ [t]) j (tCand t) \<and> tAt t - tAt ((ts @ [t]) ! j) \<ge> ConfirmationWindow cfg"
    using p(1) g(1) by metis
  then show ?thesis using g(2,3) inv(2) by (auto simp: approval_ok_def mig_inv_def split: option.splits)
qed

lemma Evaluate_inv:
  assumes inv: "pend_inv ts f" "mig_inv cfg start ts f" and ev: "Evaluate (tAt t) (tOk t) (tCand t) f = (b, f')"
    and app: "approvals cfg start (ts @ [t]) = approvals cfg start ts @ [b]"
  shows "pend_inv (ts @ [t]) f'" "mig_inv cfg start (ts @ [t]) f'"
proof -
  have last: "tAt ((ts @ [t]) ! i) = tAt (ts ! i)" if "lastTrue (approvals cfg start ts) = Some i" for i
    using lastTrue_Some [OF that] by (simp add: nth_append)
  have same: "mig_inv cfg start (ts @ [t]) f2" if "\<not> b" "fCfg f2 = fCfg f" "activeSince f2 = activeSince f"
    "lastMigrationAt f2 = lastMigrationAt f" "haveMigrated f2 = haveMigrated f" for f2
    using inv(2) that last by (auto simp: mig_inv_def app split: option.splits)
  have "pend_inv (ts @ [t]) f' \<and> mig_inv cfg start (ts @ [t]) f'"
  proof (cases "tOk t")
    case False
    then have "f' = f\<lparr>havePending := False\<rparr>" "\<not> b" using ev by (auto simp: Evaluate_def)
    then show ?thesis using same by (simp add: pend_inv_def)
  next
    case True
    let ?f1 = "if \<not> havePending f \<or> pendingCandidate f \<noteq> tCand t
       then f\<lparr>havePending := True, pendingCandidate := tCand t, pendingSince := tAt t\<rparr> else f"
    note p = Evaluate_pending [OF inv(1) True]
    show ?thesis
    proof (cases b)
      case True
      then have "f' = ?f1\<lparr>activeSince := tAt t, lastMigrationAt := tAt t, haveMigrated := True, havePending := False\<rparr>"
        using ev \<open>tOk t\<close> by (auto simp: Evaluate_def Let_def split: if_splits)
      then show ?thesis using True p(3) inv(2) by (simp add: pend_inv_def mig_inv_def app nth_append)
    next
      case False
      then have f': "f' = ?f1" using ev \<open>tOk t\<close> by (auto simp: Evaluate_def Let_def split: if_splits)
      have "pend_inv (ts @ [t]) ?f1" using p(1,2) unfolding pend_inv_def by simp
      moreover have "mig_inv cfg start (ts @ [t]) ?f1" by (rule same [OF False p(3-6)])
      ultimately show ?thesis unfolding f' by (rule conjI)
    qed
  qed
  then show "pend_inv (ts @ [t]) f'" "mig_inv cfg start (ts @ [t]) f'" by simp_all
qed

lemma guard_inv_run:
  "pend_inv ts (snd (eval_all (NewFlapGuard cfg start) ts)) \<and> mig_inv cfg start ts (snd (eval_all (NewFlapGuard cfg start) ts))"
proof (induction ts rule: rev_induct)
  case Nil
  then show ?case by (simp add: pend_inv_def mig_inv_def approvals_def NewFlapGuard_def)
next
  case (snoc t ts)
  let ?f = "snd (eval_all (NewFlapGuard cfg start) ts)"
  obtain b f' where ev: "Evaluate (tAt t) (tOk t) (tCand t) ?f = (b, f')" by fastforce
  have "approvals cfg start (ts @ [t]) = approvals cfg start ts @ [b]" by (simp add: approvals_snoc ev)
  then have "pend_inv (ts @ [t]) f' \<and> mig_inv cfg start (ts @ [t]) f'"
    using Evaluate_inv [OF _ _ ev] snoc by blast
  then show ?case using ev by (simp add: eval_all_snoc case_prod_beta Let_def)
qed

lemma approvals_take: "i \<le> length ts \<Longrightarrow> approvals cfg start (take i ts) = take i (approvals cfg start ts)"
proof -
  have "fst (eval_all f (xs @ ys)) = fst (eval_all f xs) @ fst (eval_all (snd (eval_all f xs)) ys)" for f xs ys
    by (induction xs arbitrary: f) (auto simp: case_prod_beta Let_def)
  from this [of "NewFlapGuard cfg start" "take i ts" "drop i ts"] show "i \<le> length ts \<Longrightarrow> ?thesis"
    by (simp add: approvals_def)
qed

lemma approval_at:
  assumes "i < length ts" "approvals cfg start ts ! i"
  shows "approval_ok cfg start (take i ts) (ts ! i)"
proof -
  let ?f = "snd (eval_all (NewFlapGuard cfg start) (take i ts))"
  have "take (Suc i) ts = take i ts @ [ts ! i]" using assms(1) by (simp add: take_Suc_conv_app_nth)
  then have "approvals cfg start (take i ts @ [ts ! i]) ! i = approvals cfg start ts ! i"
    using approvals_take [of "Suc i" ts cfg start] assms(1) by simp
  then have "fst (Evaluate (tAt (ts ! i)) (tOk (ts ! i)) (tCand (ts ! i)) ?f)"
    using assms by (simp add: approvals_snoc nth_append)
  then obtain f' where "Evaluate (tAt (ts ! i)) (tOk (ts ! i)) (tCand (ts ! i)) ?f = (True, f')"
    by (metis prod.collapse)
  then show ?thesis using Evaluate_approves guard_inv_run by blast
qed

section \<open>Properties\<close>

text \<open>
  (C7) Migrations are spaced: between two consecutive approvals at least \<open>Cooldown\<close> and at least
  \<open>MinResidence\<close> have passed, whatever the ticks in between said; the first approval comes at least
  \<open>MinResidence\<close> after the guard was created.
\<close>

theorem approvals_spaced:
  assumes "j < length ts" "approvals cfg start ts ! j"
  shows "case lastTrue (take j (approvals cfg start ts)) of
      None \<Rightarrow> tAt (ts ! j) - start \<ge> MinResidence cfg
    | Some i \<Rightarrow> i < j \<and> approvals cfg start ts ! i \<and> tAt (ts ! j) - tAt (ts ! i) \<ge> max (Cooldown cfg) (MinResidence cfg)"
proof -
  have ok: "approval_ok cfg start (take j ts) (ts ! j)" by (rule approval_at [OF assms])
  have eq: "approvals cfg start (take j ts) = take j (approvals cfg start ts)" using assms(1) by (simp add: approvals_take)
  have "i < j \<and> take j ts ! i = ts ! i \<and> approvals cfg start ts ! i" if "lastTrue (take j (approvals cfg start ts)) = Some i" for i
    using lastTrue_Some [OF that] assms(1) by auto
  then show ?thesis using ok unfolding approval_ok_def eq by (auto split: option.splits)
qed

definition demo_ticks :: "tick list" where
  "demo_ticks = [\<lparr>tAt = 3, tOk = True, tCand = ''b''\<rparr>, \<lparr>tAt = 9, tOk = True, tCand = ''b''\<rparr>]"

definition demo_cfg :: FlapGuardConfig where
  "demo_cfg = \<lparr>ConfirmationWindow = 5, MinResidence = 8, Cooldown = 4\<rparr>"

lemmas flap_eval = demo_ticks_def demo_cfg_def approvals_def NewFlapGuard_def Evaluate_def

theorem approvals_spaced_witness:
  "case lastTrue (take 1 (approvals demo_cfg 0 demo_ticks)) of
      None \<Rightarrow> tAt (demo_ticks ! 1) - 0 \<ge> MinResidence demo_cfg
    | Some i \<Rightarrow> i < 1 \<and> approvals demo_cfg 0 demo_ticks ! i \<and> tAt (demo_ticks ! 1) - tAt (demo_ticks ! i) \<ge> max (Cooldown demo_cfg) (MinResidence demo_cfg)"
  by (rule approvals_spaced) (simp_all add: flap_eval)

text \<open>
  (C8) No approval without continuous confirmation: an approved tick ends an unbroken run of ticks that
  all qualified for the same candidate, and the run started at least \<open>ConfirmationWindow\<close> earlier.
\<close>

theorem approvals_confirmed:
  assumes "i < length ts" "approvals cfg start ts ! i"
  shows "\<exists>j \<le> i. tAt (ts ! i) - tAt (ts ! j) \<ge> ConfirmationWindow cfg
    \<and> list_all (\<lambda>t. tOk t \<and> tCand t = tCand (ts ! i)) (drop j (take (Suc i) ts))"
proof -
  have sn: "take i ts @ [ts ! i] = take (Suc i) ts" using assms(1) by (simp add: take_Suc_conv_app_nth)
  obtain j where j: "confirmed_from (take (Suc i) ts) j (tCand (ts ! i))" "tAt (ts ! i) - tAt (take (Suc i) ts ! j) \<ge> ConfirmationWindow cfg"
    using approval_at [OF assms] unfolding approval_ok_def sn by blast
  have "j \<le> i" using j(1) assms(1) by (simp add: confirmed_from_def)
  moreover have "list_all (\<lambda>t. tOk t \<and> tCand t = tCand (ts ! i)) (drop j (take (Suc i) ts))"
    unfolding list_all_length
  proof (intro allI impI)
    fix n assume "n < length (drop j (take (Suc i) ts))"
    then have "j + n < length (take (Suc i) ts)" unfolding length_drop by linarith
    then show "tOk (drop j (take (Suc i) ts) ! n) \<and> tCand (drop j (take (Suc i) ts) ! n) = tCand (ts ! i)"
      using j(1) by (simp add: confirmed_from_def)
  qed
  ultimately show ?thesis using j(2) by (intro exI [of _ j]) simp
qed

theorem approvals_confirmed_witness:
  "\<exists>j \<le> 1. tAt (demo_ticks ! 1) - tAt (demo_ticks ! j) \<ge> ConfirmationWindow demo_cfg
    \<and> list_all (\<lambda>t. tOk t \<and> tCand t = tCand (demo_ticks ! 1)) (drop j (take (Suc 1) demo_ticks))"
  by (rule approvals_confirmed [where start = 0]) (simp_all add: flap_eval)

lemma pending_from_start:
  assumes "ts \<noteq> []" "list_all (\<lambda>t. tOk t \<and> tCand t = c) ts" "lastTrue (approvals cfg start ts) = None"
  defines "f \<equiv> snd (eval_all (NewFlapGuard cfg start) ts)"
  shows "havePending f \<and> pendingCandidate f = c \<and> pendingSince f = tAt (ts ! 0)"
  using assms(1-3) unfolding f_def
proof (induction ts rule: rev_induct)
  case (snoc t ts)
  let ?f = "snd (eval_all (NewFlapGuard cfg start) ts)"
  obtain b f' where ev: "Evaluate (tAt t) (tOk t) (tCand t) ?f = (b, f')" by fastforce
  have t: "tOk t" "tCand t = c" using snoc.prems(2) by auto
  have nb: "\<not> b" "lastTrue (approvals cfg start ts) = None"
    using snoc.prems(3) ev by (simp_all add: approvals_snoc split: if_splits)
  have "havePending f' \<and> pendingCandidate f' = c \<and> pendingSince f' = tAt ((ts @ [t]) ! 0)"
  proof (cases "ts = []")
    case True
    then show ?thesis using ev t nb(1) by (auto simp: Evaluate_def NewFlapGuard_def Let_def split: if_splits)
  next
    case False
    then have "havePending ?f \<and> pendingCandidate ?f = c \<and> pendingSince ?f = tAt (ts ! 0)" using snoc nb(2) by simp
    then show ?thesis using ev t nb(1) False by (auto simp: Evaluate_def nth_append Let_def split: if_splits)
  qed
  then show ?case using ev by (simp add: eval_all_snoc case_prod_beta Let_def)
qed simp

text \<open>
  (C9) A steady improvement gets through: if every tick qualifies for one candidate, and by the last
  tick \<open>ConfirmationWindow\<close> has passed since the first tick and \<open>MinResidence\<close> since the guard was created, then
  some tick was approved.
\<close>

theorem steady_candidate_approved:
  assumes "ts \<noteq> []" "list_all (\<lambda>t. tOk t \<and> tCand t = c) ts"
    and "tAt (last ts) - tAt (hd ts) \<ge> ConfirmationWindow cfg" "tAt (last ts) - start \<ge> MinResidence cfg"
  shows "True \<in> set (approvals cfg start ts)"
proof (rule ccontr)
  assume no: "\<not> ?thesis"
  then have none: "lastTrue (approvals cfg start ts) = None"
    using lastTrue_Some nth_mem by (metis (full_types) not_None_eq)
  obtain ts0 t where ts: "ts = ts0 @ [t]" using assms(1) by (metis append_butlast_last_id)
  let ?f = "snd (eval_all (NewFlapGuard cfg start) ts0)"
  obtain b f' where ev: "Evaluate (tAt t) (tOk t) (tCand t) ?f = (b, f')" by fastforce
  have t: "tOk t" "tCand t = c" using assms(2) ts by auto
  have nb: "\<not> b" "lastTrue (approvals cfg start ts0) = None"
    using none ev unfolding ts by (simp_all add: approvals_snoc split: if_splits)
  have m: "\<not> haveMigrated ?f" "activeSince ?f = start" "fCfg ?f = cfg"
    using guard_inv_run [of ts0 cfg start] nb(2) by (simp_all add: mig_inv_def)
  have "b"
  proof (cases "ts0 = []")
    case True
    then show ?thesis using ev t m assms(3,4) ts by (auto simp: Evaluate_def NewFlapGuard_def Let_def split: if_splits)
  next
    case False
    then have "havePending ?f \<and> pendingCandidate ?f = c \<and> pendingSince ?f = tAt (ts0 ! 0)"
      using pending_from_start [of ts0 c cfg start] assms(2) nb(2) ts by simp
    then show ?thesis using ev t m assms(3,4) ts False
      by (auto simp: Evaluate_def Let_def hd_append hd_conv_nth split: if_splits)
  qed
  with nb(1) show False by simp
qed

theorem steady_candidate_approved_witness: "True \<in> set (approvals demo_cfg 0 demo_ticks)"
  by (rule steady_candidate_approved [where c = "''b''"]) (simp_all add: demo_ticks_def demo_cfg_def)

end
