(* ===== verification/Policy.thy ===== *)
theory Policy
  imports Store Cost FlapGuard
begin

text \<open>
  \<^verbatim>\<open>internal/control/policy.go\<close>: the versioned policy document and its place in the store. A float is
  written as a JSON number, so an infinite or NaN weight makes \<^verbatim>\<open>Marshal\<close> fail; nested structs decode
  into the value already there, as \<^verbatim>\<open>encoding/json\<close> does.
\<close>

section \<open>Model\<close>

record PolicyDocument =
  pVersion :: u64
  pCost :: CostWeights
  pDecision :: DecisionWeights
  pFlapGuard :: FlapGuardConfig

definition DefaultPolicyDocument :: PolicyDocument where
  "DefaultPolicyDocument = \<lparr>pVersion = 0, pCost = DefaultCostWeights, pDecision = DefaultDecisionWeights,
     pFlapGuard = DefaultFlapGuardConfig\<rparr>"

definition NextVersion :: "PolicyDocument \<Rightarrow> PolicyDocument" where
  "NextVersion doc = doc\<lparr>pVersion := pVersion doc + 1\<rparr>"

definition policyKey :: string where "policyKey = ''/egressa/policy/current''"

datatype policyErr = PolicyJson jsonErr | UnsupportedValue | PolicyStore storeErr

definition j_f64 :: "f64 \<Rightarrow> json option" where
  "j_f64 x = (case x of Fin r \<Rightarrow> Some (JReal r) | _ \<Rightarrow> None)"

definition read_f64 :: "json \<Rightarrow> f64 option" where
  "read_f64 j = (case j of JReal r \<Rightarrow> Some (Fin r) | JInt i \<Rightarrow> Some (Fin (of_int i)) | _ \<Rightarrow> None)"

fun j_all :: "(string \<times> json option) list \<Rightarrow> (string \<times> json) list option" where
  "j_all [] = Some []"
| "j_all ((k, v) # kvs) = (case v of None \<Rightarrow> None | Some j \<Rightarrow> (case j_all kvs of None \<Rightarrow> None | Some r \<Rightarrow> Some ((k, j) # r)))"

definition MarshalPolicy :: "PolicyDocument \<Rightarrow> policyErr + raw" where
  "MarshalPolicy doc =
     (let c = pCost doc; d = pDecision doc; f = pFlapGuard doc;
          cost = j_all [(''TailWeight'', j_f64 (TailWeight c)), (''LossWeight'', j_f64 (LossWeight c)),
                   (''LossGate'', j_f64 (LossGate c)), (''MaxCapacityFraction'', j_f64 (MaxCapacityFraction c))];
          dcs = j_all [(''Z'', j_f64 (ZScore d)), (''MigrationCost'', j_f64 (MigrationCost d)), (''SafetyMargin'', j_f64 (SafetyMargin d))]
      in case cost of None \<Rightarrow> Inl UnsupportedValue | Some cost \<Rightarrow>
         case dcs of None \<Rightarrow> Inl UnsupportedValue | Some dcs \<Rightarrow>
         Inr (RawJson (JObj [(''version'', JInt (uint (pVersion doc))), (''cost'', JObj cost), (''decision'', JObj dcs),
           (''flap_guard'', JObj [(''ConfirmationWindow'', JInt (ConfirmationWindow f)), (''MinResidence'', JInt (MinResidence f)),
             (''Cooldown'', JInt (Cooldown f))])])))"

text \<open>A field whose value is decoded into the one it already has; a nested struct is one.\<close>

definition field_into :: "('a \<Rightarrow> json \<Rightarrow> 'a option) \<Rightarrow> 'a \<Rightarrow> string \<Rightarrow> (string \<times> json) list \<Rightarrow> jsonErr + 'a" where
  "field_into rd old name kvs = foldl (\<lambda>acc (k, v).
     if key_match k name then
       (case acc of Inl e \<Rightarrow> Inl e
        | Inr x \<Rightarrow> (if v = JNull then acc else (case rd x v of None \<Rightarrow> Inl (TypeError name) | Some y \<Rightarrow> Inr y)))
     else acc) (Inr old) kvs"

definition ok_opt :: "jsonErr + 'a \<Rightarrow> 'a option" where
  "ok_opt r = (case r of Inl _ \<Rightarrow> None | Inr x \<Rightarrow> Some x)"

definition read_CostWeights :: "CostWeights \<Rightarrow> json \<Rightarrow> CostWeights option" where
  "read_CostWeights old j = (case j of JObj kvs \<Rightarrow> ok_opt (
      case field read_f64 (TailWeight old) ''TailWeight'' kvs of Inl e \<Rightarrow> Inl e | Inr a \<Rightarrow>
      case field read_f64 (LossWeight old) ''LossWeight'' kvs of Inl e \<Rightarrow> Inl e | Inr b \<Rightarrow>
      case field read_f64 (LossGate old) ''LossGate'' kvs of Inl e \<Rightarrow> Inl e | Inr c \<Rightarrow>
      case field read_f64 (MaxCapacityFraction old) ''MaxCapacityFraction'' kvs of Inl e \<Rightarrow> Inl e | Inr d \<Rightarrow>
      Inr \<lparr>TailWeight = a, LossWeight = b, LossGate = c, MaxCapacityFraction = d\<rparr>)
    | _ \<Rightarrow> None)"

definition read_DecisionWeights :: "DecisionWeights \<Rightarrow> json \<Rightarrow> DecisionWeights option" where
  "read_DecisionWeights old j = (case j of JObj kvs \<Rightarrow> ok_opt (
      case field read_f64 (ZScore old) ''Z'' kvs of Inl e \<Rightarrow> Inl e | Inr a \<Rightarrow>
      case field read_f64 (MigrationCost old) ''MigrationCost'' kvs of Inl e \<Rightarrow> Inl e | Inr b \<Rightarrow>
      case field read_f64 (SafetyMargin old) ''SafetyMargin'' kvs of Inl e \<Rightarrow> Inl e | Inr c \<Rightarrow>
      Inr \<lparr>ZScore = a, MigrationCost = b, SafetyMargin = c\<rparr>)
    | _ \<Rightarrow> None)"

definition read_FlapGuardConfig :: "FlapGuardConfig \<Rightarrow> json \<Rightarrow> FlapGuardConfig option" where
  "read_FlapGuardConfig old j = (case j of JObj kvs \<Rightarrow> ok_opt (
      case field read_int64 (ConfirmationWindow old) ''ConfirmationWindow'' kvs of Inl e \<Rightarrow> Inl e | Inr a \<Rightarrow>
      case field read_int64 (MinResidence old) ''MinResidence'' kvs of Inl e \<Rightarrow> Inl e | Inr b \<Rightarrow>
      case field read_int64 (Cooldown old) ''Cooldown'' kvs of Inl e \<Rightarrow> Inl e | Inr c \<Rightarrow>
      Inr \<lparr>ConfirmationWindow = a, MinResidence = b, Cooldown = c\<rparr>)
    | _ \<Rightarrow> None)"

definition zeroPolicy :: PolicyDocument where
  "zeroPolicy = \<lparr>pVersion = 0, pCost = \<lparr>TailWeight = 0, LossWeight = 0, LossGate = 0, MaxCapacityFraction = 0\<rparr>,
     pDecision = \<lparr>ZScore = 0, MigrationCost = 0, SafetyMargin = 0\<rparr>,
     pFlapGuard = \<lparr>ConfirmationWindow = 0, MinResidence = 0, Cooldown = 0\<rparr>\<rparr>"

definition Policy_fields :: "(string \<times> json) list \<Rightarrow> jsonErr + PolicyDocument" where
  "Policy_fields kvs =
     (case field read_uint 0 ''version'' kvs of Inl e \<Rightarrow> Inl e | Inr v \<Rightarrow>
      case field_into read_CostWeights (pCost zeroPolicy) ''cost'' kvs of Inl e \<Rightarrow> Inl e | Inr c \<Rightarrow>
      case field_into read_DecisionWeights (pDecision zeroPolicy) ''decision'' kvs of Inl e \<Rightarrow> Inl e | Inr d \<Rightarrow>
      case field_into read_FlapGuardConfig (pFlapGuard zeroPolicy) ''flap_guard'' kvs of Inl e \<Rightarrow> Inl e | Inr f \<Rightarrow>
      Inr \<lparr>pVersion = v, pCost = c, pDecision = d, pFlapGuard = f\<rparr>)"

definition UnmarshalPolicy :: "raw \<Rightarrow> policyErr + PolicyDocument" where
  "UnmarshalPolicy data = (case Unmarshal Policy_fields data of Inl e \<Rightarrow> Inl (PolicyJson e) | Inr doc \<Rightarrow> Inr doc)"

definition PS_Set :: "'s kvops \<Rightarrow> PolicyDocument \<Rightarrow> 's \<Rightarrow> policyErr option \<times> 's" where
  "PS_Set ops doc s =
     (case MarshalPolicy doc of
        Inl e \<Rightarrow> (Some e, s)
      | Inr data \<Rightarrow> (case kPut ops policyKey data s of
            (Some e, s') \<Rightarrow> (Some (PolicyStore e), s')
          | (None, s') \<Rightarrow> (None, s')))"

definition PS_Get :: "'s kvops \<Rightarrow> 's \<Rightarrow> policyErr + PolicyDocument" where
  "PS_Get ops s =
     (case kGet ops policyKey s of
        Inl e \<Rightarrow> Inl (PolicyStore e)
      | Inr None \<Rightarrow> Inr DefaultPolicyDocument
      | Inr (Some data) \<Rightarrow> UnmarshalPolicy data)"

definition PS_Watch :: "Event list \<Rightarrow> PolicyDocument list" where
  "PS_Watch evs = List.map_filter (\<lambda>ev.
     if eDeleted ev then None
     else case UnmarshalPolicy (eValue ev) of Inl _ \<Rightarrow> None | Inr doc \<Rightarrow> Some doc) evs"

section \<open>Properties\<close>

definition duration_ok :: "duration \<Rightarrow> bool" where
  "duration_ok d \<longleftrightarrow> - (2 ^ 63) \<le> d \<and> d < 2 ^ 63"

text \<open>Documents \<^verbatim>\<open>Marshal\<close> accepts: finite weights, durations of 64 bits.\<close>

definition policy_ok :: "PolicyDocument \<Rightarrow> bool" where
  "policy_ok doc \<longleftrightarrow>
     list_all isFin [TailWeight (pCost doc), LossWeight (pCost doc), LossGate (pCost doc), MaxCapacityFraction (pCost doc),
       ZScore (pDecision doc), MigrationCost (pDecision doc), SafetyMargin (pDecision doc)]
     \<and> list_all duration_ok [ConfirmationWindow (pFlapGuard doc), MinResidence (pFlapGuard doc), Cooldown (pFlapGuard doc)]"

lemmas policy_keys = field_def field_into_def field_step_def key_match_def fold_char_def ok_opt_def

lemma read_CostWeights_obj:
  "read_CostWeights old (JObj [(''TailWeight'', JReal a), (''LossWeight'', JReal b), (''LossGate'', JReal c), (''MaxCapacityFraction'', JReal d)])
   = Some \<lparr>TailWeight = Fin a, LossWeight = Fin b, LossGate = Fin c, MaxCapacityFraction = Fin d\<rparr>"
  by (simp add: read_CostWeights_def policy_keys read_f64_def)

lemma read_DecisionWeights_obj:
  "read_DecisionWeights old (JObj [(''Z'', JReal a), (''MigrationCost'', JReal b), (''SafetyMargin'', JReal c)])
   = Some \<lparr>ZScore = Fin a, MigrationCost = Fin b, SafetyMargin = Fin c\<rparr>"
  by (simp add: read_DecisionWeights_def policy_keys read_f64_def)

lemma read_FlapGuardConfig_obj:
  "duration_ok a \<Longrightarrow> duration_ok b \<Longrightarrow> duration_ok c \<Longrightarrow>
   read_FlapGuardConfig old (JObj [(''ConfirmationWindow'', JInt a), (''MinResidence'', JInt b), (''Cooldown'', JInt c)])
   = Some \<lparr>ConfirmationWindow = a, MinResidence = b, Cooldown = c\<rparr>"
  by (simp add: read_FlapGuardConfig_def policy_keys duration_ok_def)

lemma Policy_fields_obj:
  assumes "\<And>old. read_CostWeights old (JObj jc) = Some c" "\<And>old. read_DecisionWeights old (JObj jd) = Some d"
    "\<And>old. read_FlapGuardConfig old (JObj jf) = Some f"
  shows "Policy_fields [(''version'', JInt (uint (v :: u64))), (''cost'', JObj jc), (''decision'', JObj jd), (''flap_guard'', JObj jf)]
    = Inr \<lparr>pVersion = v, pCost = c, pDecision = d, pFlapGuard = f\<rparr>"
  using assms by (simp add: Policy_fields_def policy_keys)

lemma policy_codec:
  assumes "policy_ok doc"
  shows "\<exists>data. MarshalPolicy doc = Inr data \<and> UnmarshalPolicy data = Inr doc"
proof -
  obtain a b c d z m s where f: "TailWeight (pCost doc) = Fin a" "LossWeight (pCost doc) = Fin b" "LossGate (pCost doc) = Fin c"
    "MaxCapacityFraction (pCost doc) = Fin d" "ZScore (pDecision doc) = Fin z" "MigrationCost (pDecision doc) = Fin m"
    "SafetyMargin (pDecision doc) = Fin s"
    using assms by (auto simp: policy_ok_def elim!: isFinE)
  have dur: "duration_ok (ConfirmationWindow (pFlapGuard doc))" "duration_ok (MinResidence (pFlapGuard doc))" "duration_ok (Cooldown (pFlapGuard doc))"
    using assms by (auto simp: policy_ok_def)
  note dec = Policy_fields_obj [OF read_CostWeights_obj read_DecisionWeights_obj read_FlapGuardConfig_obj [OF dur]]
  have "\<lparr>pVersion = pVersion doc, pCost = \<lparr>TailWeight = Fin a, LossWeight = Fin b, LossGate = Fin c, MaxCapacityFraction = Fin d\<rparr>,
      pDecision = \<lparr>ZScore = Fin z, MigrationCost = Fin m, SafetyMargin = Fin s\<rparr>,
      pFlapGuard = \<lparr>ConfirmationWindow = ConfirmationWindow (pFlapGuard doc), MinResidence = MinResidence (pFlapGuard doc), Cooldown = Cooldown (pFlapGuard doc)\<rparr>\<rparr> = doc"
    by (simp flip: f)
  then show ?thesis by (simp add: MarshalPolicy_def UnmarshalPolicy_def f j_f64_def dec Let_def)
qed

text \<open> What is set is what is read: any policy with finite weights and 64-bit durations can be stored,
  and reading the policy back from the store then returns it unchanged, field by field; before any is
  set the default policy is returned.
\<close>

theorem policy_set_get:
  assumes "mem_inv s" "policy_ok doc"
  shows "\<exists>s'. PS_Set mem_ops doc s = (None, s') \<and> mem_inv s' \<and> PS_Get mem_ops s' = Inr doc
    \<and> PS_Get mem_ops NewMemStore = Inr DefaultPolicyDocument"
proof -
  obtain data where d: "MarshalPolicy doc = Inr data" "UnmarshalPolicy data = Inr doc" using policy_codec [OF assms(2)] by blast
  let ?s = "notify \<lparr>eKey = policyKey, eValue = data, eDeleted = False\<rparr> (mem_write policyKey data s)"
  have "mem_Get policyKey ?s = Inr (Some data)" by (simp add: mem_Get_def mem_write_def)
  moreover have "mem_Get policyKey NewMemStore = Inr None" by (simp add: mem_Get_def NewMemStore_def)
  ultimately show ?thesis
    using d assms(1) mem_inv_write by (simp add: PS_Set_def PS_Get_def mem_ops_def mem_Put_def)
qed

theorem policy_set_get_witness:
  "\<exists>s'. PS_Set mem_ops (NextVersion DefaultPolicyDocument) NewMemStore = (None, s') \<and> mem_inv s'
    \<and> PS_Get mem_ops s' = Inr (NextVersion DefaultPolicyDocument) \<and> PS_Get mem_ops NewMemStore = Inr DefaultPolicyDocument"
  by (rule policy_set_get) (simp_all add: policy_ok_def duration_ok_def NextVersion_def DefaultPolicyDocument_def
      DefaultCostWeights_def DefaultDecisionWeights_def DefaultFlapGuardConfig_def Second_def)

end
