(* ===== verification/Failover.thy ===== *)
theory Failover
  imports Ownership Policy
begin

text \<open>
  \<^verbatim>\<open>internal/control/cache.go\<close> and \<^verbatim>\<open>failover.go\<close>: the gateway's local copy of the control state, and how it keeps
  serving sessions while the controller is unreachable. \<open>FailoverController\<close> pairs the cache with the
  ownership service; each operation takes the cache and the store and returns both.
\<close>

section \<open>The cache\<close>

record LocalEpoch =
  Global :: u64
  Local :: u64

definition LocalEpoch_Less :: "LocalEpoch \<Rightarrow> LocalEpoch \<Rightarrow> bool" where
  "LocalEpoch_Less e other \<longleftrightarrow> (if Global e \<noteq> Global other then Global e < Global other else Local e < Local other)"

record cachedSession =
  csRecord :: OwnershipRecord
  csEpoch :: LocalEpoch
  csUpdatedAt :: time

record ConfigCache =
  ccSessions :: "(string, cachedSession) gomap"
  ccPolicy :: PolicyDocument
  ccHavePolicy :: bool

definition NewConfigCache :: ConfigCache where
  "NewConfigCache = \<lparr>ccSessions = [], ccPolicy = zeroPolicy, ccHavePolicy = False\<rparr>"

definition StoreOwnership :: "OwnershipRecord \<Rightarrow> time \<Rightarrow> ConfigCache \<Rightarrow> ConfigCache" where
  "StoreOwnership rec now c =
     c\<lparr>ccSessions := mput (oSession rec)
        \<lparr>csRecord = rec, csEpoch = \<lparr>Global = oEpoch rec, Local = 0\<rparr>, csUpdatedAt = now\<rparr> (ccSessions c)\<rparr>"

definition cache_Ownership :: "string \<Rightarrow> time \<Rightarrow> ConfigCache \<Rightarrow> (OwnershipRecord \<times> LocalEpoch \<times> duration) option" where
  "cache_Ownership session now c =
     (case mget (ccSessions c) session of
        None \<Rightarrow> None
      | Some cs \<Rightarrow> Some (csRecord cs, csEpoch cs, now - csUpdatedAt cs))"

definition zeroCached :: cachedSession where
  "zeroCached = \<lparr>csRecord = \<lparr>oSession = [], oAccess = [], oEgress = [], oEpoch = 0\<rparr>,
     csEpoch = \<lparr>Global = 0, Local = 0\<rparr>, csUpdatedAt = 0\<rparr>"

definition bumpLocal :: "string \<Rightarrow> OwnershipRecord \<Rightarrow> time \<Rightarrow> ConfigCache \<Rightarrow> LocalEpoch \<times> ConfigCache" where
  "bumpLocal session rec now c =
     (let cs = (case mget (ccSessions c) session of None \<Rightarrow> zeroCached | Some cs \<Rightarrow> cs);
          cs = cs\<lparr>csRecord := rec, csEpoch := (csEpoch cs)\<lparr>Local := Local (csEpoch cs) + 1\<rparr>, csUpdatedAt := now\<rparr>
      in (csEpoch cs, c\<lparr>ccSessions := mput session cs (ccSessions c)\<rparr>))"

definition StorePolicy :: "PolicyDocument \<Rightarrow> ConfigCache \<Rightarrow> ConfigCache" where
  "StorePolicy doc c = c\<lparr>ccPolicy := doc, ccHavePolicy := True\<rparr>"

definition cache_Policy :: "ConfigCache \<Rightarrow> PolicyDocument" where
  "cache_Policy c = (if \<not> ccHavePolicy c then DefaultPolicyDocument else ccPolicy c)"

section \<open>The failover controller\<close>

datatype failErr = ErrSessionNotCached | FailOwn ownErr

definition Refresh :: "'s kvops \<Rightarrow> string \<Rightarrow> time \<Rightarrow> ConfigCache \<Rightarrow> 's \<Rightarrow> failErr option \<times> ConfigCache" where
  "Refresh ops session now c s =
     (case OS_Get ops session s of
        Inl e \<Rightarrow> (Some (FailOwn e), c)
      | Inr None \<Rightarrow> (None, c)
      | Inr (Some rec) \<Rightarrow> (None, StoreOwnership rec now c))"

definition Forward :: "string \<Rightarrow> time \<Rightarrow> ConfigCache \<Rightarrow> (string \<times> LocalEpoch) option" where
  "Forward session now c =
     (case cache_Ownership session now c of None \<Rightarrow> None | Some (rec, ep, _) \<Rightarrow> Some (oEgress rec, ep))"

text \<open>The result is \<^verbatim>\<open>(applied, deferred)\<close>.\<close>

definition AttemptPlannedMigration ::
  "'s kvops \<Rightarrow> string \<Rightarrow> string \<Rightarrow> time \<Rightarrow> ConfigCache \<Rightarrow> 's \<Rightarrow> (failErr + bool \<times> bool) \<times> ConfigCache \<times> 's" where
  "AttemptPlannedMigration ops session newEgress now c s =
     (case cache_Ownership session now c of
        None \<Rightarrow> (Inl ErrSessionNotCached, c, s)
      | Some (rec, _, _) \<Rightarrow>
          let cand = NextEpoch newEgress rec in
          case SetIfNewer ops cand s of
            (Inl _, s') \<Rightarrow> (Inr (False, True), c, s')
          | (Inr False, s') \<Rightarrow> (Inr (False, False), snd (Refresh ops session now c s'), s')
          | (Inr True, s') \<Rightarrow> (Inr (True, False), StoreOwnership cand now c, s'))"

definition EmergencyFailover :: "string \<Rightarrow> string \<Rightarrow> time \<Rightarrow> ConfigCache \<Rightarrow> (failErr + LocalEpoch) \<times> ConfigCache" where
  "EmergencyFailover session newEgress now c =
     (case cache_Ownership session now c of
        None \<Rightarrow> (Inl ErrSessionNotCached, c)
      | Some (rec, _, _) \<Rightarrow>
          let rec = rec\<lparr>oEgress := newEgress\<rparr>; (ep, c) = bumpLocal session rec now c in (Inr ep, c))"

definition Reconcile :: "'s kvops \<Rightarrow> string \<Rightarrow> time \<Rightarrow> ConfigCache \<Rightarrow> 's \<Rightarrow> (failErr + bool) \<times> ConfigCache \<times> 's" where
  "Reconcile ops session now c s =
     (case cache_Ownership session now c of
        None \<Rightarrow> (Inl ErrSessionNotCached, c, s)
      | Some (cached, localEpoch, _) \<Rightarrow>
          case OS_Get ops session s of
            Inl e \<Rightarrow> (Inl (FailOwn e), c, s)
          | Inr remote \<Rightarrow>
              if (case remote of None \<Rightarrow> False | Some current \<Rightarrow> oEpoch current > Global localEpoch)
              then (Inr False, StoreOwnership (the remote) now c, s)
              else if Local localEpoch = 0 then (Inr False, c, s)
              else
                let cand = NextEpoch (oEgress cached) cached in
                case SetIfNewer ops cand s of
                  (Inl e, s') \<Rightarrow> (Inl (FailOwn e), c, s')
                | (Inr False, s') \<Rightarrow> (Inr False, snd (Refresh ops session now c s'), s')
                | (Inr True, s') \<Rightarrow> (Inr True, StoreOwnership cand now c, s'))"

section \<open>Invariant\<close>

text \<open>
  A cached session is filed under its own name, is a valid record and carries the record's epoch as
  its global part. Every operation keeps this.
\<close>

definition entry_ok :: "string \<Rightarrow> cachedSession \<Rightarrow> bool" where
  "entry_ok k cs \<longleftrightarrow> oSession (csRecord cs) = k \<and> Validate (csRecord cs) = None \<and> Global (csEpoch cs) = oEpoch (csRecord cs)"

definition cache_ok :: "ConfigCache \<Rightarrow> bool" where
  "cache_ok c \<longleftrightarrow> (\<forall>k cs. mget (ccSessions c) k = Some cs \<longrightarrow> entry_ok k cs)"

lemma cache_ok_Store: "cache_ok c \<Longrightarrow> Validate rec = None \<Longrightarrow> cache_ok (StoreOwnership rec now c)"
  by (simp add: cache_ok_def StoreOwnership_def entry_ok_def)

lemma Ownership_Store [simp]:
  "cache_Ownership s now' (StoreOwnership rec now c) =
     (if s = oSession rec then Some (rec, \<lparr>Global = oEpoch rec, Local = 0\<rparr>, now' - now) else cache_Ownership s now' c)"
  by (simp add: cache_Ownership_def StoreOwnership_def)

lemma Forward_Store [simp]:
  "Forward s now' (StoreOwnership rec now c) =
     (if s = oSession rec then Some (oEgress rec, \<lparr>Global = oEpoch rec, Local = 0\<rparr>) else Forward s now' c)"
  by (simp add: Forward_def)

lemma cache_okD:
  "cache_ok c \<Longrightarrow> cache_Ownership s now c = Some (rec, ep, age) \<Longrightarrow> oSession rec = s \<and> Validate rec = None \<and> Global ep = oEpoch rec"
  by (auto simp: cache_ok_def cache_Ownership_def entry_ok_def split: option.splits)

lemma Validate_NextEpoch: "Validate r = None \<Longrightarrow> g \<noteq> [] \<Longrightarrow> Validate (NextEpoch g r) = None"
  by (auto simp: Validate_def NextEpoch_def split: if_splits)

lemma NextEpoch_sel [simp]: "oSession (NextEpoch g r) = oSession r" "oEpoch (NextEpoch g r) = oEpoch r + 1"
  "oEgress (NextEpoch g r) = g" "oAccess (NextEpoch g r) = oAccess r"
  by (simp_all add: NextEpoch_def)

lemma OS_Get_valid: "OS_Get ops sid s = Inr (Some rec) \<Longrightarrow> Validate rec = None"
  by (auto simp: OS_Get_def dest: Unmarshal_valid split: sum.splits option.splits)

lemma OS_Get_session:
  assumes "mem_inv m" "sessions_ok (mem_look m)" "OS_Get mem_ops sid m = Inr (Some x)"
  shows "oSession x = sid"
proof -
  obtain v r where "mem_look m (SessionKey sid) = Some (v, r)" "UnmarshalOwnership v = Inr x"
    using assms(3) mem.OS_Get_look [OF assms(1,2), of sid] by (auto split: option.splits sum.splits)
  then show ?thesis using assms(2) unfolding sessions_ok_def by (metis Inr_inject)
qed

text \<open>\<open>SetIfNewer\<close> on MemStore, as a case rule.\<close>

lemma SetIfNewer_mem_cases:
  assumes "mem_inv m" "sessions_ok (mem_look m)" "Validate rec = None"
  obtains (applied) m' where "SetIfNewer mem_ops rec m = (Inr True, m')" "mem_inv m'" "sessions_ok (mem_look m')"
      "OS_Get mem_ops (oSession rec) m' = Inr (Some rec)"
      "\<And>cur. OS_Get mem_ops (oSession rec) m = Inr (Some cur) \<Longrightarrow> oEpoch cur < oEpoch rec"
  | (refused) cur where "SetIfNewer mem_ops rec m = (Inr False, m)" "OS_Get mem_ops (oSession rec) m = Inr (Some cur)"
      "oEpoch rec \<le> oEpoch cur"
proof -
  obtain found where f: "OS_Get mem_ops (oSession rec) m = Inr found"
    using mem.OS_Get_look [OF assms(1,2)] by blast
  note seq = mem.SetIfNewer_seq [OF assms, unfolded f]
  show thesis
  proof (cases found)
    case None
    with seq f show thesis using applied by auto
  next
    case (Some cur)
    with seq f show thesis using applied refused [of cur] by (auto simp: not_le split: if_splits)
  qed
qed

section \<open>Properties\<close>

text \<open> Forwarding survives a controller outage: an emergency failover needs no store at all, moves
  the session to the new egress at once, keeps the global epoch and raises only the local one, so the
  new local epoch is strictly newer; other sessions are untouched.
\<close>

theorem emergency_failover_is_local:
  assumes "cache_Ownership session now0 c = Some (rec, ep, age)" "Local ep + 1 \<noteq> 0"
  shows "\<exists>ep' c'. EmergencyFailover session g now c = (Inr ep', c') \<and> Forward session now' c' = Some (g, ep')
    \<and> Global ep' = Global ep \<and> LocalEpoch_Less ep ep'
    \<and> cache_Ownership session now' c' = Some (rec\<lparr>oEgress := g\<rparr>, ep', now' - now)
    \<and> map_of (ccSessions c') = (map_of (ccSessions c))(session := map_of (ccSessions c') session)"
proof -
  obtain cs where cs: "mget (ccSessions c) session = Some cs" "rec = csRecord cs" "ep = csEpoch cs"
    using assms(1) by (auto simp: cache_Ownership_def split: option.splits)
  have "Local ep < Local ep + 1" using assms(2) unatSuc [of "Local ep"] by (simp add: word_less_nat_alt add.commute)
  then show ?thesis
    using cs by (auto simp: EmergencyFailover_def cache_Ownership_def bumpLocal_def Let_def Forward_def LocalEpoch_Less_def)
qed

definition demo_cache :: ConfigCache where
  "demo_cache = StoreOwnership \<lparr>oSession = ''7'', oAccess = ''a'', oEgress = ''b'', oEpoch = 4\<rparr> 10 NewConfigCache"

theorem emergency_failover_is_local_witness:
  "let rec = \<lparr>oSession = ''7'', oAccess = ''a'', oEgress = ''b'', oEpoch = 4\<rparr>; ep = \<lparr>Global = 4, Local = 0\<rparr> in
   \<exists>ep' c'. EmergencyFailover ''7'' ''z'' 20 demo_cache = (Inr ep', c') \<and> Forward ''7'' 30 c' = Some (''z'', ep')
    \<and> Global ep' = Global ep \<and> LocalEpoch_Less ep ep'
    \<and> cache_Ownership ''7'' 30 c' = Some (rec\<lparr>oEgress := ''z''\<rparr>, ep', 30 - 20)
    \<and> map_of (ccSessions c') = (map_of (ccSessions demo_cache))(''7'' := map_of (ccSessions c') ''7'')"
proof -
  have "cache_Ownership ''7'' 10 demo_cache = Some (\<lparr>oSession = ''7'', oAccess = ''a'', oEgress = ''b'', oEpoch = 4\<rparr>, \<lparr>Global = 4, Local = 0\<rparr>, 0)"
    by (simp add: demo_cache_def)
  from emergency_failover_is_local [OF this, of "''z''" 20 30] show ?thesis unfolding Let_def by simp
qed

lemma Refresh_Some:
  "OS_Get ops session s = Inr (Some rec) \<Longrightarrow> Refresh ops session now c s = (None, StoreOwnership rec now c)"
  by (simp add: Refresh_def)

text \<open>
  (C12) Reconciliation converges: once the store is reachable again, reconciling a session that failed
  over locally ends with cache and store in agreement and the local counter back at zero. Either
  the emergency egress was published one epoch above the cached one, or the store already held a
  record at least that new, which the cache adopts and the store keeps.
\<close>

theorem reconcile_converges:
  assumes "mem_inv m" "sessions_ok (mem_look m)" "cache_ok c"
    and "cache_Ownership session now c = Some (rec, ep, age)" "Local ep \<noteq> 0"
  shows "\<exists>applied c' m' cur. Reconcile mem_ops session now c m = (Inr applied, c', m')
    \<and> OS_Get mem_ops session m' = Inr (Some cur)
    \<and> cache_Ownership session now c' = Some (cur, \<lparr>Global = oEpoch cur, Local = 0\<rparr>, 0)
    \<and> cur = (if applied then NextEpoch (oEgress rec) rec else cur)
    \<and> (applied \<or> (m' = m \<and> (oEpoch rec < oEpoch cur \<or> oEpoch rec + 1 \<le> oEpoch cur)))"
proof -
  have rec: "oSession rec = session" "Validate rec = None" "Global ep = oEpoch rec" using cache_okD [OF assms(3,4)] by simp_all
  obtain remote where rm: "OS_Get mem_ops session m = Inr remote" using mem.OS_Get_look [OF assms(1,2)] by blast
  note sess = OS_Get_session [OF assms(1,2)]
  show ?thesis
  proof (cases "case remote of None \<Rightarrow> False | Some current \<Rightarrow> oEpoch current > oEpoch rec")
    case True
    then obtain current where cur: "remote = Some current" "oEpoch rec < oEpoch current" by (auto split: option.splits)
    then have "Reconcile mem_ops session now c m = (Inr False, StoreOwnership current now c, m)"
      using rm rec(3) by (simp add: Reconcile_def assms(4))
    then show ?thesis using cur rm sess [of session current] by (intro exI [of _ False]) auto
  next
    case False
    let ?cand = "NextEpoch (oEgress rec) rec"
    have "oEgress rec \<noteq> []" using rec(2) by (auto simp: Validate_def split: if_splits)
    then have v: "Validate ?cand = None" by (rule Validate_NextEpoch [OF rec(2)])
    have R: "Reconcile mem_ops session now c m = (case SetIfNewer mem_ops ?cand m of
        (Inl e, s') \<Rightarrow> (Inl (FailOwn e), c, s')
      | (Inr False, s') \<Rightarrow> (Inr False, snd (Refresh mem_ops session now c s'), s')
      | (Inr True, s') \<Rightarrow> (Inr True, StoreOwnership ?cand now c, s'))"
      using False [folded rec(3)] rm assms(5) by (simp add: Reconcile_def assms(4) Let_def)
    from assms(1,2) v show ?thesis
    proof (cases rule: SetIfNewer_mem_cases)
      case (applied m')
      then show ?thesis using R rec(1) by (intro exI [of _ True]) simp
    next
      case (refused cur)
      then have "Reconcile mem_ops session now c m = (Inr False, StoreOwnership cur now c, m)"
        using R rec(1) by (simp add: Refresh_Some)
      then show ?thesis using refused rec(1) sess [of session cur] by (intro exI [of _ False]) auto
    qed
  qed
qed

theorem reconcile_converges_witness:
  "let c = snd (EmergencyFailover ''7'' ''z'' 20 demo_cache); rec = \<lparr>oSession = ''7'', oAccess = ''a'', oEgress = ''z'', oEpoch = 4\<rparr> in
   \<exists>applied c' m' cur. Reconcile mem_ops ''7'' 20 c NewMemStore = (Inr applied, c', m')
    \<and> OS_Get mem_ops ''7'' m' = Inr (Some cur)
    \<and> cache_Ownership ''7'' 20 c' = Some (cur, \<lparr>Global = oEpoch cur, Local = 0\<rparr>, 0)
    \<and> cur = (if applied then NextEpoch (oEgress rec) rec else cur)
    \<and> (applied \<or> (m' = NewMemStore \<and> (oEpoch rec < oEpoch cur \<or> oEpoch rec + 1 \<le> oEpoch cur)))"
  unfolding Let_def
proof (rule reconcile_converges [where ep = "\<lparr>Global = 4, Local = 1\<rparr>" and age = 0])
  let ?c = "snd (EmergencyFailover ''7'' ''z'' 20 demo_cache)"
  have c: "ccSessions ?c = [(''7'', \<lparr>csRecord = \<lparr>oSession = ''7'', oAccess = ''a'', oEgress = ''z'', oEpoch = 4\<rparr>,
      csEpoch = \<lparr>Global = 4, Local = 1\<rparr>, csUpdatedAt = 20\<rparr>)]"
    by (simp add: EmergencyFailover_def demo_cache_def StoreOwnership_def NewConfigCache_def cache_Ownership_def bumpLocal_def Let_def)
  then show "cache_ok ?c" by (simp add: cache_ok_def entry_ok_def Validate_def)
  from c show "cache_Ownership ''7'' 20 ?c = Some (\<lparr>oSession = ''7'', oAccess = ''a'', oEgress = ''z'', oEpoch = 4\<rparr>, \<lparr>Global = 4, Local = 1\<rparr>, 0)"
    by (simp add: cache_Ownership_def)
qed simp_all

text \<open> A planned migration either happens everywhere or not at all: if it is applied, store and cache
  both hold the session at the new egress one epoch up; if another writer was ahead, the store is
  unchanged and the cache takes over the store's record; on a working store nothing is deferred.
\<close>

theorem planned_migration_outcome:
  assumes "mem_inv m" "sessions_ok (mem_look m)" "cache_ok c" "g \<noteq> []"
    and "cache_Ownership session now c = Some (rec, ep, age)"
  shows "\<exists>applied c' m' cur. AttemptPlannedMigration mem_ops session g now c m = (Inr (applied, False), c', m')
    \<and> OS_Get mem_ops session m' = Inr (Some cur)
    \<and> Forward session now c' = Some (oEgress cur, \<lparr>Global = oEpoch cur, Local = 0\<rparr>)
    \<and> (if applied then cur = NextEpoch g rec else m' = m \<and> oEpoch rec + 1 \<le> oEpoch cur)"
proof -
  have rec: "oSession rec = session" "Validate rec = None" using cache_okD [OF assms(3,5)] by simp_all
  have v: "Validate (NextEpoch g rec) = None" by (rule Validate_NextEpoch [OF rec(2) assms(4)])
  note sess = OS_Get_session [OF assms(1,2)]
  from assms(1,2) v show ?thesis
  proof (cases rule: SetIfNewer_mem_cases)
    case (applied m')
    then show ?thesis using rec(1) by (intro exI [of _ True]) (simp add: AttemptPlannedMigration_def assms(5) Let_def)
  next
    case (refused cur)
    then show ?thesis using rec(1) sess [of session cur]
      by (intro exI [of _ False]) (simp add: AttemptPlannedMigration_def assms(5) Let_def Refresh_Some)
  qed
qed

theorem planned_migration_outcome_witness:
  "\<exists>applied c' m' cur. AttemptPlannedMigration mem_ops ''7'' ''z'' 20 demo_cache NewMemStore = (Inr (applied, False), c', m')
    \<and> OS_Get mem_ops ''7'' m' = Inr (Some cur)
    \<and> Forward ''7'' 20 c' = Some (oEgress cur, \<lparr>Global = oEpoch cur, Local = 0\<rparr>)
    \<and> (if applied then cur = NextEpoch ''z'' \<lparr>oSession = ''7'', oAccess = ''a'', oEgress = ''b'', oEpoch = 4\<rparr>
       else m' = NewMemStore \<and> oEpoch \<lparr>oSession = ''7'', oAccess = ''a'', oEgress = ''b'', oEpoch = 4\<rparr> + 1 \<le> oEpoch cur)"
  by (rule planned_migration_outcome [where ep = "\<lparr>Global = 4, Local = 0\<rparr>" and age = 10])
     (simp_all add: demo_cache_def cache_ok_def StoreOwnership_def NewConfigCache_def entry_ok_def Validate_def cache_Ownership_def)

end
