(* ===== verification/Handoff.thy ===== *)
theory Handoff
  imports Failover Reorder
begin

text \<open>
  Package \<^verbatim>\<open>internal/handoff\<close>: arming a standby access gateway (\<^verbatim>\<open>armer.go\<close>), committing the cutover
  (\<^verbatim>\<open>cutover.go\<close>), draining the old gateway (\<^verbatim>\<open>drain.go\<close>) and rolling back (\<^verbatim>\<open>rollback.go\<close>). The armer's
  methods hold its mutex, so its history is a list of whole operations (\<open>aop\<close>).
\<close>

section \<open>The armer\<close>

datatype ArmPhase = PhaseIdle | PhasePrepare | PhaseReady

definition ArmPhase_String :: "ArmPhase \<Rightarrow> string" where
  "ArmPhase_String p = (case p of PhaseIdle \<Rightarrow> ''idle'' | PhasePrepare \<Rightarrow> ''prepare'' | PhaseReady \<Rightarrow> ''ready'')"

record AccessState =
  asSessionID :: string
  asVirtualIP :: string
  asSeqHighWater :: u64

datatype handErr = ErrSessionMismatch | ErrStaleEpoch | ErrNoArmInProgress | ErrEpochMismatch
  | EmptySessionID | EmptyVirtualIP | ErrNotReady | HandOwn ownErr

definition AccessState_Validate :: "AccessState \<Rightarrow> handErr option" where
  "AccessState_Validate s =
     (if asSessionID s = [] then Some EmptySessionID
      else if asVirtualIP s = [] then Some EmptyVirtualIP
      else None)"

record armEntry =
  aPhase :: ArmPhase
  targetEpoch :: u64
  aState :: AccessState
  armedAt :: time

record StandbyArmer =
  arms :: "(string, armEntry) gomap"

definition NewStandbyArmer :: StandbyArmer where "NewStandbyArmer = \<lparr>arms = []\<rparr>"

definition Prepare :: "string \<Rightarrow> u64 \<Rightarrow> AccessState \<Rightarrow> time \<Rightarrow> StandbyArmer \<Rightarrow> handErr option \<times> StandbyArmer" where
  "Prepare session currentEp state now a =
     (if asSessionID state \<noteq> session then (Some ErrSessionMismatch, a)
      else case AccessState_Validate state of Some e \<Rightarrow> (Some e, a) | None \<Rightarrow>
        let target = currentEp + 1; existing = mget (arms a) session in
        if (case existing of None \<Rightarrow> False | Some x \<Rightarrow> target < targetEpoch x) then (Some ErrStaleEpoch, a)
        else
          let phase = (case existing of None \<Rightarrow> PhasePrepare
                | Some x \<Rightarrow> if target = targetEpoch x \<and> aPhase x = PhaseReady then PhaseReady else PhasePrepare)
          in (None, a\<lparr>arms := mput session \<lparr>aPhase = phase, targetEpoch = target, aState = state, armedAt = now\<rparr> (arms a)\<rparr>))"

definition MarkReady :: "string \<Rightarrow> u64 \<Rightarrow> StandbyArmer \<Rightarrow> handErr option \<times> StandbyArmer" where
  "MarkReady session ep a =
     (case mget (arms a) session of
        None \<Rightarrow> (Some ErrNoArmInProgress, a)
      | Some existing \<Rightarrow>
          if aPhase existing = PhaseIdle then (Some ErrNoArmInProgress, a)
          else if targetEpoch existing \<noteq> ep then (Some ErrEpochMismatch, a)
          else (None, a\<lparr>arms := mput session (existing\<lparr>aPhase := PhaseReady\<rparr>) (arms a)\<rparr>))"

definition ConsumeReady :: "string \<Rightarrow> u64 \<Rightarrow> StandbyArmer \<Rightarrow> AccessState option \<times> StandbyArmer" where
  "ConsumeReady session ep a =
     (case mget (arms a) session of
        None \<Rightarrow> (None, a)
      | Some e \<Rightarrow> if aPhase e \<noteq> PhaseReady \<or> targetEpoch e \<noteq> ep then (None, a)
                 else (Some (aState e), a\<lparr>arms := mdel session (arms a)\<rparr>))"

definition Reset :: "string \<Rightarrow> StandbyArmer \<Rightarrow> StandbyArmer" where
  "Reset session a = a\<lparr>arms := mdel session (arms a)\<rparr>"

definition Phase :: "string \<Rightarrow> StandbyArmer \<Rightarrow> ArmPhase" where
  "Phase session a = (case mget (arms a) session of None \<Rightarrow> PhaseIdle | Some e \<Rightarrow> aPhase e)"

definition Snapshot :: "string \<Rightarrow> StandbyArmer \<Rightarrow> (u64 \<times> AccessState \<times> ArmPhase \<times> time) option" where
  "Snapshot session a =
     (case mget (arms a) session of None \<Rightarrow> None | Some e \<Rightarrow> Some (targetEpoch e, aState e, aPhase e, armedAt e))"

section \<open>Cutover, drain, rollback\<close>

record CutoverResult =
  crSession :: string
  crOldAccess :: string
  crNewAccess :: string
  crEgress :: string
  crEpoch :: u64
  crState :: AccessState
  crCommittedAt :: time

text \<open>\<^const>\<open>None\<close> in the result is \<^verbatim>\<open>ok = false\<close> with no error: another writer won.\<close>

definition Cutover ::
  "'s kvops \<Rightarrow> string \<Rightarrow> string \<Rightarrow> OwnershipRecord \<Rightarrow> time \<Rightarrow> StandbyArmer \<Rightarrow> 's
   \<Rightarrow> (handErr + CutoverResult option) \<times> StandbyArmer \<times> 's" where
  "Cutover ops session newAccess current now a s =
     (let wantEpoch = oEpoch current + 1 in
      case ConsumeReady session wantEpoch a of
        (None, a) \<Rightarrow> (Inl ErrNotReady, a, s)
      | (Some state, a) \<Rightarrow>
          let cand = NextAccessEpoch newAccess current in
          case SetIfNewer ops cand s of
            (Inl e, s) \<Rightarrow> (Inl (HandOwn e), a, s)
          | (Inr False, s) \<Rightarrow> (Inr None, a, s)
          | (Inr True, s) \<Rightarrow>
              (Inr (Some \<lparr>crSession = session, crOldAccess = oAccess current, crNewAccess = newAccess, crEgress = oEgress cand,
                 crEpoch = oEpoch cand, crState = state, crCommittedAt = now\<rparr>), a, s))"

definition DrainOldGateway :: "string \<Rightarrow> Receiver \<Rightarrow> (string \<times> Packet list) \<times> Receiver" where
  "DrainOldGateway session r = (let (stuck, r) = Close r in ((session, stuck), r))"

definition Rollback :: "string \<Rightarrow> StandbyArmer \<Rightarrow> (string \<times> bool) \<times> StandbyArmer" where
  "Rollback session a = ((session, Snapshot session a \<noteq> None), Reset session a)"

section \<open>Histories of an armer\<close>

datatype aop = APrepare string u64 AccessState time | AMarkReady string u64 | AConsume string u64 | AReset string

definition astep :: "aop \<Rightarrow> StandbyArmer \<Rightarrow> StandbyArmer" where
  "astep op a = (case op of
     APrepare s e st t \<Rightarrow> snd (Prepare s e st t a)
   | AMarkReady s e \<Rightarrow> snd (MarkReady s e a)
   | AConsume s e \<Rightarrow> snd (ConsumeReady s e a)
   | AReset s \<Rightarrow> Reset s a)"

definition arun :: "aop list \<Rightarrow> StandbyArmer" where
  "arun ops = fold astep ops NewStandbyArmer"

lemma arun_snoc: "arun (ops @ [op]) = astep op (arun ops)"
  by (simp add: arun_def)

text \<open>Where an entry comes from.\<close>

definition justified :: "aop list \<Rightarrow> string \<Rightarrow> armEntry \<Rightarrow> bool" where
  "justified ops s e \<longleftrightarrow> asSessionID (aState e) = s \<and> AccessState_Validate (aState e) = None
     \<and> (\<exists>cur t. APrepare s cur (aState e) t \<in> set ops \<and> targetEpoch e = cur + 1)
     \<and> aPhase e \<noteq> PhaseIdle
     \<and> (aPhase e = PhaseReady \<longrightarrow> AMarkReady s (targetEpoch e) \<in> set ops)"

lemma justified_mono: "justified ops s e \<Longrightarrow> justified (ops @ [op]) s e"
  by (auto simp: justified_def)

lemma justified_run: "mget (arms (arun ops)) s = Some e \<Longrightarrow> justified ops s e"
proof (induction ops arbitrary: s e rule: rev_induct)
  case Nil
  then show ?case by (simp add: arun_def NewStandbyArmer_def)
next
  case (snoc op ops)
  let ?a = "arun ops"
  have old: "justified (ops @ [op]) s e" if "mget (arms ?a) s = Some e" for s e
    using justified_mono [OF snoc.IH [OF that]] .
  show ?case
  proof (cases op)
    case (APrepare s' cur st t)
    note op = APrepare
    show ?thesis
    proof (cases "mget (arms (snd (Prepare s' cur st t ?a))) s = mget (arms ?a) s")
      case True
      then show ?thesis using snoc.prems old by (simp add: arun_snoc astep_def op)
    next
      case False
      then have ok: "asSessionID st = s'" "AccessState_Validate st = None" "s' = s"
        and e: "e = \<lparr>aPhase = (case mget (arms ?a) s' of None \<Rightarrow> PhasePrepare
                | Some x \<Rightarrow> if cur + 1 = targetEpoch x \<and> aPhase x = PhaseReady then PhaseReady else PhasePrepare),
              targetEpoch = cur + 1, aState = st, armedAt = t\<rparr>"
        using snoc.prems by (auto simp: arun_snoc astep_def op Prepare_def Let_def split: if_splits option.splits)
      show ?thesis
      proof (cases "mget (arms ?a) s'")
        case None
        then show ?thesis using ok e op by (auto simp: justified_def)
      next
        case (Some x)
        then show ?thesis using ok e op snoc.IH [OF Some] by (auto simp: justified_def)
      qed
    qed
  next
    case (AMarkReady s' ep)
    note op = AMarkReady
    show ?thesis
    proof (cases "mget (arms (snd (MarkReady s' ep ?a))) s = mget (arms ?a) s")
      case True
      then show ?thesis using snoc.prems old by (simp add: arun_snoc astep_def op)
    next
      case False
      then obtain x where "mget (arms ?a) s = Some x" "s' = s" "targetEpoch x = ep" "e = x\<lparr>aPhase := PhaseReady\<rparr>"
        using snoc.prems by (auto simp: arun_snoc astep_def op MarkReady_def split: if_splits option.splits)
      then show ?thesis using snoc.IH [of s x] op by (auto simp: justified_def)
    qed
  next
    case (AConsume s' ep)
    then have "mget (arms ?a) s = Some e"
      using snoc.prems by (auto simp: arun_snoc astep_def ConsumeReady_def split: if_splits option.splits)
    then show ?thesis by (rule old)
  next
    case (AReset s')
    then have "mget (arms ?a) s = Some e"
      using snoc.prems by (auto simp: arun_snoc astep_def Reset_def split: if_splits)
    then show ?thesis by (rule old)
  qed
qed

text \<open>
  (C6) No handoff without a handshake: if consuming the ready arm of a session at an epoch succeeds,
  then that session was prepared with exactly the state handed out, for exactly that epoch, and was
  marked ready for that epoch; the state names the session and is complete. The arm is gone
  afterwards, so it cannot be consumed twice, and other sessions keep theirs.
\<close>

theorem consume_needs_prepare_and_ready:
  assumes "ConsumeReady s ep (arun ops) = (Some st, a')"
  shows "asSessionID st = s \<and> AccessState_Validate st = None
    \<and> (\<exists>cur t. APrepare s cur st t \<in> set ops \<and> ep = cur + 1) \<and> AMarkReady s ep \<in> set ops
    \<and> ConsumeReady s ep' a' = (None, a') \<and> map_of (arms a') = (map_of (arms (arun ops)))(s := None)"
proof -
  obtain e where e: "mget (arms (arun ops)) s = Some e" "aPhase e = PhaseReady" "targetEpoch e = ep" "st = aState e"
    "a' = (arun ops)\<lparr>arms := mdel s (arms (arun ops))\<rparr>"
    using assms by (auto simp: ConsumeReady_def split: option.splits if_splits)
  show ?thesis
    using justified_run [OF e(1)] e(2-5) by (auto simp: justified_def ConsumeReady_def)
qed

definition demo_state :: AccessState where
  "demo_state = \<lparr>asSessionID = ''7'', asVirtualIP = ''10.0.0.2'', asSeqHighWater = 9\<rparr>"

definition demo_arm :: "aop list" where
  "demo_arm = [APrepare ''7'' 4 demo_state 1, AMarkReady ''7'' 5]"

lemma demo_arm_run: "arms (arun demo_arm) = [(''7'', \<lparr>aPhase = PhaseReady, targetEpoch = 5, aState = demo_state, armedAt = 1\<rparr>)]"
  by (simp add: demo_arm_def arun_def astep_def Prepare_def MarkReady_def demo_state_def AccessState_Validate_def NewStandbyArmer_def)

theorem consume_needs_prepare_and_ready_witness:
  "let a' = (arun demo_arm)\<lparr>arms := []\<rparr> in
   asSessionID demo_state = ''7'' \<and> AccessState_Validate demo_state = None
    \<and> (\<exists>cur t. APrepare ''7'' cur demo_state t \<in> set demo_arm \<and> 5 = cur + 1) \<and> AMarkReady ''7'' 5 \<in> set demo_arm
    \<and> ConsumeReady ''7'' 5 a' = (None, a') \<and> map_of (arms a') = (map_of (arms (arun demo_arm)))(''7'' := None)"
  unfolding Let_def
  by (rule consume_needs_prepare_and_ready) (simp add: ConsumeReady_def demo_arm_run)

section \<open>Committing\<close>

lemma Validate_NextAccess: "Validate r = None \<Longrightarrow> g \<noteq> [] \<Longrightarrow> Validate (NextAccessEpoch g r) = None"
  by (auto simp: Validate_def NextAccessEpoch_def split: if_splits)

lemma NextAccess_sel [simp]: "oSession (NextAccessEpoch g r) = oSession r" "oEpoch (NextAccessEpoch g r) = oEpoch r + 1"
  "oEgress (NextAccessEpoch g r) = oEgress r" "oAccess (NextAccessEpoch g r) = g"
  by (simp_all add: NextAccessEpoch_def)

text \<open>
  (C5) What a cutover commits: with a ready arm for the epoch after the current record's, the cutover
  either publishes the record with the new access gateway, the same egress and that epoch, and
  returns the transferred state, or finds a record at least that new and changes nothing in the store;
  without such an arm it refuses and touches neither the arms nor the store. A successful attempt uses up the arm.
\<close>

theorem cutover_commits_next_epoch:
  assumes "mem_inv m" "sessions_ok (mem_look m)" "Validate current = None" "newAccess \<noteq> []"
  shows "case fst (ConsumeReady session (oEpoch current + 1) a) of
      None \<Rightarrow> Cutover mem_ops session newAccess current now a m = (Inl ErrNotReady, a, m)
    | Some st \<Rightarrow> (\<exists>res m'. Cutover mem_ops session newAccess current now a m = (Inr res, Reset session a, m')
        \<and> (case res of
             None \<Rightarrow> m' = m \<and> (\<exists>cur. OS_Get mem_ops (oSession current) m = Inr (Some cur) \<and> oEpoch current + 1 \<le> oEpoch cur)
           | Some r \<Rightarrow> OS_Get mem_ops (oSession current) m' = Inr (Some (current\<lparr>oAccess := newAccess, oEpoch := oEpoch current + 1\<rparr>))
               \<and> crState r = st \<and> crEpoch r = oEpoch current + 1 \<and> crEgress r = oEgress current
               \<and> crOldAccess r = oAccess current \<and> crNewAccess r = newAccess))"
proof (cases "ConsumeReady session (oEpoch current + 1) a")
  case (Pair so a')
  show ?thesis
  proof (cases so)
    case None
    then have "a' = a" using Pair by (auto simp: ConsumeReady_def split: option.splits if_splits)
    then show ?thesis using Pair None by (simp add: Cutover_def)
  next
    case (Some st)
    then have a': "a' = Reset session a" using Pair by (auto simp: ConsumeReady_def Reset_def split: option.splits if_splits)
    from assms(1,2) Validate_NextAccess [OF assms(3,4)] show ?thesis
    proof (cases rule: SetIfNewer_mem_cases)
      case (applied m')
      then show ?thesis using Pair Some a' by (simp add: Cutover_def Let_def NextAccessEpoch_def)
    next
      case (refused cur)
      then show ?thesis using Pair Some a' by (simp add: Cutover_def Let_def)
    qed
  qed
qed

theorem cutover_commits_next_epoch_witness:
  "let current = \<lparr>oSession = ''7'', oAccess = ''a'', oEgress = ''b'', oEpoch = 4\<rparr> in
   case fst (ConsumeReady ''7'' (oEpoch current + 1) (arun demo_arm)) of
      None \<Rightarrow> Cutover mem_ops ''7'' ''n'' current 0 (arun demo_arm) NewMemStore = (Inl ErrNotReady, arun demo_arm, NewMemStore)
    | Some st \<Rightarrow> (\<exists>res m'. Cutover mem_ops ''7'' ''n'' current 0 (arun demo_arm) NewMemStore = (Inr res, Reset ''7'' (arun demo_arm), m')
        \<and> (case res of
             None \<Rightarrow> m' = NewMemStore \<and> (\<exists>cur. OS_Get mem_ops (oSession current) NewMemStore = Inr (Some cur) \<and> oEpoch current + 1 \<le> oEpoch cur)
           | Some r \<Rightarrow> OS_Get mem_ops (oSession current) m' = Inr (Some (current\<lparr>oAccess := ''n'', oEpoch := oEpoch current + 1\<rparr>))
               \<and> crState r = st \<and> crEpoch r = oEpoch current + 1 \<and> crEgress r = oEgress current
               \<and> crOldAccess r = oAccess current \<and> crNewAccess r = ''n''))"
  unfolding Let_def by (rule cutover_commits_next_epoch) (simp_all add: Validate_def)

end
