(* ===== verification/Decider.thy ===== *)
theory Decider
  imports Policy
begin

text \<open>
  \<^verbatim>\<open>internal/client/decide.go\<close>: the client's choice of path. \<^verbatim>\<open>Decide\<close> reads the measured paths once and
  updates the flap guard; both are returned. The text of \<^verbatim>\<open>Reason\<close> is kept as the value it is printed
  from.
\<close>

section \<open>Model\<close>

record Path =
  pAccess :: string
  pEgress :: string
  pSegments :: "SegmentStats list"
  Reachable :: bool

definition path_candidate :: "Path \<Rightarrow> PathCandidate" where
  "path_candidate p = \<lparr>EgressID = pEgress p, Segments = pSegments p, CapacityFraction = 0\<rparr>"

datatype reason = NoReason | AccessStopped string | ChangingEgress string | NoPathAnswers | CurrentNotMeasured
  | Confirming string | BetterBy string f64

datatype outcome = OutcomeUnset | OutcomeStay | OutcomeConfirming | OutcomeMigrate | OutcomeNoAlternative

datatype cause = NoCause | CauseBetterPath | CauseAccessDead | CauseEgressChange

record PathEval =
  evAccess :: string
  evEgress :: string
  evCost :: f64
  evDelta :: "DeltaEstimate option"

record Decision =
  dMigrate :: bool
  dAccess :: string
  dEgress :: string
  dReason :: reason
  dOutcome :: outcome
  dCause :: cause
  dThreshold :: f64
  dEvals :: "PathEval list"

definition zeroDecision :: Decision where
  "zeroDecision = \<lparr>dMigrate = False, dAccess = [], dEgress = [], dReason = NoReason, dOutcome = OutcomeUnset,
     dCause = NoCause, dThreshold = 0, dEvals = []\<rparr>"

record Decider =
  dPolicy :: PolicyDocument
  dFlap :: FlapGuard

definition NewDecider :: "PolicyDocument \<Rightarrow> time \<Rightarrow> Decider" where
  "NewDecider policy now = \<lparr>dPolicy = policy, dFlap = NewFlapGuard (pFlapGuard policy) now\<rparr>"

definition Decider_Reset :: "time \<Rightarrow> Decider \<Rightarrow> Decider" where
  "Decider_Reset now d = d\<lparr>dFlap := NewFlapGuard (pFlapGuard (dPolicy d)) now\<rparr>"

definition path_cost :: "Decider \<Rightarrow> Path \<Rightarrow> f64" where
  "path_cost d p = Cost (ScorePath (path_candidate p) (pCost (dPolicy d)))"

fun cheapest_loop :: "Decider \<Rightarrow> (Path \<Rightarrow> bool) \<Rightarrow> Path option \<times> f64 \<Rightarrow> Path list \<Rightarrow> Path option \<times> f64" where
  "cheapest_loop d keep (best, bestCost) [] = (best, bestCost)"
| "cheapest_loop d keep (best, bestCost) (p # ps) =
     (if \<not> Reachable p \<or> \<not> keep p then cheapest_loop d keep (best, bestCost) ps
      else if path_cost d p < bestCost then cheapest_loop d keep (Some p, path_cost d p) ps
      else cheapest_loop d keep (best, bestCost) ps)"

definition cheapest :: "Decider \<Rightarrow> Path list \<Rightarrow> (Path \<Rightarrow> bool) \<Rightarrow> Path option" where
  "cheapest d paths keep = fst (cheapest_loop d keep (None, PInf) paths)"

definition evals :: "Decider \<Rightarrow> Path list \<Rightarrow> PathEval list" where
  "evals d paths = map (\<lambda>p. \<lparr>evAccess = pAccess p, evEgress = pEgress p, evCost = path_cost d p, evDelta = None\<rparr>) paths"

text \<open>The loop over the candidates: the best one so far with its decision, and the deltas seen.\<close>

fun best_loop ::
  "Decider \<Rightarrow> Path \<Rightarrow> (Path \<Rightarrow> bool) \<Rightarrow> (Path \<times> MigrationDecision) option \<Rightarrow> (Path \<times> PathEval) list
   \<Rightarrow> (Path \<times> MigrationDecision) option \<times> PathEval list" where
  "best_loop d current other best [] = (best, [])"
| "best_loop d current other best ((p, ev) # rest) =
     (if \<not> Reachable p \<or> \<not> other p
      then (let (b, evs) = best_loop d current other best rest in (b, ev # evs))
      else case DecideMigration (path_candidate current) (path_candidate p) 0 (pCost (dPolicy d)) (pDecision (dPolicy d)) of
        Inl _ \<Rightarrow> (let (b, evs) = best_loop d current other best rest in (b, ev # evs))
      | Inr dcn \<Rightarrow>
          let best = (case best of
                None \<Rightarrow> Some (p, dcn)
              | Some (bp, bestDec) \<Rightarrow> if Lower (Delta dcn) > Lower (Delta bestDec) then Some (p, dcn) else best);
              (b, evs) = best_loop d current other best rest
          in (b, ev\<lparr>evDelta := Some (Delta dcn)\<rparr> # evs))"

definition decide :: "time \<Rightarrow> string \<Rightarrow> string \<Rightarrow> Path list \<Rightarrow> bool \<Rightarrow> Decider \<Rightarrow> Decision \<times> Decider" where
  "decide now access egress paths currentDead d =
     (let evs = evals d paths; other = (\<lambda>p. pEgress p = egress \<and> pAccess p \<noteq> access) in
      if currentDead then
        (case cheapest d paths other of
           Some p \<Rightarrow>
             (let (ok, flap) = ShouldCutover True now True (pAccess p) (dFlap d) in
              (zeroDecision\<lparr>dMigrate := True, dAccess := pAccess p, dEgress := pEgress p, dReason := AccessStopped access,
                 dCause := CauseAccessDead, dEvals := evs\<rparr>, d\<lparr>dFlap := flap\<rparr>))
         | None \<Rightarrow>
             (case cheapest d paths (\<lambda>p. pEgress p \<noteq> egress) of
                Some p \<Rightarrow> (zeroDecision\<lparr>dMigrate := True, dAccess := pAccess p, dEgress := pEgress p,
                   dReason := ChangingEgress egress, dCause := CauseEgressChange, dEvals := evs\<rparr>, d)
              | None \<Rightarrow> (zeroDecision\<lparr>dReason := NoPathAnswers, dOutcome := OutcomeNoAlternative, dEvals := evs\<rparr>, d)))
      else
        (case find (\<lambda>p. pAccess p = access \<and> pEgress p = egress) paths of
           None \<Rightarrow> (zeroDecision\<lparr>dReason := CurrentNotMeasured, dEvals := evs\<rparr>,
                    d\<lparr>dFlap := snd (Evaluate now False [] (dFlap d))\<rparr>)
         | Some current \<Rightarrow>
             (case best_loop d current other None (zip paths evs) of
                (None, evs) \<Rightarrow> (zeroDecision\<lparr>dOutcome := OutcomeNoAlternative, dEvals := evs\<rparr>,
                    d\<lparr>dFlap := snd (Evaluate now False [] (dFlap d))\<rparr>)
              | (Some (best, bestDec), evs) \<Rightarrow>
                  if \<not> Migrate bestDec
                  then (zeroDecision\<lparr>dEvals := evs\<rparr>, d\<lparr>dFlap := snd (Evaluate now False [] (dFlap d))\<rparr>)
                  else (let (ok, flap) = ShouldCutover False now True (pAccess best) (dFlap d); d = d\<lparr>dFlap := flap\<rparr> in
                        if \<not> ok then (zeroDecision\<lparr>dReason := Confirming (pAccess best), dOutcome := OutcomeConfirming, dEvals := evs\<rparr>, d)
                        else (zeroDecision\<lparr>dMigrate := True, dAccess := pAccess best, dEgress := pEgress best,
                                dReason := BetterBy (pAccess best) (Lower (Delta bestDec)), dCause := CauseBetterPath, dEvals := evs\<rparr>, d)))))"

definition Decide :: "time \<Rightarrow> string \<Rightarrow> string \<Rightarrow> Path list \<Rightarrow> bool \<Rightarrow> Decider \<Rightarrow> Decision \<times> Decider" where
  "Decide now access egress paths currentDead d =
     (let (dcn, d) = decide now access egress paths currentDead d;
          dcn = dcn\<lparr>dThreshold := MigrationCost (pDecision (dPolicy d)) + SafetyMargin (pDecision (dPolicy d))\<rparr>;
          dcn = (if dOutcome dcn = OutcomeUnset then dcn\<lparr>dOutcome := OutcomeStay\<rparr> else dcn);
          dcn = (if dMigrate dcn then dcn\<lparr>dOutcome := OutcomeMigrate\<rparr> else dcn)
      in (dcn, d))"

section \<open>The cheapest path\<close>

lemma cheapest_loop_spec:
  assumes "cheapest_loop d keep (best, c) ps = (best', c')" "c \<noteq> NaN"
  shows "(case best' of
      None \<Rightarrow> best = None \<and> c' = c \<and> (\<forall>q \<in> set ps. Reachable q \<and> keep q \<longrightarrow> \<not> path_cost d q < c)
    | Some p \<Rightarrow> (best' = best \<and> c' = c \<or> p \<in> set ps \<and> Reachable p \<and> keep p \<and> c' = path_cost d p \<and> path_cost d p < c)
        \<and> (\<forall>q \<in> set ps. Reachable q \<and> keep q \<longrightarrow> \<not> path_cost d q < c'))
    \<and> (c' = c \<or> c' < c)"
  using assms
proof (induction ps arbitrary: best c)
  case Nil
  then show ?case by (auto split: option.splits)
next
  case (Cons p ps)
  show ?case
  proof (cases "Reachable p \<and> keep p \<and> path_cost d p < c")
    case True
    then have ne: "path_cost d p \<noteq> NaN" by auto
    have "cheapest_loop d keep (Some p, path_cost d p) ps = (best', c')" using Cons.prems(1) True by simp
    note IH = Cons.IH [OF this ne]
    have lt: "c' = path_cost d p \<or> c' < path_cost d p" using IH by blast
    have 1: "c' < c" using lt True f64_less_trans by blast
    have 2: "\<not> path_cost d p < c'" using lt f64_asym by auto
    obtain b where b: "best' = Some b" using IH by (cases best') auto
    show ?thesis using IH True 1 2 unfolding b by (auto intro: f64_less_trans)
  next
    case False
    then have "cheapest_loop d keep (best, c) ps = (best', c')" using Cons.prems(1) by (auto split: if_splits)
    note IH = Cons.IH [OF this Cons.prems(2)]
    have "Reachable p \<and> keep p \<Longrightarrow> \<not> path_cost d p < c'" using IH False f64_less_trans by blast
    then show ?thesis using IH False by (auto split: option.splits)
  qed
qed

lemma cheapest_Some:
  assumes "cheapest d paths keep = Some p"
  shows "p \<in> set paths" "Reachable p" "keep p" "path_cost d p < PInf"
    "\<And>q. q \<in> set paths \<Longrightarrow> Reachable q \<Longrightarrow> keep q \<Longrightarrow> \<not> path_cost d q < path_cost d p"
proof -
  obtain c' where "cheapest_loop d keep (None, PInf) paths = (Some p, c')"
    using assms by (metis cheapest_def prod.collapse)
  note sp = cheapest_loop_spec [OF this]
  then have "p \<in> set paths \<and> Reachable p \<and> keep p \<and> c' = path_cost d p \<and> path_cost d p < PInf
      \<and> (\<forall>q \<in> set paths. Reachable q \<and> keep q \<longrightarrow> \<not> path_cost d q < c')" by auto
  then show "p \<in> set paths" "Reachable p" "keep p" "path_cost d p < PInf"
    "\<And>q. q \<in> set paths \<Longrightarrow> Reachable q \<Longrightarrow> keep q \<Longrightarrow> \<not> path_cost d q < path_cost d p" by auto
qed

lemma cheapest_None:
  assumes "cheapest d paths keep = None" "q \<in> set paths" "Reachable q" "keep q"
  shows "\<not> path_cost d q < PInf"
proof -
  obtain c' where "cheapest_loop d keep (None, PInf) paths = (None, c')"
    using assms(1) by (metis cheapest_def prod.collapse)
  from cheapest_loop_spec [OF this] assms(2-4) show ?thesis by auto
qed

section \<open>When the current path is dead\<close>

definition usable :: "Decider \<Rightarrow> Path \<Rightarrow> bool" where
  "usable d p \<longleftrightarrow> Reachable p \<and> path_cost d p < PInf"

definition sameEgress :: "Decider \<Rightarrow> string \<Rightarrow> string \<Rightarrow> Path list \<Rightarrow> Path list" where
  "sameEgress d access egress paths = filter (\<lambda>p. usable d p \<and> pEgress p = egress \<and> pAccess p \<noteq> access) paths"

definition otherEgress :: "Decider \<Rightarrow> string \<Rightarrow> Path list \<Rightarrow> Path list" where
  "otherEgress d egress paths = filter (\<lambda>p. usable d p \<and> pEgress p \<noteq> egress) paths"

lemma Decide_migrate [simp]:
  "dMigrate (fst (Decide now a g ps dead d)) = dMigrate (fst (decide now a g ps dead d))"
  "dAccess (fst (Decide now a g ps dead d)) = dAccess (fst (decide now a g ps dead d))"
  "dEgress (fst (Decide now a g ps dead d)) = dEgress (fst (decide now a g ps dead d))"
  "snd (Decide now a g ps dead d) = snd (decide now a g ps dead d)"
  by (simp_all add: Decide_def case_prod_beta Let_def)


section \<open>When the current path answers\<close>

lemma best_loop_mem:
  assumes "best_loop d cur other best pes = (Some (p, dcn), evs)"
  shows "best = Some (p, dcn) \<or> (p \<in> fst ` set pes \<and> Reachable p \<and> other p
    \<and> DecideMigration (path_candidate cur) (path_candidate p) 0 (pCost (dPolicy d)) (pDecision (dPolicy d)) = Inr dcn)"
  using assms
proof (induction pes arbitrary: best evs)
  case (Cons pe pes)
  obtain q ev where pe: "pe = (q, ev)" by (cases pe)
  let ?D = "DecideMigration (path_candidate cur) (path_candidate q) 0 (pCost (dPolicy d)) (pDecision (dPolicy d))"
  show ?case
  proof (cases "Reachable q \<and> other q \<and> (\<exists>x. ?D = Inr x)")
    case False
    then obtain evs' where "best_loop d cur other best pes = (Some (p, dcn), evs')"
      using Cons.prems by (auto simp: pe split: prod.splits if_splits sum.splits)
    from Cons.IH [OF this] show ?thesis by (auto simp: pe)
  next
    case True
    then obtain x where x: "?D = Inr x" by blast
    let ?best = "case best of None \<Rightarrow> Some (q, x)
      | Some (bp, bestDec) \<Rightarrow> if Lower (Delta x) > Lower (Delta bestDec) then Some (q, x) else best"
    obtain evs' where "best_loop d cur other ?best pes = (Some (p, dcn), evs')"
      using Cons.prems True x by (auto simp: pe Let_def split: prod.splits)
    from Cons.IH [OF this] show ?thesis
      using True x by (auto simp: pe split: option.splits if_splits)
  qed
qed simp

text \<open>
  (C11) A working path is left only for proven improvement on the same egress: if the current path
  answers and the decision is to migrate, then the session keeps its egress, the new access gateway is a
  reachable measured path, \<^verbatim>\<open>DecideMigration\<close> against the current path said migrate, and the flap guard
  approved that very candidate at this tick.
\<close>

theorem live_path_decision:
  assumes "Decide now access egress paths False d = (r, d')" "dMigrate r"
  shows "\<exists>cur p m. cur \<in> set paths \<and> pAccess cur = access \<and> pEgress cur = egress
    \<and> p \<in> set paths \<and> Reachable p \<and> pAccess p \<noteq> access \<and> dAccess r = pAccess p \<and> dEgress r = egress
    \<and> DecideMigration (path_candidate cur) (path_candidate p) 0 (pCost (dPolicy d)) (pDecision (dPolicy d)) = Inr m \<and> Migrate m
    \<and> Evaluate now True (pAccess p) (dFlap d) = (True, dFlap d') \<and> dPolicy d' = dPolicy d"
proof -
  let ?other = "\<lambda>p. pEgress p = egress \<and> pAccess p \<noteq> access"
  have r: "decide now access egress paths False d = (r0, d')" "dMigrate r0" "dAccess r = dAccess r0" "dEgress r = dEgress r0"
    if "r0 = fst (decide now access egress paths False d)" for r0
    using that assms by (auto simp: Decide_def case_prod_beta Let_def split: if_splits)
  obtain r0 where r0: "decide now access egress paths False d = (r0, d')" "dMigrate r0" "dAccess r = dAccess r0" "dEgress r = dEgress r0"
    using r by blast
  obtain cur where cur: "find (\<lambda>p. pAccess p = access \<and> pEgress p = egress) paths = Some cur"
    using r0(1,2) by (auto simp: decide_def zeroDecision_def Let_def split: option.splits)
  obtain b evs where bl: "best_loop d cur ?other None (zip paths (evals d paths)) = (b, evs)" by fastforce
  obtain p m where b: "b = Some (p, m)" using r0(1,2) cur bl by (cases b) (auto simp: decide_def zeroDecision_def Let_def)
  have ok: "Migrate m" "fst (Evaluate now True (pAccess p) (dFlap d))" "dAccess r0 = pAccess p" "dEgress r0 = pEgress p"
    "dFlap d' = snd (Evaluate now True (pAccess p) (dFlap d))" "dPolicy d' = dPolicy d"
    using r0(1,2) cur bl b
    by (auto simp: decide_def zeroDecision_def ShouldCutover_def Let_def case_prod_beta split: if_splits)
  have "p \<in> fst ` set (zip paths (evals d paths)) \<and> Reachable p \<and> ?other p
      \<and> DecideMigration (path_candidate cur) (path_candidate p) 0 (pCost (dPolicy d)) (pDecision (dPolicy d)) = Inr m"
    using best_loop_mem [OF bl [unfolded b]] by simp
  moreover have "fst ` set (zip paths (evals d paths)) \<subseteq> set paths" by (auto dest: set_zip_leftD)
  ultimately show ?thesis
    using find_Some_mem [OF cur] ok r0(3,4) by (intro exI [of _ cur] exI [of _ p] exI [of _ m]) (auto simp: prod_eq_iff)
qed

definition demo_policy :: PolicyDocument where
  "demo_policy = DefaultPolicyDocument\<lparr>pFlapGuard := \<lparr>ConfirmationWindow = 0, MinResidence = 0, Cooldown = 0\<rparr>\<rparr>"

definition demo_cpath :: "string \<Rightarrow> f64 \<Rightarrow> real \<Rightarrow> Path" where
  "demo_cpath a loss x = \<lparr>pAccess = a, pEgress = ''e'', pSegments = [(demo_seg x)\<lparr>LossRate := loss\<rparr>], Reachable = True\<rparr>"

lemmas decide_eval = demo_policy_def DefaultPolicyDocument_def NewDecider_def demo_cpath_def Decide_def decide_def evals_def
  path_candidate_def DecideMigration_def validateDifferential_def demo_seg_def segmentsGated_def aggregateBounds_def segmentCostBound_def
  SegmentCost_def lossPenalty_def DefaultCostWeights_def clamp01_def of_u64_def DefaultDecisionWeights_def ShouldCutover_def Evaluate_def
  NewFlapGuard_def zeroDecision_def

lemma demo_decision:
  "dMigrate (fst (Decide 0 ''a'' ''e'' [demo_cpath ''a'' 0 30, demo_cpath ''b'' 0 10] False (NewDecider demo_policy 0)))"
  by (simp add: decide_eval Let_def)

theorem live_path_decision_witness:
  "\<exists>r d'. Decide 0 ''a'' ''e'' [demo_cpath ''a'' 0 30, demo_cpath ''b'' 0 10] False (NewDecider demo_policy 0) = (r, d') \<and> dMigrate r
   \<and> (\<exists>cur p m. cur \<in> set [demo_cpath ''a'' 0 30, demo_cpath ''b'' 0 10] \<and> pAccess cur = ''a'' \<and> pEgress cur = ''e''
    \<and> p \<in> set [demo_cpath ''a'' 0 30, demo_cpath ''b'' 0 10] \<and> Reachable p \<and> pAccess p \<noteq> ''a'' \<and> dAccess r = pAccess p \<and> dEgress r = ''e''
    \<and> DecideMigration (path_candidate cur) (path_candidate p) 0 (pCost (dPolicy (NewDecider demo_policy 0))) (pDecision (dPolicy (NewDecider demo_policy 0))) = Inr m \<and> Migrate m
    \<and> Evaluate 0 True (pAccess p) (dFlap (NewDecider demo_policy 0)) = (True, dFlap d') \<and> dPolicy d' = dPolicy (NewDecider demo_policy 0))"
proof -
  obtain r d' where rd: "Decide 0 ''a'' ''e'' [demo_cpath ''a'' 0 30, demo_cpath ''b'' 0 10] False (NewDecider demo_policy 0) = (r, d')" by fastforce
  have "dMigrate r" using demo_decision unfolding rd by simp
  from live_path_decision [OF rd this] rd this show ?thesis by blast
qed

section \<open>Comparisons with NaN\<close>

text \<open>Between two paths over the loss gate the improvement is infinity minus infinity.\<close>

lemma DecideMigration_both_gated:
  assumes "pEgress cur = pEgress p" "segmentsGated (pSegments cur) cw" "segmentsGated (pSegments p) cw" "\<not> 0 \<ge> MaxCapacityFraction cw"
  shows "\<exists>m. DecideMigration (path_candidate cur) (path_candidate p) 0 cw dw = Inr m \<and> \<not> Migrate m \<and> Lower (Delta m) = NaN"
  using assms by (simp add: DecideMigration_def validateDifferential_def path_candidate_def Let_def)

text \<open> A candidate over the loss gate can hide a better one: when the current path and one candidate
  are both over the loss gate, their estimated improvement is NaN, and no later candidate compares
  greater than NaN. If that candidate is listed first, a healthy candidate that \<^verbatim>\<open>DecideMigration\<close> and the
  flap guard would both accept is never chosen and the session stays; with the list in the other order
  it migrates.
\<close>

theorem gated_candidate_hides_better_path:
  assumes "pAccess cur = access" "pEgress cur = egress" "pEgress bad = egress" "pEgress good = egress"
    and "pAccess bad \<noteq> access" "pAccess good \<noteq> access" "Reachable bad" "Reachable good"
    and "segmentsGated (pSegments cur) (pCost (dPolicy d))" "segmentsGated (pSegments bad) (pCost (dPolicy d))"
    and "\<not> 0 \<ge> MaxCapacityFraction (pCost (dPolicy d))"
    and "DecideMigration (path_candidate cur) (path_candidate good) 0 (pCost (dPolicy d)) (pDecision (dPolicy d)) = Inr m" "Migrate m"
    and "fst (Evaluate now True (pAccess good) (dFlap d))"
  shows "\<not> dMigrate (fst (Decide now access egress [cur, bad, good] False d))
    \<and> dMigrate (fst (Decide now access egress [cur, good, bad] False d))"
proof -
  obtain mb where mb: "DecideMigration (path_candidate cur) (path_candidate bad) 0 (pCost (dPolicy d)) (pDecision (dPolicy d)) = Inr mb"
    "\<not> Migrate mb" "Lower (Delta mb) = NaN"
    using DecideMigration_both_gated [of cur bad] assms by metis
  show ?thesis
    using assms mb by (simp add: decide_def evals_def zeroDecision_def ShouldCutover_def case_prod_beta Let_def)
qed

theorem gated_candidate_hides_better_path_witness:
  "let cur = demo_cpath ''a'' (Fin 0.5) 30; bad = demo_cpath ''b'' (Fin 0.5) 30; good = demo_cpath ''c'' 0 10; d = NewDecider demo_policy 0 in
   \<not> dMigrate (fst (Decide 0 ''a'' ''e'' [cur, bad, good] False d)) \<and> dMigrate (fst (Decide 0 ''a'' ''e'' [cur, good, bad] False d))"
proof -
  let ?cur = "demo_cpath ''a'' (Fin 0.5) 30" and ?good = "demo_cpath ''c'' 0 10" and ?d = "NewDecider demo_policy 0"
  obtain m where m: "DecideMigration (path_candidate ?cur) (path_candidate ?good) 0 (pCost (dPolicy ?d)) (pDecision (dPolicy ?d)) = Inr m" "Migrate m"
    by (simp add: decide_eval Let_def)
  show ?thesis unfolding Let_def
    by (rule gated_candidate_hides_better_path [OF _ _ _ _ _ _ _ _ _ _ _ m]) (simp_all add: decide_eval Let_def)
qed

end
