(* ===== verification/FileStore.thy ===== *)
theory FileStore
  imports Ownership
begin

text \<open>
  \<^verbatim>\<open>internal/controller/filestore.go\<close>: the in-memory store saved to a JSON file after every write. The
  file is its parsed contents; a save replaces it whole (temporary file, then rename) or fails and
  leaves it alone. Whether the next saves fail is part of the state (\<open>ioFails\<close>, one entry per save,
  \<^const>\<open>True\<close> for a failing one; no entry means success).
\<close>

section \<open>Model\<close>

record FileStore =
  fsMem :: MemStore
  fsFile :: "raw option"
  ioFails :: "bool list"

datatype readFile = NotExist | ReadErr string | Contents raw

text \<open>A \<^verbatim>\<open>json.RawMessage\<close> as an element of the saved map: nothing prints as \<^verbatim>\<open>null\<close>, bad bytes fail.\<close>

definition raw_doc :: "raw \<Rightarrow> json" where
  "raw_doc v = (case v of RawJson j \<Rightarrow> j | _ \<Rightarrow> JNull)"

definition state_doc :: "(string, raw) gomap \<Rightarrow> raw option" where
  "state_doc kv = (if RawBad \<in> set (map snd kv) then None else Some (RawJson (JObj (map (\<lambda>(k, v). (k, raw_doc v)) kv))))"

definition save :: "FileStore \<Rightarrow> storeErr option \<times> FileStore" where
  "save f =
     (case mem_List [] (fsMem f) of
        Inl e \<Rightarrow> (Some e, f)
      | Inr all \<Rightarrow>
          (case state_doc all of
             None \<Rightarrow> (Some (StoreErr ''marshal''), f)
           | Some data \<Rightarrow>
               (if ioFails f \<noteq> [] \<and> hd (ioFails f) then (Some (StoreErr ''controller: save state''), f\<lparr>ioFails := tl (ioFails f)\<rparr>)
                else (None, f\<lparr>fsFile := Some data, ioFails := tl (ioFails f)\<rparr>))))"

definition fs_Put :: "string \<Rightarrow> raw \<Rightarrow> FileStore \<Rightarrow> storeErr option \<times> FileStore" where
  "fs_Put key v f =
     (case mem_Put key v (fsMem f) of
        (Some e, m) \<Rightarrow> (Some e, f\<lparr>fsMem := m\<rparr>)
      | (None, m) \<Rightarrow> save (f\<lparr>fsMem := m\<rparr>))"

definition fs_CAS :: "string \<Rightarrow> int \<Rightarrow> raw \<Rightarrow> FileStore \<Rightarrow> (storeErr + int \<times> bool) \<times> FileStore" where
  "fs_CAS key expectedRevision v f =
     (case mem_CAS key expectedRevision v (fsMem f) of
        (Inl e, m) \<Rightarrow> (Inl e, f\<lparr>fsMem := m\<rparr>)
      | (Inr (rv, False), m) \<Rightarrow> (Inr (rv, False), f\<lparr>fsMem := m\<rparr>)
      | (Inr (rv, True), m) \<Rightarrow>
          (case save (f\<lparr>fsMem := m\<rparr>) of
             (Some e, f') \<Rightarrow> (Inl e, f')
           | (None, f') \<Rightarrow> (Inr (rv, True), f')))"

text \<open>The other methods are \<^verbatim>\<open>MemStore\<close>'s.\<close>

definition fs_ops :: "FileStore kvops" where
  "fs_ops = \<lparr>kGet = (\<lambda>k f. mem_Get k (fsMem f)), kPut = fs_Put, kList = (\<lambda>pre f. mem_List pre (fsMem f)),
     kRevision = (\<lambda>k f. mem_Revision k (fsMem f)), kCAS = fs_CAS\<rparr>"

definition read_state :: "raw \<Rightarrow> jsonErr + (string, raw) gomap" where
  "read_state data = (case data of
     RawJson (JObj kvs) \<Rightarrow> Inr (foldl (\<lambda>m (k, j). mput k (RawJson j) m) [] kvs)
   | RawJson JNull \<Rightarrow> Inr []
   | RawJson _ \<Rightarrow> Inl (TypeError [])
   | _ \<Rightarrow> Inl SyntaxError)"

fun put_all :: "(string, raw) gomap \<Rightarrow> MemStore \<Rightarrow> storeErr option \<times> MemStore" where
  "put_all [] m = (None, m)"
| "put_all ((k, v) # kvs) m = (case mem_Put k v m of (Some e, m') \<Rightarrow> (Some e, m') | (None, m') \<Rightarrow> put_all kvs m')"

definition OpenFileStore :: "readFile \<Rightarrow> storeErr + FileStore" where
  "OpenFileStore file =
     (case file of
        NotExist \<Rightarrow> Inr \<lparr>fsMem = NewMemStore, fsFile = None, ioFails = []\<rparr>
      | ReadErr e \<Rightarrow> Inl (StoreErr e)
      | Contents data \<Rightarrow>
          (case read_state data of
             Inl _ \<Rightarrow> Inl (StoreErr ''controller: parse state file'')
           | Inr kv \<Rightarrow> (case put_all kv NewMemStore of
                 (Some e, _) \<Rightarrow> Inl e
               | (None, m) \<Rightarrow> Inr \<lparr>fsMem = m, fsFile = Some data, ioFails = []\<rparr>)))"

text \<open>What a new process finds at the path.\<close>

definition on_disk :: "FileStore \<Rightarrow> readFile" where
  "on_disk f = (case fsFile f of None \<Rightarrow> NotExist | Some data \<Rightarrow> Contents data)"

section \<open>The store contract\<close>

definition fs_docs :: "FileStore \<Rightarrow> (string, raw) gomap" where
  "fs_docs f = map (\<lambda>(k, e). (k, mValue e)) (mData (fsMem f))"

definition fs_look :: "FileStore \<Rightarrow> string \<Rightarrow> (raw \<times> int) option" where
  "fs_look f = mem_look (fsMem f)"

definition fs_clock :: "FileStore \<Rightarrow> int" where
  "fs_clock f = nextRev (fsMem f)"

text \<open>No save fails, every value prints, and the file holds what memory holds.\<close>

definition fs_inv :: "FileStore \<Rightarrow> bool" where
  "fs_inv f \<longleftrightarrow> mem_inv (fsMem f) \<and> True \<notin> set (ioFails f) \<and> RawBad \<notin> set (map snd (fs_docs f))
     \<and> (fsFile f = state_doc (fs_docs f) \<or> fsFile f = None \<and> fs_docs f = [])"

lemma mem_List_all: "mem_List [] (fsMem f) = Inr (fs_docs f)"
  by (simp add: mem_List_def fs_docs_def)

lemma save_ok:
  assumes "True \<notin> set (ioFails f)" "RawBad \<notin> set (map snd (fs_docs f))"
  shows "save f = (None, f\<lparr>fsFile := state_doc (fs_docs f), ioFails := tl (ioFails f)\<rparr>)"
proof -
  have "\<not> (ioFails f \<noteq> [] \<and> hd (ioFails f))" using assms(1) by (cases "ioFails f") auto
  then show ?thesis using assms(2) by (simp add: save_def mem_List_all state_doc_def)
qed

lemma save_fails:
  "ioFails f = True # rest \<Longrightarrow> RawBad \<notin> set (map snd (fs_docs f)) \<Longrightarrow>
   save f = (Some (StoreErr ''controller: save state''), f\<lparr>ioFails := rest\<rparr>)"
  by (simp add: save_def mem_List_all state_doc_def)

lemma docs_write:
  assumes "mem_inv m"
  shows "set (map snd (fs_docs (f\<lparr>fsMem := notify ev (mem_write k v m)\<rparr>))) \<subseteq> insert v (set (map snd (fs_docs (f\<lparr>fsMem := m\<rparr>))))"
proof -
  have "mwf (mData m)" using assms by (simp add: mem_inv_def)
  then show ?thesis by (auto simp: fs_docs_def mem_write_def set_mput) force
qed

lemma fs_write:
  assumes "fs_inv f" "v \<noteq> RawBad"
  shows "\<exists>g. save (f\<lparr>fsMem := notify ev (mem_write k v (fsMem f))\<rparr>) = (None, g) \<and> fs_inv g \<and> fs_clock g = fs_clock f + 1 \<and> fs_look g = (fs_look f)(k \<mapsto> (v, fs_clock f + 1))"
proof -
  define f' where "f' = f\<lparr>fsMem := notify ev (mem_write k v (fsMem f))\<rparr>"
  have inv: "mem_inv (fsMem f)" "True \<notin> set (ioFails f)" "RawBad \<notin> set (map snd (fs_docs f))"
    using assms(1) by (simp_all add: fs_inv_def)
  have docs: "RawBad \<notin> set (map snd (fs_docs f'))"
    using docs_write [OF inv(1), of ev k v f] inv(3) assms(2) unfolding f'_def by auto
  have io: "True \<notin> set (ioFails f')" "True \<notin> set (tl (ioFails f))"
    using inv(2) by (simp add: f'_def, cases "ioFails f") simp_all
  let ?g = "f'\<lparr>fsFile := state_doc (fs_docs f'), ioFails := tl (ioFails f')\<rparr>"
  have "fs_docs ?g = fs_docs f'" by (simp add: fs_docs_def)
  then have "fs_inv ?g" using docs io inv(1) by (simp add: fs_inv_def f'_def mem_inv_write)
  moreover have "fs_clock ?g = fs_clock f + 1" "fs_look ?g = (fs_look f)(k \<mapsto> (v, fs_clock f + 1))"
    by (simp_all add: fs_clock_def fs_look_def f'_def) (simp add: mem_write_def)
  ultimately show ?thesis using save_ok [OF io(1) docs] unfolding f'_def by blast
qed

lemma fs_CAS_cases:
  "fs_CAS k e v f =
    (if (case fs_look f k of None \<Rightarrow> 0 | Some (v, r) \<Rightarrow> r) = e
     then (case save (f\<lparr>fsMem := notify \<lparr>eKey = k, eValue = v, eDeleted = False\<rparr> (mem_write k v (fsMem f))\<rparr>) of
         (Some e, f') \<Rightarrow> (Inl e, f') | (None, f') \<Rightarrow> (Inr (fs_clock f + 1, True), f'))
     else (Inr (case fs_look f k of None \<Rightarrow> 0 | Some (v, r) \<Rightarrow> r, False), f))"
  unfolding fs_look_def fs_clock_def by (simp add: fs_CAS_def mem_CAS_cases)

interpretation disk: kv_store fs_ops fs_inv fs_look fs_clock
proof (unfold_locales, goal_cases)
  case (1 s k)
  then show ?case by (simp add: fs_ops_def mem_Get_def fs_look_def mem_look_def split: option.splits)
next
  case (2 s k)
  then show ?case by (simp add: fs_ops_def mem_Revision_def fs_look_def mem_look_def split: option.splits)
next
  case (3 s k v r)
  then show ?case using mem_inv_range [of "fsMem s" k v r] by (simp add: fs_inv_def fs_look_def fs_clock_def)
next
  case (4 s)
  then show ?case by (simp add: fs_inv_def fs_clock_def mem_inv_def)
next
  case (5 s k e v)
  then show ?case by (simp add: fs_ops_def fs_CAS_cases)
next
  case (6 s k e v)
  then show ?case
    using fs_write [OF 6(1,3), of "\<lparr>eKey = k, eValue = v, eDeleted = False\<rparr>" k] by (auto simp: fs_ops_def fs_CAS_cases)
next
  case (7 s v k)
  then show ?case
    using fs_write [OF 7, of "\<lparr>eKey = k, eValue = v, eDeleted = False\<rparr>" k] by (auto simp: fs_ops_def fs_Put_def mem_Put_def)
next
  case (8 s pre)
  then show ?case using mem_List_look [of "fsMem s" pre] unfolding fs_look_def by (simp add: fs_ops_def fs_inv_def)
qed

section \<open>Restart\<close>

text \<open>A value after it went through the file.\<close>

definition saved :: "raw \<Rightarrow> raw" where
  "saved v = RawJson (raw_doc v)"

lemma saved_RawJson [simp]: "saved (RawJson j) = RawJson j"
  by (simp add: saved_def raw_doc_def)

lemma foldl_mput_new:
  "mwf kv \<Longrightarrow> set (mkeys kv) \<inter> set (mkeys acc) = {} \<Longrightarrow>
   foldl (\<lambda>m (k, j). mput k (RawJson j) m) acc (map (\<lambda>(k, v). (k, raw_doc v)) kv) = acc @ map (\<lambda>(k, v). (k, saved v)) kv"
  by (induction kv arbitrary: acc) (auto simp: mput_new mget_None_iff saved_def)

lemma read_state_doc:
  "mwf kv \<Longrightarrow> state_doc kv = Some data \<Longrightarrow> read_state data = Inr (map (\<lambda>(k, v). (k, saved v)) kv)"
  using foldl_mput_new [of kv "[]"] by (auto simp: state_doc_def read_state_def split: if_splits)

definition mem_docs :: "MemStore \<Rightarrow> (string, raw) gomap" where
  "mem_docs m = map (\<lambda>(k, e). (k, mValue e)) (mData m)"

lemma mkeys_mem_docs: "mkeys (mem_docs m) = mkeys (mData m)"
  by (simp add: mem_docs_def case_prod_beta)

lemma put_all_docs:
  "mwf kvs \<Longrightarrow> set (mkeys kvs) \<inter> set (mkeys (mem_docs m)) = {} \<Longrightarrow> mem_inv m \<Longrightarrow>
   \<exists>m'. put_all kvs m = (None, m') \<and> mem_inv m' \<and> mem_docs m' = mem_docs m @ kvs"
proof (induction kvs arbitrary: m)
  case Nil
  then show ?case by simp
next
  case (Cons e kvs)
  obtain k v where e: "e = (k, v)" by (cases e)
  let ?m = "notify \<lparr>eKey = k, eValue = v, eDeleted = False\<rparr> (mem_write k v m)"
  have "mget (mData m) k = None" using Cons.prems(2) e by (simp add: mkeys_mem_docs mget_None_iff)
  then have docs: "mem_docs ?m = mem_docs m @ [(k, v)]" by (simp add: mem_docs_def mem_write_def mput_new)
  have "\<exists>m'. put_all kvs ?m = (None, m') \<and> mem_inv m' \<and> mem_docs m' = mem_docs ?m @ kvs"
    using Cons.prems e by (intro Cons.IH) (auto simp: docs mem_inv_write)
  then show ?case unfolding docs by (simp add: e mem_Put_def)
qed

lemma fs_docs_mem: "fs_docs f = mem_docs (fsMem f)"
  by (simp add: fs_docs_def mem_docs_def)

lemma mwf_fs_docs: "fs_inv f \<Longrightarrow> mwf (fs_docs f)"
  by (simp add: fs_docs_mem mkeys_mem_docs fs_inv_def mem_inv_def)

lemma fs_look_docs: "map_option fst (fs_look f k) = mget (fs_docs f) k"
  by (simp add: fs_look_def mem_look_def fs_docs_mem mem_docs_def mget_map_values option.map_comp comp_def)

lemma reopen:
  assumes "fs_inv f"
  shows "\<exists>g. OpenFileStore (on_disk f) = Inr g \<and> fs_inv g
    \<and> (\<forall>k. map_option fst (fs_look g k) = map_option saved (map_option fst (fs_look f k)))"
proof (cases "fsFile f = None \<and> fs_docs f = []")
  case True
  let ?g = "\<lparr>fsMem = NewMemStore, fsFile = None, ioFails = []\<rparr>"
  have "fs_docs ?g = []" by (simp add: fs_docs_def NewMemStore_def)
  then have "fs_inv ?g" by (simp add: fs_inv_def)
  moreover have "OpenFileStore (on_disk f) = Inr ?g" using True by (simp add: on_disk_def OpenFileStore_def)
  ultimately show ?thesis using True \<open>fs_docs ?g = []\<close> by (intro exI [of _ ?g]) (simp add: fs_look_docs)
next
  case False
  then have "fsFile f = state_doc (fs_docs f)" using assms by (auto simp: fs_inv_def)
  moreover obtain data where data: "state_doc (fs_docs f) = Some data"
    using assms by (simp add: fs_inv_def state_doc_def)
  ultimately have cont: "on_disk f = Contents data" by (simp add: on_disk_def)
  let ?kv = "map (\<lambda>(k, v). (k, saved v)) (fs_docs f)"
  have kv: "read_state data = Inr ?kv" by (rule read_state_doc [OF mwf_fs_docs [OF assms] data])
  have wf: "mwf ?kv" using mwf_fs_docs [OF assms] by (simp add: comp_def case_prod_beta)
  obtain m where m: "put_all ?kv NewMemStore = (None, m)" "mem_inv m" "mem_docs m = ?kv"
    using put_all_docs [OF wf, of NewMemStore] by (auto simp: mem_docs_def NewMemStore_def mem_inv_def)
  let ?g = "\<lparr>fsMem = m, fsFile = Some data, ioFails = []\<rparr>"
  have docs: "fs_docs ?g = ?kv" using m(3) by (simp add: fs_docs_mem)
  have "state_doc ?kv = Some data"
    using data by (auto simp: state_doc_def saved_def raw_doc_def split: if_splits)
  moreover have "RawBad \<notin> set (map snd ?kv)" by (auto simp: saved_def)
  ultimately have "fs_inv ?g" using m(2) by (simp add: fs_inv_def docs)
  moreover have "OpenFileStore (on_disk f) = Inr ?g" by (simp add: cont OpenFileStore_def kv m(1))
  ultimately show ?thesis by (intro exI [of _ ?g]) (simp add: fs_look_docs docs mget_map_values)
qed



text \<open> A write that fails is visible all the same: when the save after a \<^verbatim>\<open>Put\<close> fails, the caller gets an
  error, yet every later read of this process returns the new value, while a restart returns what
  the file held before.
\<close>

theorem failed_save_is_visible:
  assumes "ioFails f = True # rest" "RawBad \<notin> set (map snd (fs_docs f))" "mem_inv (fsMem f)" "v \<noteq> RawBad"
  shows "\<exists>e f'. fs_Put k v f = (Some e, f') \<and> kGet fs_ops k f' = Inr (Some v) \<and> on_disk f' = on_disk f"
proof -
  let ?f = "f\<lparr>fsMem := notify \<lparr>eKey = k, eValue = v, eDeleted = False\<rparr> (mem_write k v (fsMem f))\<rparr>"
  have "RawBad \<notin> set (map snd (fs_docs ?f))"
    using docs_write [OF assms(3), of _ k v f] assms(2,4) by auto
  then have "save ?f = (Some (StoreErr ''controller: save state''), ?f\<lparr>ioFails := rest\<rparr>)"
    using assms(1) by (intro save_fails) simp_all
  then show ?thesis by (simp add: fs_Put_def mem_Put_def fs_ops_def mem_Get_def on_disk_def) (simp add: mem_write_def)
qed

theorem failed_save_is_visible_witness:
  "\<exists>e f'. fs_Put ''k'' RawNil \<lparr>fsMem = NewMemStore, fsFile = None, ioFails = [True]\<rparr> = (Some e, f')
    \<and> kGet fs_ops ''k'' f' = Inr (Some RawNil) \<and> on_disk f' = on_disk \<lparr>fsMem = NewMemStore, fsFile = None, ioFails = [True]\<rparr>"
  by (rule failed_save_is_visible) (simp_all add: fs_docs_def NewMemStore_def mem_inv_def)

end
