(* ===== verification/Keys.thy ===== *)
theory Keys
  imports Prelude
begin

text \<open>
  \<^verbatim>\<open>internal/tunnel/keys.go\<close>: the text forms of 32-byte keys, with the part of \<^verbatim>\<open>encoding/base64\<close>
  (standard alphabet, padding required, trailing bits not checked) and \<^verbatim>\<open>encoding/hex\<close> they use, and
  the controller's test of a public key. Deriving a public key is left out.
\<close>

section \<open>Base64\<close>

definition b64_char :: "nat \<Rightarrow> char" where
  "b64_char k = (if k < 26 then char_of (65 + k) else if k < 52 then char_of (71 + k)
     else if k < 62 then char_of (k - 4) else if k = 62 then CHR ''+'' else CHR ''/'')"

definition b64_val :: "char \<Rightarrow> nat option" where
  "b64_val c = (let n = of_char c :: nat in
     if 65 \<le> n \<and> n \<le> 90 then Some (n - 65) else if 97 \<le> n \<and> n \<le> 122 then Some (n - 71)
     else if 48 \<le> n \<and> n \<le> 57 then Some (n + 4) else if n = 43 then Some 62 else if n = 47 then Some 63 else None)"

fun EncodeToString :: "bytes \<Rightarrow> string" where
  "EncodeToString [] = []"
| "EncodeToString [a] = (let n = unat a * 16 in [b64_char (n div 64), b64_char (n mod 64), CHR ''='', CHR ''=''])"
| "EncodeToString [a, b] = (let n = unat a * 1024 + unat b * 4 in
     [b64_char (n div 4096), b64_char (n div 64 mod 64), b64_char (n mod 64), CHR ''=''])"
| "EncodeToString (a # b # c # bs) = (let n = unat a * 65536 + unat b * 256 + unat c in
     [b64_char (n div 262144), b64_char (n div 4096 mod 64), b64_char (n div 64 mod 64), b64_char (n mod 64)] @ EncodeToString bs)"

text \<open>One quantum of four characters after another; only the last may be padded.\<close>

fun b64_quanta :: "string \<Rightarrow> bytes option" where
  "b64_quanta [] = Some []"
| "b64_quanta (w # x # y # z # cs) =
     (case (b64_val w, b64_val x) of
        (Some i, Some j) \<Rightarrow>
          (if y = CHR ''='' then (if z = CHR ''='' \<and> cs = [] then Some [of_nat ((i * 64 + j) div 16)] else None)
           else case b64_val y of None \<Rightarrow> None
           | Some k \<Rightarrow>
               (if z = CHR ''='' then
                  (if cs = [] then Some [of_nat ((i * 4096 + j * 64 + k) div 1024), of_nat ((i * 4096 + j * 64 + k) div 4 mod 256)] else None)
                else case (b64_val z, b64_quanta cs) of
                  (Some l, Some bs) \<Rightarrow>
                    (let n = i * 262144 + j * 4096 + k * 64 + l
                     in Some (of_nat (n div 65536) # of_nat (n div 256 mod 256) # of_nat (n mod 256) # bs))
                | _ \<Rightarrow> None))
      | _ \<Rightarrow> None)"
| "b64_quanta _ = None"

definition DecodeString :: "string \<Rightarrow> bytes option" where
  "DecodeString s = b64_quanta (filter (\<lambda>c. (of_char c :: nat) \<noteq> 10 \<and> (of_char c :: nat) \<noteq> 13) s)"

section \<open>Keys\<close>

definition KeySize :: nat where "KeySize = 32"

definition Base64 :: "bytes \<Rightarrow> string" where
  "Base64 key = EncodeToString key"

definition DecodeBase64 :: "string \<Rightarrow> bytes option" where
  "DecodeBase64 s = (case DecodeString s of None \<Rightarrow> None | Some b \<Rightarrow> if length b \<noteq> KeySize then None else Some b)"

text \<open>\<^verbatim>\<open>internal/controller/server.go\<close>, \<^verbatim>\<open>parsePublicKey\<close>: true when there is no error.\<close>

definition parsePublicKey :: "string \<Rightarrow> bool" where
  "parsePublicKey s = (case DecodeString s of None \<Rightarrow> False | Some b \<Rightarrow> length b = 32)"

definition hex_digit :: "nat \<Rightarrow> char" where
  "hex_digit k = (if k < 10 then char_of (48 + k) else char_of (87 + k))"

definition hex_val :: "char \<Rightarrow> nat option" where
  "hex_val c = (let n = of_char c :: nat in
     if 48 \<le> n \<and> n \<le> 57 then Some (n - 48)
     else if 97 \<le> n \<and> n \<le> 102 then Some (n - 87)
     else if 65 \<le> n \<and> n \<le> 70 then Some (n - 55) else None)"

definition byte_hex :: "u8 \<Rightarrow> string" where
  "byte_hex b = [hex_digit (unat b div 16), hex_digit (unat b mod 16)]"

definition Hex :: "bytes \<Rightarrow> string" where
  "Hex key = concat (map byte_hex key)"

fun hex_DecodeString :: "string \<Rightarrow> bytes option" where
  "hex_DecodeString [] = Some []"
| "hex_DecodeString (x # y # cs) = (case (hex_val x, hex_val y, hex_DecodeString cs) of
     (Some i, Some j, Some bs) \<Rightarrow> Some (of_nat (i * 16 + j) # bs) | _ \<Rightarrow> None)"
| "hex_DecodeString [x] = None"

definition DecodeHex :: "string \<Rightarrow> bytes option" where
  "DecodeHex s = (case hex_DecodeString s of None \<Rightarrow> None | Some b \<Rightarrow> if length b \<noteq> KeySize then None else Some b)"

definition clamp :: "bytes \<Rightarrow> bytes" where
  "clamp k = (let k = k[0 := k ! 0 AND 248]; k = k[31 := k ! 31 AND 127] in k[31 := k ! 31 OR 64])"

section \<open>Round trips\<close>

lemma b64_val_char: "k < 64 \<Longrightarrow> b64_val (b64_char k) = Some k"
  by (auto simp: b64_val_def b64_char_def Let_def)

lemma b64_char_plain:
  "k < 64 \<Longrightarrow> b64_char k \<noteq> CHR ''=''" "k < 64 \<Longrightarrow> (of_char (b64_char k) :: nat) \<noteq> 10" "k < 64 \<Longrightarrow> (of_char (b64_char k) :: nat) \<noteq> 13"
proof -
  have "b64_val (CHR ''='') = None" by (simp add: b64_val_def)
  then show "k < 64 \<Longrightarrow> b64_char k \<noteq> CHR ''=''" using b64_val_char [of k] by auto
qed (auto simp: b64_char_def)

lemma unat_byte: "unat (b :: u8) < 256"
  using unsigned_less [where ?'a = nat, of b] by simp

lemma base64_digits: "(n :: nat) div 262144 * 262144 + n div 4096 mod 64 * 4096 + n div 64 mod 64 * 64 + n mod 64 = n"
proof -
  have step: "m div 64 * 64 + m mod 64 = m" for m :: nat by (rule div_mult_mod_eq)
  have "n div 262144 = n div 4096 div 64" "n div 4096 = n div 64 div 64" by (simp_all flip: div_mult2_eq)
  with step [of "n div 4096"] step [of "n div 64"] step [of n] show ?thesis by linarith
qed

lemma bytes_of_3:
  assumes "a < 256" "b < 256" "c < (256 :: nat)"
  shows "(a * 65536 + b * 256 + c) div 65536 = a" "(a * 65536 + b * 256 + c) div 256 mod 256 = b" "(a * 65536 + b * 256 + c) mod 256 = c"
proof -
  have "a * 65536 + b * 256 + c = (b * 256 + c) + a * 65536" "b * 256 + c < 65536" using assms by linarith+
  then show "(a * 65536 + b * 256 + c) div 65536 = a" by simp
  have e: "a * 65536 + b * 256 + c = c + (a * 256 + b) * 256" by (simp add: algebra_simps)
  show "(a * 65536 + b * 256 + c) div 256 mod 256 = b" "(a * 65536 + b * 256 + c) mod 256 = c"
    unfolding e using assms by (simp_all only: div_mult_self1 mod_mult_self1) simp_all
qed

lemma quanta_Encode: "b64_quanta (EncodeToString bs) = Some bs"
proof (induction bs rule: EncodeToString.induct)
  case (2 a)
  define n where "n = unat a * 16"
  have n: "n div 64 < 64" "n mod 64 < 64" using unat_byte [of a] by (simp_all add: n_def)
  have "(n div 64 * 64 + n mod 64) div 16 = unat a" unfolding div_mult_mod_eq by (simp add: n_def)
  then show ?case using n by (simp add: b64_val_char flip: n_def)
next
  case (3 a b)
  define n where "n = unat a * 1024 + unat b * 4"
  have n: "n div 4096 < 64" "n div 64 mod 64 < 64" "n mod 64 < 64" using unat_byte [of a] unat_byte [of b] by (simp_all add: n_def)
  have eq: "n div 4096 * 4096 + n div 64 mod 64 * 64 + n mod 64 = n"
  proof -
    have "n div 4096 = n div 64 div 64" by (simp flip: div_mult2_eq)
    with div_mult_mod_eq [of "n div 64" 64] div_mult_mod_eq [of n 64] show ?thesis by linarith
  qed
  have "n = 4 * (unat a * 256 + unat b)" by (simp add: n_def)
  then have "n div 1024 = unat a" "n div 4 mod 256 = unat b" using unat_byte [of b] by (simp_all add: div_mult2_eq [of n 4 256, simplified])
  then show ?case using n by (simp add: b64_val_char b64_char_plain eq Let_def flip: n_def)
next
  case (4 a b c bs)
  define n where "n = unat a * 65536 + unat b * 256 + unat c"
  have "n < 16777216" using unat_byte [of a] unat_byte [of b] unat_byte [of c] by (simp add: n_def)
  then have n: "n div 262144 < 64" "n div 4096 mod 64 < 64" "n div 64 mod 64 < 64" "n mod 64 < 64" by (simp_all add: less_mult_imp_div_less)
  have "n div 65536 = unat a" "n div 256 mod 256 = unat b" "n mod 256 = unat c"
    using bytes_of_3 [OF unat_byte unat_byte unat_byte, of a b c] by (simp_all add: n_def)
  then show ?case using n 4 by (simp add: b64_val_char b64_char_plain base64_digits Let_def flip: n_def)
qed simp

lemma Encode_plain: "c \<in> set (EncodeToString bs) \<Longrightarrow> (of_char c :: nat) \<noteq> 10 \<and> (of_char c :: nat) \<noteq> 13"
proof (induction bs rule: EncodeToString.induct)
  case (4 a b d bs)
  have "unat a * 65536 + unat b * 256 + unat d < 16777216" using unat_byte [of a] unat_byte [of b] unat_byte [of d] by simp
  then have "(unat a * 65536 + unat b * 256 + unat d) div 262144 < 64" by (simp add: less_mult_imp_div_less)
  then show ?case using 4 by (auto simp: Let_def b64_char_plain)
next
  case (3 a b)
  have "unat a * 1024 + unat b * 4 < 262144" using unat_byte [of a] unat_byte [of b] by simp
  then have "(unat a * 1024 + unat b * 4) div 4096 < 64" by (simp add: less_mult_imp_div_less)
  then show ?case using 3 by (auto simp: Let_def b64_char_plain)
qed (use unat_byte in \<open>auto simp: Let_def b64_char_plain less_mult_imp_div_less\<close>)

lemma DecodeString_Encode [simp]: "DecodeString (EncodeToString bs) = Some bs"
proof -
  have "filter (\<lambda>c. (of_char c :: nat) \<noteq> 10 \<and> (of_char c :: nat) \<noteq> 13) (EncodeToString bs) = EncodeToString bs"
    using Encode_plain by (simp add: filter_id_conv)
  then show ?thesis by (simp add: DecodeString_def quanta_Encode)
qed

lemma hex_val_digit: "k < 16 \<Longrightarrow> hex_val (hex_digit k) = Some k"
  by (auto simp: hex_val_def hex_digit_def Let_def)

lemma hex_Decode_Hex [simp]: "hex_DecodeString (Hex bs) = Some bs"
proof (induction bs)
  case (Cons b bs)
  have "unat b div 16 < 16" "unat b mod 16 < 16" using unat_byte [of b] by (simp_all add: less_mult_imp_div_less)
  then show ?case using Cons by (simp add: Hex_def byte_hex_def hex_val_digit)
qed (simp add: Hex_def)

text \<open> Keys survive their text forms: a 32-byte key is read back unchanged from its base64 and from its
  hexadecimal form, and the controller accepts the base64 form as a public key.
\<close>

theorem key_text_roundtrip:
  assumes "length key = KeySize"
  shows "DecodeBase64 (Base64 key) = Some key \<and> DecodeHex (Hex key) = Some key \<and> parsePublicKey (Base64 key)"
  using assms by (simp add: DecodeBase64_def Base64_def DecodeHex_def parsePublicKey_def KeySize_def)

theorem key_text_roundtrip_witness:
  "DecodeBase64 (Base64 (replicate 32 7)) = Some (replicate 32 7) \<and> DecodeHex (Hex (replicate 32 7)) = Some (replicate 32 7)
   \<and> parsePublicKey (Base64 (replicate 32 7))"
  by (rule key_text_roundtrip) (simp add: KeySize_def)

lemma b64_val_AB: "b64_val (CHR ''A'') = Some 0" "b64_val (CHR ''B'') = Some 1"
  by (simp_all add: b64_val_def)

lemma quanta_zeros: "b64_quanta (concat (replicate n ''AAAA'') @ xs) = map_option (\<lambda>bs. replicate (3 * n) 0 @ bs) (b64_quanta xs)"
proof (induction n)
  case (Suc n)
  have "3 * Suc n = Suc (Suc (Suc (3 * n)))" by simp
  then show ?case using Suc by (cases "b64_quanta xs") (simp_all only: replicate_Suc, simp_all add: b64_val_AB)
qed (simp add: option.map_ident)

lemma Decode_zeros:
  "list_all (\<lambda>c. (of_char c :: nat) \<noteq> 10 \<and> (of_char c :: nat) \<noteq> 13) xs \<Longrightarrow>
   DecodeString (concat (replicate n ''AAAA'') @ xs) = map_option (\<lambda>bs. replicate (3 * n) 0 @ bs) (b64_quanta xs)"
proof -
  assume "list_all (\<lambda>c. (of_char c :: nat) \<noteq> 10 \<and> (of_char c :: nat) \<noteq> 13) xs"
  then have "filter (\<lambda>c. (of_char c :: nat) \<noteq> 10 \<and> (of_char c :: nat) \<noteq> 13) (concat (replicate n ''AAAA'') @ xs) = concat (replicate n ''AAAA'') @ xs"
    by (induction n) (simp_all add: list_all_iff)
  then show ?thesis by (simp only: DecodeString_def quanta_zeros)
qed

text \<open> The text of a key is not unique: two different texts pass the controller's test of a public key and
  name the same key, because the last digit carries two bits nobody reads. The controller compares the
  texts to find out whether a key already has a session.
\<close>

theorem key_text_not_unique:
  "\<exists>a b. a \<noteq> b \<and> parsePublicKey a \<and> parsePublicKey b \<and> DecodeBase64 a = DecodeBase64 b"
proof -
  let ?a = "concat (replicate 10 ''AAAA'') @ ''AAA=''" and ?b = "concat (replicate 10 ''AAAA'') @ ''AAB=''"
  have "DecodeString ?a = Some (replicate (3 * 10) 0 @ [0, 0])" "DecodeString ?b = Some (replicate (3 * 10) 0 @ [0, 0])"
    by (subst Decode_zeros; simp add: b64_val_AB)+
  moreover have "?a \<noteq> ?b" by (simp only: same_append_eq) simp
  ultimately show ?thesis
    by (intro exI [of _ ?a] exI [of _ ?b] conjI) (simp_all only: parsePublicKey_def DecodeBase64_def, simp_all)
qed

end
