(* ===== verification/Netip.thy ===== *)
theory Netip
  imports Keys
begin

text \<open>
  The part of Go's \<^verbatim>\<open>net/netip\<close> the program uses: addresses (without IPv6 zones), prefixes, and their
  text form. An IPv4 address is its 32-bit value, an IPv6 address its 128-bit value; \<open>NoAddr\<close> is the
  zero \<^verbatim>\<open>Addr\<close>, which is not a valid address.
\<close>

section \<open>Addresses and prefixes\<close>

datatype Addr = NoAddr | Addr4 u32 | Addr6 "128 word"

definition Is4 :: "Addr \<Rightarrow> bool" where
  "Is4 a = (case a of Addr4 _ \<Rightarrow> True | _ \<Rightarrow> False)"

definition Is6 :: "Addr \<Rightarrow> bool" where
  "Is6 a = (case a of Addr6 _ \<Rightarrow> True | _ \<Rightarrow> False)"

definition BitLen :: "Addr \<Rightarrow> nat" where
  "BitLen a = (case a of NoAddr \<Rightarrow> 0 | Addr4 _ \<Rightarrow> 32 | Addr6 _ \<Rightarrow> 128)"

definition Next :: "Addr \<Rightarrow> Addr" where
  "Next a = (case a of
     NoAddr \<Rightarrow> NoAddr
   | Addr4 w \<Rightarrow> (if w + 1 = 0 then NoAddr else Addr4 (w + 1))
   | Addr6 w \<Rightarrow> (if w + 1 = 0 then NoAddr else Addr6 (w + 1)))"

text \<open>An invalid prefix has length \<open>-1\<close>.\<close>

record Prefix =
  pfxAddr :: Addr
  pfxBits :: int

definition Prefix_IsValid :: "Prefix \<Rightarrow> bool" where
  "Prefix_IsValid p \<longleftrightarrow> pfxAddr p \<noteq> NoAddr \<and> 0 \<le> pfxBits p \<and> pfxBits p \<le> int (BitLen (pfxAddr p))"

definition host_bits :: "Prefix \<Rightarrow> nat" where
  "host_bits p = BitLen (pfxAddr p) - nat (pfxBits p)"

definition Contains :: "Prefix \<Rightarrow> Addr \<Rightarrow> bool" where
  "Contains p a \<longleftrightarrow> Prefix_IsValid p \<and>
     (case (pfxAddr p, a) of
        (Addr4 x, Addr4 y) \<Rightarrow> drop_bit (host_bits p) (x XOR y) = 0
      | (Addr6 x, Addr6 y) \<Rightarrow> drop_bit (host_bits p) (x XOR y) = 0
      | _ \<Rightarrow> False)"

definition Masked :: "Prefix \<Rightarrow> Prefix" where
  "Masked p = (if \<not> Prefix_IsValid p then \<lparr>pfxAddr = NoAddr, pfxBits = -1\<rparr> else
     p\<lparr>pfxAddr := (case pfxAddr p of
        NoAddr \<Rightarrow> NoAddr
      | Addr4 x \<Rightarrow> Addr4 (push_bit (host_bits p) (drop_bit (host_bits p) x))
      | Addr6 x \<Rightarrow> Addr6 (push_bit (host_bits p) (drop_bit (host_bits p) x)))\<rparr>)"

definition Overlaps :: "Prefix \<Rightarrow> Prefix \<Rightarrow> bool" where
  "Overlaps p q \<longleftrightarrow> Prefix_IsValid p \<and> Prefix_IsValid q \<and>
     (let n = nat (min (pfxBits p) (pfxBits q)) in
      case (pfxAddr p, pfxAddr q) of
        (Addr4 x, Addr4 y) \<Rightarrow> drop_bit (32 - n) x = drop_bit (32 - n) y
      | (Addr6 x, Addr6 y) \<Rightarrow> drop_bit (128 - n) x = drop_bit (128 - n) y
      | _ \<Rightarrow> False)"

section \<open>Text\<close>

fun split_on :: "'a \<Rightarrow> 'a list \<Rightarrow> 'a list list" where
  "split_on c [] = [[]]"
| "split_on c (x # xs) = (if x = c then [] # split_on c xs
     else (case split_on c xs of [] \<Rightarrow> [[x]] | w # ws \<Rightarrow> (x # w) # ws))"

fun join_with :: "'a \<Rightarrow> 'a list list \<Rightarrow> 'a list" where
  "join_with c [] = []"
| "join_with c [w] = w"
| "join_with c (w # v # ws) = w @ c # join_with c (v # ws)"

text \<open>One decimal octet: no leading zero, at most 255.\<close>

definition parse_octet :: "string \<Rightarrow> nat option" where
  "parse_octet s = (if s \<noteq> [] \<and> list_all is_digit s \<and> length s \<le> 3 \<and> (hd s = CHR ''0'' \<longrightarrow> length s = 1)
     \<and> dec_value s \<le> 255 then Some (dec_value s) else None)"

definition parse4 :: "string \<Rightarrow> u32 option" where
  "parse4 s = (case map parse_octet (split_on (CHR ''.'') s) of
     [Some a, Some b, Some c, Some d] \<Rightarrow> Some (of_nat (((a * 256 + b) * 256 + c) * 256 + d))
   | _ \<Rightarrow> None)"

definition text4 :: "u32 \<Rightarrow> string" where
  "text4 w = (let n = unat w in
     join_with (CHR ''.'') [dec (n div 16777216), dec (n div 65536 mod 256), dec (n div 256 mod 256), dec (n mod 256)])"

definition parse_group :: "string \<Rightarrow> nat option" where
  "parse_group s = (if s \<noteq> [] \<and> length s \<le> 4 \<and> list_all (\<lambda>c. hex_val c \<noteq> None) s
     then Some (foldl (\<lambda>a c. a * 16 + the (hex_val c)) 0 s) else None)"

text \<open>A run of colon-separated groups; \<open>final\<close> allows a dotted IPv4 tail.\<close>

fun parse_groups :: "bool \<Rightarrow> string list \<Rightarrow> nat list option" where
  "parse_groups final [] = Some []"
| "parse_groups final [g] = (case parse_group g of Some n \<Rightarrow> Some [n]
     | None \<Rightarrow> (if \<not> final then None else
         case parse4 g of None \<Rightarrow> None | Some w \<Rightarrow> Some [unat w div 65536, unat w mod 65536]))"
| "parse_groups final (g # h # gs) = (case parse_group g of None \<Rightarrow> None
     | Some n \<Rightarrow> (case parse_groups final (h # gs) of None \<Rightarrow> None | Some ns \<Rightarrow> Some (n # ns)))"

fun split_dcolon :: "string \<Rightarrow> (string \<times> string) option" where
  "split_dcolon [] = None"
| "split_dcolon (c # s) =
     (if c = CHR '':'' \<and> s \<noteq> [] \<and> hd s = CHR '':'' then Some ([], tl s)
      else case split_dcolon s of None \<Rightarrow> None | Some (l, r) \<Rightarrow> Some (c # l, r))"

definition groups_of :: "bool \<Rightarrow> string \<Rightarrow> nat list option" where
  "groups_of final s = (if s = [] then Some [] else parse_groups final (split_on (CHR '':'') s))"

definition of_groups :: "nat list \<Rightarrow> 128 word" where
  "of_groups gs = of_nat (foldl (\<lambda>a g. a * 65536 + g) 0 gs)"

definition parse6 :: "string \<Rightarrow> 128 word option" where
  "parse6 s = (case split_dcolon s of
     None \<Rightarrow> (case groups_of True s of None \<Rightarrow> None | Some gs \<Rightarrow> (if length gs = 8 then Some (of_groups gs) else None))
   | Some (l, r) \<Rightarrow> (case (groups_of False l, groups_of True r) of
        (Some a, Some b) \<Rightarrow> (if length a + length b \<le> 7
           then Some (of_groups (a @ replicate (8 - length a - length b) 0 @ b)) else None)
      | _ \<Rightarrow> None))"

text \<open>\<^verbatim>\<open>ParseAddr\<close>: the first of dot, colon and percent decides the family. Zones are refused here.\<close>

definition ParseAddr :: "string \<Rightarrow> Addr option" where
  "ParseAddr s = (case find (\<lambda>c. c \<in> {CHR ''.'', CHR '':'', CHR ''%''}) s of
     Some c \<Rightarrow> (if c = CHR ''.'' then map_option Addr4 (parse4 s)
        else if c = CHR '':'' then map_option Addr6 (parse6 s) else None)
   | None \<Rightarrow> None)"

fun hex :: "nat \<Rightarrow> string" where
  "hex n = (let d = (\<lambda>k. if k < 10 then char_of (48 + k) else char_of (87 + k))
            in if n < 16 then [d n] else hex (n div 16) @ [d (n mod 16)])"

declare hex.simps [simp del]

definition groups6 :: "128 word \<Rightarrow> nat list" where
  "groups6 w = map (\<lambda>i. unat (drop_bit (16 * i) w) mod 65536) (rev [0..<8])"

definition zero_run :: "nat list \<Rightarrow> nat \<Rightarrow> nat" where
  "zero_run gs i = length (takeWhile (\<lambda>g. g = 0) (drop i gs))"

text \<open>The first longest run of at least two zero groups, as a start and a length.\<close>

definition best_run :: "nat list \<Rightarrow> (nat \<times> nat) option" where
  "best_run gs = foldl (\<lambda>b i. if zero_run gs i \<ge> 2 \<and> (case b of None \<Rightarrow> True | Some (_, n) \<Rightarrow> zero_run gs i > n)
     then Some (i, zero_run gs i) else b) None [0..<length gs]"

definition text6 :: "128 word \<Rightarrow> string" where
  "text6 w = (let gs = groups6 w; j = (\<lambda>xs. join_with (CHR '':'') (map hex xs)) in
     if take 6 gs = [0, 0, 0, 0, 0, 65535] then ''::ffff:'' @ text4 (of_nat (gs ! 6 * 65536 + gs ! 7))
     else case best_run gs of None \<Rightarrow> j gs
        | Some (i, n) \<Rightarrow> j (take i gs) @ ''::'' @ j (drop (i + n) gs))"

text \<open>\<^verbatim>\<open>Addr.MarshalText\<close> and \<^verbatim>\<open>UnmarshalText\<close>: the zero address is the empty text.\<close>

definition addr_text :: "Addr \<Rightarrow> string" where
  "addr_text a = (case a of NoAddr \<Rightarrow> [] | Addr4 w \<Rightarrow> text4 w | Addr6 w \<Rightarrow> text6 w)"

definition addr_untext :: "string \<Rightarrow> Addr option" where
  "addr_untext s = (if s = [] then Some NoAddr else ParseAddr s)"

text \<open>\<^verbatim>\<open>ParseAddrPort\<close>: the last colon splits; IPv6 stands in brackets, IPv4 does not.\<close>

definition ParseUint16 :: "string \<Rightarrow> u16 option" where
  "ParseUint16 s = (if s \<noteq> [] \<and> list_all is_digit s \<and> dec_value s < 2 ^ 16 then Some (of_nat (dec_value s)) else None)"

definition ParseAddrPort :: "string \<Rightarrow> (Addr \<times> u16) option" where
  "ParseAddrPort s =
     (let port = rev (takeWhile (\<lambda>c. c \<noteq> CHR '':'') (rev s)) in
      if CHR '':'' \<notin> set s then None
      else let ip = take (length s - length port - 1) s in
      if ip = [] \<or> port = [] then None
      else let v6 = (hd ip = CHR ''['') in
      if v6 \<and> (length ip < 2 \<or> last ip \<noteq> CHR '']'') then None
      else case (ParseUint16 port, ParseAddr (if v6 then butlast (tl ip) else ip)) of
        (Some p, Some a) \<Rightarrow> (if v6 \<and> Is4 a \<or> \<not> v6 \<and> Is6 a then None else Some (a, p))
      | _ \<Rightarrow> None)"

text \<open>\<^verbatim>\<open>AddrPort.String\<close>, for a valid address.\<close>

definition AddrPort_String :: "Addr \<Rightarrow> u16 \<Rightarrow> string" where
  "AddrPort_String a port = (case a of
     NoAddr \<Rightarrow> ''invalid AddrPort''
   | Addr4 w \<Rightarrow> text4 w @ '':'' @ dec (unat port)
   | Addr6 w \<Rightarrow> ''['' @ text6 w @ '']:'' @ dec (unat port))"

text \<open>\<^verbatim>\<open>Addr.String\<close> and \<^verbatim>\<open>Prefix.String\<close>.\<close>

definition Addr_String :: "Addr \<Rightarrow> string" where
  "Addr_String a = (if a = NoAddr then ''invalid IP'' else addr_text a)"

definition Prefix_String :: "Prefix \<Rightarrow> string" where
  "Prefix_String p = (if Prefix_IsValid p then addr_text (pfxAddr p) @ ''/'' @ dec (nat (pfxBits p)) else ''invalid Prefix'')"

section \<open>IPv4 text reads back\<close>

lemma split_on_no: "c \<notin> set w \<Longrightarrow> split_on c w = [w]"
  by (induction w) auto

lemma split_on_app: "c \<notin> set w \<Longrightarrow> split_on c (w @ c # s) = w # split_on c s"
  by (induction w) auto

lemma hd_dec: "n \<noteq> 0 \<Longrightarrow> hd (dec n) \<noteq> CHR ''0''"
proof (induction n rule: dec.induct)
  case (1 n)
  show ?case
  proof (cases "n < 10")
    case True
    have "digit_val (CHR ''0'') = 0" by (simp add: digit_val_def)
    with True 1(2) have "digit_char n \<noteq> CHR ''0''" by (metis digit_val_digit_char)
    then show ?thesis using True by (simp add: dec.simps [of n])
  next
    case False
    with 1 show ?thesis by (simp add: dec.simps [of n])
  qed
qed

lemma length_dec_256: "n < 256 \<Longrightarrow> length (dec n) \<le> 3"
  by (simp add: dec.simps [of n] dec.simps [of "n div 10"] dec.simps [of "n div 10 div 10"])

lemma dec_no_dot: "CHR ''.'' \<notin> set (dec n)" "CHR '':'' \<notin> set (dec n)" "CHR ''%'' \<notin> set (dec n)"
  using dec_digits [of n] by (auto simp: list_all_iff is_digit_def)

lemma dec_0: "dec 0 = ''0''"
  by code_simp

lemma parse_octet_dec [simp]: "n < 256 \<Longrightarrow> parse_octet (dec n) = Some n"
proof (cases "n = 0")
  case True
  then show ?thesis using dec_digits [of 0] dec_value_dec [of 0] by (simp add: parse_octet_def dec_0)
next
  case False
  assume "n < 256"
  then show ?thesis using False hd_dec [of n] length_dec_256 [of n] by (simp add: parse_octet_def dec_digits)
qed

lemma base256:
  "((n div 16777216 * 256 + n div 65536 mod 256) * 256 + n div 256 mod 256) * 256 + n mod 256 = (n :: nat)"
proof -
  have step: "m div 256 * 256 + m mod 256 = m" for m :: nat by (rule div_mult_mod_eq)
  have "n div 16777216 = n div 65536 div 256" "n div 65536 = n div 256 div 256" by (simp_all flip: div_mult2_eq)
  then show ?thesis using step [of "n div 65536"] step [of "n div 256"] step [of n] by simp
qed

lemma parse4_text4 [simp]: "parse4 (text4 w) = Some w"
proof -
  define n where "n = unat w"
  have n: "n < 4294967296" using unsigned_less [of w] by (simp add: n_def)
  have sp: "split_on (CHR ''.'') (text4 w) = [dec (n div 16777216), dec (n div 65536 mod 256), dec (n div 256 mod 256), dec (n mod 256)]"
    by (simp add: text4_def Let_def n_def split_on_app split_on_no dec_no_dot)
  have "((n div 16777216 * 256 + n div 65536 mod 256) * 256 + n div 256 mod 256) * 256 + n mod 256 = n"
    by (rule base256)
  then show ?thesis using n unfolding parse4_def sp by (simp add: n_def less_mult_imp_div_less)
qed

lemma find_first_dot: "CHR ''.'' \<notin> set w \<Longrightarrow> CHR '':'' \<notin> set w \<Longrightarrow> CHR ''%'' \<notin> set w \<Longrightarrow>
  find (\<lambda>c. c \<in> {CHR ''.'', CHR '':'', CHR ''%''}) (w @ CHR ''.'' # s) = Some (CHR ''.'')"
  by (induction w) auto

lemma ParseAddr_text4 [simp]: "ParseAddr (text4 w) = Some (Addr4 w)"
proof -
  obtain n s where "text4 w = dec n @ CHR ''.'' # s" by (simp add: text4_def Let_def)
  then have "find (\<lambda>c. c \<in> {CHR ''.'', CHR '':'', CHR ''%''}) (text4 w) = Some (CHR ''.'')"
    using find_first_dot [OF dec_no_dot, of n s] by simp
  then show ?thesis by (simp add: ParseAddr_def)
qed

lemma text4_nonempty [simp]: "text4 w \<noteq> []"
  by (simp add: text4_def Let_def)

lemma addr_untext_text4 [simp]: "addr_untext (text4 w) = Some (Addr4 w)"
  by (simp add: addr_untext_def)

end
