(* ===== verification/Api.thy ===== *)
theory Api
  imports Netip Ownership Membership Policy
begin

text \<open>
  \<^verbatim>\<open>internal/api/types.go\<close>: what the controller, the gateways and the clients exchange, with the JSON
  readers the controller uses (request bodies are decoded with \<^verbatim>\<open>DisallowUnknownFields\<close>).
\<close>

section \<open>Roles and backends\<close>

definition is_space :: "char \<Rightarrow> bool" where
  "is_space c \<longleftrightarrow> (of_char c :: nat) \<in> {9, 10, 11, 12, 13, 32}"

definition TrimSpace :: "string \<Rightarrow> string" where
  "TrimSpace s = rev (dropWhile is_space (rev (dropWhile is_space s)))"

fun roles_of :: "string list \<Rightarrow> GatewayRole \<Rightarrow> GatewayRole option" where
  "roles_of [] r = Some r"
| "roles_of (part # parts) r =
     (if TrimSpace part = ''access'' then roles_of parts (r OR RoleAccess)
      else if TrimSpace part = ''egress'' then roles_of parts (r OR RoleEgress)
      else if TrimSpace part = [] then roles_of parts r
      else None)"

definition ParseRoles :: "string \<Rightarrow> GatewayRole option" where
  "ParseRoles s = (case roles_of (split_on (CHR '','') s) 0 of
     None \<Rightarrow> None | Some r \<Rightarrow> if r = 0 then None else Some r)"

definition BackendWireGuard :: string where "BackendWireGuard = ''wireguard''"
definition BackendIPsec :: string where "BackendIPsec = ''ipsec''"

definition ValidBackend :: "string \<Rightarrow> bool" where
  "ValidBackend b \<longleftrightarrow> b = [] \<or> b = BackendWireGuard \<or> b = BackendIPsec"

definition IPsecGatewayID :: "string \<Rightarrow> string" where "IPsecGatewayID i = ''gw-'' @ i"
definition IPsecClientID :: "string \<Rightarrow> string" where "IPsecClientID session = ''s'' @ session"

section \<open>Types\<close>

record Gateway =
  gID :: string
  gRoles :: GatewayRole
  gEndpoint :: string
  gPublicKey :: string
  gNodeIP :: Addr
  gBackbonePorts :: "(string, u16) gomap"
  gIPsec :: bool
  gAlive :: bool

definition zeroGateway :: Gateway where
  "zeroGateway = \<lparr>gID = [], gRoles = 0, gEndpoint = [], gPublicKey = [], gNodeIP = NoAddr, gBackbonePorts = [],
     gIPsec = False, gAlive = False\<rparr>"

definition Gateway_Host :: "Gateway \<Rightarrow> Addr option" where
  "Gateway_Host g = map_option fst (ParseAddrPort (gEndpoint g))"

record RegisterGatewayRequest =
  rgRoles :: GatewayRole
  rgEndpoint :: string
  rgPublicKey :: string
  rgBackbonePorts :: "(string, u16) gomap"
  rgIPsec :: bool

record Network =
  ClientSubnet :: Prefix
  NodeSubnet :: Prefix
  ProbePort :: u16

record RegisterGatewayResponse =
  rrNodeIP :: Addr
  rrNetwork :: Network

record Session =
  sID :: string
  sPublicKey :: string
  sVirtualIP :: Addr
  sAccess :: string
  sEgress :: string
  sEpoch :: u64
  sBackend :: string
  sIPsecPSK :: string

record GatewayState =
  gsVersion :: u64
  gsNetwork :: Network
  gsGateways :: "Gateway list"
  gsSessions :: "Session list"

record Link =
  lFrom :: string
  lTo :: string
  lStats :: SegmentStats
  lStaleness :: duration

record CreateSessionRequest =
  csPublicKey :: string
  csEgress :: string
  csSecret :: string
  csBackend :: string

record CreateSessionResponse =
  crSession :: Session
  crSecret :: string
  crNetwork :: Network

record ClientState =
  clVersion :: u64
  clNetwork :: Network
  clSession :: Session
  clGateways :: "Gateway list"
  clLinks :: "Link list"
  clPolicy :: PolicyDocument

record MigrateRequest =
  mqEpoch :: u64
  mqAccess :: string
  mqEgress :: string

definition FindGateway :: "Gateway list \<Rightarrow> string \<Rightarrow> Gateway \<times> bool" where
  "FindGateway gws i = (case find (\<lambda>g. gID g = i) gws of None \<Rightarrow> (zeroGateway, False) | Some g \<Rightarrow> (g, True))"

section \<open>JSON\<close>

definition read_addr :: "json \<Rightarrow> Addr option" where
  "read_addr j = (case j of JStr s \<Rightarrow> addr_untext s | _ \<Rightarrow> None)"

text \<open>A map is decoded into the one already there; a \<^verbatim>\<open>null\<close> element is the zero value.\<close>

definition port_step :: "(string, u16) gomap option \<Rightarrow> string \<times> json \<Rightarrow> (string, u16) gomap option" where
  "port_step acc e = (case e of (k, v) \<Rightarrow>
     case acc of None \<Rightarrow> None
     | Some m \<Rightarrow> if v = JNull then Some (mput k 0 m)
         else (case read_uint v of None \<Rightarrow> None | Some p \<Rightarrow> Some (mput k p m)))"

definition read_ports :: "(string, u16) gomap \<Rightarrow> json \<Rightarrow> (string, u16) gomap option" where
  "read_ports old j = (case j of JObj kvs \<Rightarrow> foldl port_step (Some old) kvs | _ \<Rightarrow> None)"

definition ports_json :: "(string, u16) gomap \<Rightarrow> json" where
  "ports_json m = JObj (map (\<lambda>(k, p). (k, JInt (uint p))) (sort_key fst m))"

definition MarshalGateway :: "Gateway \<Rightarrow> raw" where
  "MarshalGateway g = RawJson (JObj (
     [(''id'', JStr (gID g)), (''roles'', JInt (gRoles g)), (''endpoint'', JStr (gEndpoint g)),
      (''public_key'', JStr (gPublicKey g)), (''node_ip'', JStr (addr_text (gNodeIP g)))]
     @ (if gBackbonePorts g = [] then [] else [(''backbone_ports'', ports_json (gBackbonePorts g))])
     @ (if gIPsec g then [(''ipsec'', JBool True)] else [])
     @ [(''alive'', JBool (gAlive g))]))"

definition Gateway_fields :: "(string \<times> json) list \<Rightarrow> jsonErr + Gateway" where
  "Gateway_fields kvs =
     (case field read_str [] ''id'' kvs of Inl e \<Rightarrow> Inl e | Inr i \<Rightarrow>
      case field read_int64 0 ''roles'' kvs of Inl e \<Rightarrow> Inl e | Inr r \<Rightarrow>
      case field read_str [] ''endpoint'' kvs of Inl e \<Rightarrow> Inl e | Inr ep \<Rightarrow>
      case field read_str [] ''public_key'' kvs of Inl e \<Rightarrow> Inl e | Inr pk \<Rightarrow>
      case field read_addr NoAddr ''node_ip'' kvs of Inl e \<Rightarrow> Inl e | Inr ip \<Rightarrow>
      case field_into read_ports [] ''backbone_ports'' kvs of Inl e \<Rightarrow> Inl e | Inr bp \<Rightarrow>
      case field read_bool False ''ipsec'' kvs of Inl e \<Rightarrow> Inl e | Inr ipsec \<Rightarrow>
      case field read_bool False ''alive'' kvs of Inl e \<Rightarrow> Inl e | Inr al \<Rightarrow>
      Inr \<lparr>gID = i, gRoles = r, gEndpoint = ep, gPublicKey = pk, gNodeIP = ip, gBackbonePorts = bp, gIPsec = ipsec, gAlive = al\<rparr>)"

text \<open>\<^verbatim>\<open>DisallowUnknownFields\<close>: every key is one of the struct's.\<close>

definition known_keys :: "string list \<Rightarrow> (string \<times> json) list \<Rightarrow> bool" where
  "known_keys names kvs \<longleftrightarrow> list_all (\<lambda>(k, _). list_ex (key_match k) names) kvs"

definition strict :: "string list \<Rightarrow> ((string \<times> json) list \<Rightarrow> jsonErr + 'a) \<Rightarrow> (string \<times> json) list \<Rightarrow> jsonErr + 'a" where
  "strict names rd kvs = (if known_keys names kvs then rd kvs else Inl (TypeError ''unknown field''))"

definition Register_fields :: "(string \<times> json) list \<Rightarrow> jsonErr + RegisterGatewayRequest" where
  "Register_fields kvs =
     (case field read_int64 0 ''roles'' kvs of Inl e \<Rightarrow> Inl e | Inr r \<Rightarrow>
      case field read_str [] ''endpoint'' kvs of Inl e \<Rightarrow> Inl e | Inr ep \<Rightarrow>
      case field read_str [] ''public_key'' kvs of Inl e \<Rightarrow> Inl e | Inr pk \<Rightarrow>
      case field_into read_ports [] ''backbone_ports'' kvs of Inl e \<Rightarrow> Inl e | Inr bp \<Rightarrow>
      case field read_bool False ''ipsec'' kvs of Inl e \<Rightarrow> Inl e | Inr ipsec \<Rightarrow>
      Inr \<lparr>rgRoles = r, rgEndpoint = ep, rgPublicKey = pk, rgBackbonePorts = bp, rgIPsec = ipsec\<rparr>)"

definition decodeRegister :: "raw \<Rightarrow> jsonErr + RegisterGatewayRequest" where
  "decodeRegister = Unmarshal (strict [''roles'', ''endpoint'', ''public_key'', ''backbone_ports'', ''ipsec''] Register_fields)"

definition zeroStats :: SegmentStats where
  "zeroStats = \<lparr>P50Micros = Fin 0, P95Micros = Fin 0, LossRate = Fin 0, VarianceMicros2 = Fin 0, SampleN = 0, Age = 0, Confidence = Fin 0\<rparr>"

definition Stats_fields :: "SegmentStats \<Rightarrow> (string \<times> json) list \<Rightarrow> jsonErr + SegmentStats" where
  "Stats_fields old kvs =
     (case field read_f64 (P50Micros old) ''P50Micros'' kvs of Inl e \<Rightarrow> Inl e | Inr a \<Rightarrow>
      case field read_f64 (P95Micros old) ''P95Micros'' kvs of Inl e \<Rightarrow> Inl e | Inr b \<Rightarrow>
      case field read_f64 (LossRate old) ''LossRate'' kvs of Inl e \<Rightarrow> Inl e | Inr l \<Rightarrow>
      case field read_f64 (VarianceMicros2 old) ''VarianceMicros2'' kvs of Inl e \<Rightarrow> Inl e | Inr v \<Rightarrow>
      case field read_uint (SampleN old) ''N'' kvs of Inl e \<Rightarrow> Inl e | Inr n \<Rightarrow>
      case field read_int64 (Age old) ''Age'' kvs of Inl e \<Rightarrow> Inl e | Inr ag \<Rightarrow>
      case field read_f64 (Confidence old) ''Confidence'' kvs of Inl e \<Rightarrow> Inl e | Inr cf \<Rightarrow>
      Inr \<lparr>P50Micros = a, P95Micros = b, LossRate = l, VarianceMicros2 = v, SampleN = n, Age = ag, Confidence = cf\<rparr>)"

definition read_stats :: "SegmentStats \<Rightarrow> json \<Rightarrow> SegmentStats option" where
  "read_stats old j = (case j of
     JObj kvs \<Rightarrow> ok_opt (strict [''P50Micros'', ''P95Micros'', ''LossRate'', ''VarianceMicros2'', ''N'', ''Age'', ''Confidence'']
       (Stats_fields old) kvs)
   | _ \<Rightarrow> None)"

definition zeroLink :: Link where
  "zeroLink = \<lparr>lFrom = [], lTo = [], lStats = zeroStats, lStaleness = 0\<rparr>"

definition Link_fields :: "(string \<times> json) list \<Rightarrow> jsonErr + Link" where
  "Link_fields kvs =
     (case field read_str [] ''from'' kvs of Inl e \<Rightarrow> Inl e | Inr f \<Rightarrow>
      case field read_str [] ''to'' kvs of Inl e \<Rightarrow> Inl e | Inr t \<Rightarrow>
      case field_into read_stats zeroStats ''stats'' kvs of Inl e \<Rightarrow> Inl e | Inr st \<Rightarrow>
      case field read_int64 0 ''staleness'' kvs of Inl e \<Rightarrow> Inl e | Inr sl \<Rightarrow>
      Inr \<lparr>lFrom = f, lTo = t, lStats = st, lStaleness = sl\<rparr>)"

definition read_link :: "json \<Rightarrow> Link option" where
  "read_link j = (case j of
     JNull \<Rightarrow> Some zeroLink
   | JObj kvs \<Rightarrow> ok_opt (strict [''from'', ''to'', ''stats'', ''staleness''] Link_fields kvs)
   | _ \<Rightarrow> None)"

fun read_all :: "(json \<Rightarrow> 'a option) \<Rightarrow> json list \<Rightarrow> 'a list option" where
  "read_all rd [] = Some []"
| "read_all rd (j # js) = (case rd j of None \<Rightarrow> None
     | Some x \<Rightarrow> (case read_all rd js of None \<Rightarrow> None | Some xs \<Rightarrow> Some (x # xs)))"

definition read_arr :: "(json \<Rightarrow> 'a option) \<Rightarrow> json \<Rightarrow> 'a list option" where
  "read_arr rd j = (case j of JArr js \<Rightarrow> read_all rd js | _ \<Rightarrow> None)"

text \<open>\<^verbatim>\<open>LinkReport\<close> has one field, its links.\<close>

definition decodeLinkReport :: "raw \<Rightarrow> jsonErr + Link list" where
  "decodeLinkReport = Unmarshal (strict [''links''] (field (read_arr read_link) [] ''links''))"

definition Create_fields :: "(string \<times> json) list \<Rightarrow> jsonErr + CreateSessionRequest" where
  "Create_fields kvs =
     (case field read_str [] ''public_key'' kvs of Inl e \<Rightarrow> Inl e | Inr pk \<Rightarrow>
      case field read_str [] ''egress'' kvs of Inl e \<Rightarrow> Inl e | Inr eg \<Rightarrow>
      case field read_str [] ''secret'' kvs of Inl e \<Rightarrow> Inl e | Inr se \<Rightarrow>
      case field read_str [] ''backend'' kvs of Inl e \<Rightarrow> Inl e | Inr b \<Rightarrow>
      Inr \<lparr>csPublicKey = pk, csEgress = eg, csSecret = se, csBackend = b\<rparr>)"

definition decodeCreate :: "raw \<Rightarrow> jsonErr + CreateSessionRequest" where
  "decodeCreate = Unmarshal (strict [''public_key'', ''egress'', ''secret'', ''backend''] Create_fields)"

definition Migrate_fields :: "(string \<times> json) list \<Rightarrow> jsonErr + MigrateRequest" where
  "Migrate_fields kvs =
     (case field read_uint 0 ''epoch'' kvs of Inl e \<Rightarrow> Inl e | Inr ep \<Rightarrow>
      case field read_str [] ''access'' kvs of Inl e \<Rightarrow> Inl e | Inr a \<Rightarrow>
      case field read_str [] ''egress'' kvs of Inl e \<Rightarrow> Inl e | Inr g \<Rightarrow>
      Inr \<lparr>mqEpoch = ep, mqAccess = a, mqEgress = g\<rparr>)"

definition decodeMigrate :: "raw \<Rightarrow> jsonErr + MigrateRequest" where
  "decodeMigrate = Unmarshal (strict [''epoch'', ''access'', ''egress''] Migrate_fields)"

section \<open>Stored gateways read back\<close>

lemma read_addr_text4 [simp]: "read_addr (JStr (text4 w)) = Some (Addr4 w)"
  by (simp add: read_addr_def)

lemma read_ports_ok: "\<exists>m. read_ports [] (ports_json ps) = Some m"
proof -
  have "\<exists>m. foldl port_step (Some m0) (map (\<lambda>(k, p). (k, JInt (uint p))) kvs) = Some m" for m0 and kvs :: "(string \<times> u16) list"
    by (induction kvs arbitrary: m0) (auto simp: port_step_def)
  then show ?thesis by (simp add: read_ports_def ports_json_def)
qed

lemma Unmarshal_MarshalGateway:
  assumes "gNodeIP g = Addr4 w" "role_ok (gRoles g)"
  shows "\<exists>bp. Unmarshal Gateway_fields (MarshalGateway g) = Inr (g\<lparr>gBackbonePorts := bp\<rparr>)"
proof -
  obtain m where m: "read_ports [] (ports_json (gBackbonePorts g)) = Some m" using read_ports_ok by blast
  have nn: "ports_json (gBackbonePorts g) \<noteq> JNull" by (simp add: ports_json_def)
  show ?thesis
    using assms m nn
    by (cases g) (simp add: MarshalGateway_def Gateway_fields_def field_def field_into_def field_step_def key_match_def
        fold_char_def addr_text_def role_ok_def)
qed

lemma FindGateway_iff: "snd (FindGateway gws i) \<longleftrightarrow> (\<exists>g \<in> set gws. gID g = i)"
  by (auto simp: FindGateway_def find_None_iff find_Some_iff split: option.splits)

lemma FindGateway_in: "FindGateway gws i = (g, True) \<Longrightarrow> g \<in> set gws \<and> gID g = i"
  by (auto simp: FindGateway_def split: option.splits dest: find_Some_mem)

end
