(* ===== verification/Allocate.thy ===== *)
theory Allocate
  imports Netip
begin

text \<open>
  Address allocation of \<^verbatim>\<open>internal/controller/server.go\<close> (\<^verbatim>\<open>allocate\<close>): the lowest free address of a
  prefix, from its third on and never the last one. \<^const>\<open>None\<close> is the error that the prefix is full.
\<close>

section \<open>Model\<close>

definition addr_left :: "Addr \<Rightarrow> nat" where
  "addr_left a = (case a of NoAddr \<Rightarrow> 0 | Addr4 w \<Rightarrow> 2 ^ 32 - unat w | Addr6 w \<Rightarrow> 2 ^ 128 - unat w)"

lemma word_left: "w + 1 \<noteq> (0 :: 'a :: len word) \<Longrightarrow> unat (w + 1) = Suc (unat w) \<and> Suc (unat w) < 2 ^ LENGTH('a)"
  using unatSuc [of w] unsigned_less [where ?'a = nat, of "w + 1"] by (simp add: add.commute)

lemma addr_left_Next:
  assumes "a \<noteq> NoAddr"
  shows "addr_left (Next a) < addr_left a"
proof (cases a)
  case (Addr4 w)
  then show ?thesis using word_left [of w] unsigned_less [where ?'a = nat, of w] by (auto simp: addr_left_def Next_def)
next
  case (Addr6 w)
  then show ?thesis using word_left [of w] unsigned_less [where ?'a = nat, of w] by (auto simp: addr_left_def Next_def)
qed (use assms in simp)

lemma Contains_addr: "Contains p a \<Longrightarrow> a \<noteq> NoAddr"
  by (auto simp: Contains_def split: Addr.splits)

function alloc_loop :: "Prefix \<Rightarrow> Addr list \<Rightarrow> Addr \<Rightarrow> Addr option" where
  "alloc_loop p used a =
     (if \<not> Contains p a then None
      else if a \<notin> set used \<and> Contains p (Next a) then Some a
      else alloc_loop p used (Next a))"
  by auto

termination alloc_loop
proof (relation "measure (\<lambda>(p, used, a). addr_left a)")
  fix p used a
  assume "\<not> \<not> Contains p a"
  then have "addr_left (Next a) < addr_left a" using addr_left_Next Contains_addr by blast
  then show "((p, used, Next a), (p, used, a)) \<in> measure (\<lambda>(p, used, a). addr_left a)" by simp
qed simp

declare alloc_loop.simps [simp del]

definition allocate :: "Prefix \<Rightarrow> Addr list \<Rightarrow> Addr option" where
  "allocate p used = alloc_loop p used (Next (Next (pfxAddr p)))"

section \<open>Properties\<close>

text \<open>The addresses allocation may hand out of an IPv4 prefix.\<close>

definition usable :: "Prefix \<Rightarrow> Addr \<Rightarrow> bool" where
  "usable p a = (case (pfxAddr p, a) of
     (Addr4 x, Addr4 w) \<Rightarrow> unat x + 2 \<le> unat w \<and> Contains p a \<and> Contains p (Next a)
   | _ \<Rightarrow> False)"

lemma Contains4:
  "pfxAddr p = Addr4 x \<Longrightarrow> Contains p (Addr4 y) \<longleftrightarrow> Prefix_IsValid p \<and> unat x div 2 ^ host_bits p = unat y div 2 ^ host_bits p"
proof -
  assume "pfxAddr p = Addr4 x"
  have "drop_bit n (x XOR y) = 0 \<longleftrightarrow> unat x div 2 ^ n = unat y div 2 ^ n" for n
    unfolding drop_bit_xor word_xor_eq_0 unfolding word_unat_eq_iff unat_drop_bit_eq unfolding drop_bit_eq_div ..
  with \<open>pfxAddr p = Addr4 x\<close> show ?thesis by (simp add: Contains_def del: drop_bit_xor)
qed

text \<open>A prefix holds an interval.\<close>

lemma Contains4_between:
  assumes "pfxAddr p = Addr4 x" "Contains p (Addr4 a)" "Contains p (Addr4 c)" "unat a \<le> unat b" "unat b \<le> unat c"
  shows "Contains p (Addr4 b)"
  using assms div_le_mono [OF assms(4), of "2 ^ host_bits p"] div_le_mono [OF assms(5), of "2 ^ host_bits p"]
  by (simp add: Contains4)

lemma Next4: "Next (Addr4 w) = (if w + 1 = 0 then NoAddr else Addr4 (w + 1))"
  by (simp add: Next_def)

lemma alloc_loop_spec:
  assumes "pfxAddr p = Addr4 x" "unat x \<le> unat a"
  shows "case alloc_loop p used (Addr4 a) of
      Some r \<Rightarrow> \<exists>w. r = Addr4 w \<and> a \<le> w \<and> r \<notin> set used \<and> Contains p r \<and> Contains p (Next r)
        \<and> (\<forall>v. a \<le> v \<and> v < w \<longrightarrow> Addr4 v \<in> set used)
    | None \<Rightarrow> \<forall>v. a \<le> v \<and> Contains p (Addr4 v) \<and> Contains p (Next (Addr4 v)) \<longrightarrow> Addr4 v \<in> set used"
  using assms(2)
proof (induction "addr_left (Addr4 a)" arbitrary: a rule: less_induct)
  case less
  have inside: "Contains p (Addr4 a)" if "a \<le> v" "Contains p (Addr4 v)" for v
    using Contains4_between [OF assms(1), of x v a] that less.prems
    by (simp add: word_le_nat_alt Contains4 [OF assms(1)])
  consider (stop) "\<not> Contains p (Addr4 a)" | (take) "Contains p (Addr4 a)" "Addr4 a \<notin> set used" "Contains p (Next (Addr4 a))"
    | (last) "Contains p (Addr4 a)" "\<not> Contains p (Next (Addr4 a))"
    | (skip) "Contains p (Addr4 a)" "Addr4 a \<in> set used" "Contains p (Next (Addr4 a))" by blast
  then show ?case
  proof cases
    case stop
    then show ?thesis using inside by (auto simp: alloc_loop.simps [of p used "Addr4 a"])
  next
    case take
    then show ?thesis by (auto simp: alloc_loop.simps [of p used "Addr4 a"])
  next
    case last
    have none: "alloc_loop p used (Addr4 a) = None"
      using last by (simp add: alloc_loop.simps [of p used "Addr4 a"] alloc_loop.simps [of p used "Next (Addr4 a)"])
    have "v = a" if "a \<le> v" "Contains p (Addr4 v)" for v
    proof (rule ccontr)
      assume "v \<noteq> a"
      then have less: "a < v" using that(1) by simp
      then have u: "unat (a + 1) = unat a + 1" by (rule word_less_Suc_unat)
      then have "a + 1 \<noteq> 0" by (metis Suc_eq_plus1 nat.distinct(1) unsigned_0)
      then have "\<not> Contains p (Addr4 (a + 1))" using last(2) by (simp add: Next4)
      moreover have "Contains p (Addr4 (a + 1))"
        using Contains4_between [OF assms(1) last(1) that(2), of "a + 1"] less u by (simp add: word_less_nat_alt)
      ultimately show False by blast
    qed
    then show ?thesis unfolding none using last(2) by auto
  next
    case skip
    then have nz: "a + 1 \<noteq> 0" using Contains_addr [of p "Next (Addr4 a)"] by (auto simp: Next4)
    have u: "unat (a + 1) = Suc (unat a)" using word_left [OF nz] by simp
    have rec: "alloc_loop p used (Addr4 a) = alloc_loop p used (Addr4 (a + 1))"
      using skip nz by (simp add: alloc_loop.simps [of p used "Addr4 a"] Next4)
    have le: "a + 1 \<le> v \<longleftrightarrow> a \<le> v \<and> v \<noteq> a" for v
      by (auto simp: word_le_nat_alt u word_unat_eq_iff)
    have "addr_left (Addr4 (a + 1)) < addr_left (Addr4 a)" using addr_left_Next [of "Addr4 a"] nz by (simp add: Next4)
    from less.hyps [OF this] show ?thesis
      using less.prems skip(2) unfolding rec le u by (fastforce split: option.splits)
  qed
qed

lemma usable_iff:
  "pfxAddr p = Addr4 x \<Longrightarrow> unat a = unat x + 2 \<Longrightarrow>
   usable p (Addr4 v) \<longleftrightarrow> a \<le> v \<and> Contains p (Addr4 v) \<and> Contains p (Next (Addr4 v))"
  by (simp add: usable_def word_le_nat_alt)

lemma usable_Addr4: "usable p a \<Longrightarrow> \<exists>w. a = Addr4 w"
  by (auto simp: usable_def split: Addr.splits)

text \<open>Where the search starts: at the third address, or nowhere when the prefix has none.\<close>

lemma allocate_start:
  assumes "pfxAddr p = Addr4 x"
  obtains (third) a where "unat a = unat x + 2" "allocate p used = alloc_loop p used (Addr4 a)"
  | (none) "allocate p used = None" "\<And>a. \<not> usable p a"
proof (cases "unat x + 2 < 2 ^ 32")
  case True
  have u1: "unat (x + 1) = unat x + 1" using True by (simp add: unat_word_ariths)
  have u2: "unat (x + 1 + 1) = unat x + 2" using True unat_word_ariths(1) [of "x + 1" 1, unfolded u1] by simp
  have "x + 1 \<noteq> 0" "x + 1 + 1 \<noteq> 0" using u1 u2 by (metis add_is_0 one_neq_zero unsigned_0, metis add_is_0 unsigned_0 zero_neq_numeral)
  then have "Next (Next (pfxAddr p)) = Addr4 (x + 1 + 1)" by (simp add: assms Next4)
  then show ?thesis using u2 third [of "x + 1 + 1"] by (metis allocate_def)
next
  case False
  have "\<not> usable p a" for a
  proof (cases a)
    case (Addr4 w)
    have "unat w < 2 ^ 32" using unsigned_less [where ?'a = nat, of w] by simp
    then show ?thesis using False Addr4 by (simp add: usable_def assms)
  qed (simp_all add: usable_def assms)
  moreover have "x + 1 \<noteq> 0 \<Longrightarrow> x + 1 + 1 = 0" using word_left [of x] word_left [of "x + 1"] False by fastforce
  then have "Next (Next (pfxAddr p)) = NoAddr" by (auto simp: assms Next_def)
  then have "allocate p used = None"
    using Contains_addr [of p NoAddr] by (auto simp: allocate_def alloc_loop.simps [of p used NoAddr])
  ultimately show ?thesis using none by blast
qed

lemma allocate_fresh:
  assumes "Is4 (pfxAddr p)" "allocate p used = Some a"
  shows "usable p a \<and> a \<notin> set used"
proof -
  obtain x where x: "pfxAddr p = Addr4 x" using assms(1) by (auto simp: Is4_def split: Addr.splits)
  then show ?thesis
  proof (cases rule: allocate_start [of p x used])
    case (third b)
    then have "alloc_loop p used (Addr4 b) = Some a" using assms(2) by simp
    then show ?thesis using alloc_loop_spec [OF x, of b used] third(1) usable_iff [OF x third(1)] by auto
  qed (use assms(2) in simp_all)
qed

text \<open>
  (C26) Allocation hands out the lowest free address: of an IPv4 prefix it returns the lowest address that
  is at least the third of the prefix, is not in use and is not the prefix's last; it reports the
  prefix as full exactly when every such address is in use. The search always ends.
\<close>

theorem allocate_spec:
  assumes "pfxAddr p = Addr4 x"
  shows "case allocate p used of
      Some r \<Rightarrow> \<exists>w. r = Addr4 w \<and> usable p r \<and> r \<notin> set used \<and> (\<forall>v. usable p (Addr4 v) \<and> Addr4 v \<notin> set used \<longrightarrow> w \<le> v)
    | None \<Rightarrow> \<forall>a. usable p a \<longrightarrow> a \<in> set used"
  using assms
proof (cases rule: allocate_start [of p x used])
  case (third a)
  note us = usable_iff [OF assms third(1)]
  have spec: "case allocate p used of
      Some r \<Rightarrow> \<exists>w. r = Addr4 w \<and> a \<le> w \<and> r \<notin> set used \<and> Contains p r \<and> Contains p (Next r)
        \<and> (\<forall>v. a \<le> v \<and> v < w \<longrightarrow> Addr4 v \<in> set used)
    | None \<Rightarrow> \<forall>v. a \<le> v \<and> Contains p (Addr4 v) \<and> Contains p (Next (Addr4 v)) \<longrightarrow> Addr4 v \<in> set used"
    unfolding third(2) using alloc_loop_spec [OF assms, of a used] third(1) by simp
  show ?thesis
  proof (cases "allocate p used")
    case None
    then show ?thesis using spec us usable_Addr4 [of p] by fastforce
  next
    case (Some r)
    then obtain w where w: "r = Addr4 w" "a \<le> w" "r \<notin> set used" "Contains p r" "Contains p (Next r)"
      "\<forall>v. a \<le> v \<and> v < w \<longrightarrow> Addr4 v \<in> set used" using spec by auto
    have "w \<le> v" if "usable p (Addr4 v)" "Addr4 v \<notin> set used" for v
      using that w(6) us [of v] by (meson not_le)
    then show ?thesis using w us [of w] Some by simp
  qed
qed simp

definition demo_prefix :: Prefix where
  "demo_prefix = \<lparr>pfxAddr = Addr4 0x0A000000, pfxBits = 29\<rparr>"

theorem allocate_spec_witness:
  "allocate demo_prefix [Addr4 0x0A000002] = Some (Addr4 0x0A000003)
   \<and> (case allocate demo_prefix [Addr4 0x0A000002] of
      Some r \<Rightarrow> \<exists>w. r = Addr4 w \<and> usable demo_prefix r \<and> r \<notin> set [Addr4 0x0A000002]
        \<and> (\<forall>v. usable demo_prefix (Addr4 v) \<and> Addr4 v \<notin> set [Addr4 0x0A000002] \<longrightarrow> w \<le> v)
    | None \<Rightarrow> \<forall>a. usable demo_prefix a \<longrightarrow> a \<in> set [Addr4 0x0A000002])"
proof
  have "Contains demo_prefix (Addr4 0x0A000002)" "Contains demo_prefix (Addr4 0x0A000003)" "Contains demo_prefix (Addr4 0x0A000004)"
    by (simp_all add: Contains4 [where x = "0x0A000000"] demo_prefix_def Prefix_IsValid_def host_bits_def BitLen_def)
  then have "alloc_loop demo_prefix [Addr4 0x0A000002] (Addr4 0x0A000002) = Some (Addr4 0x0A000003)"
    by (subst alloc_loop.simps) (simp add: Next4, subst alloc_loop.simps, simp add: Next4)
  moreover have "Next (Next (pfxAddr demo_prefix)) = Addr4 0x0A000002" by (simp add: demo_prefix_def Next4)
  ultimately show "allocate demo_prefix [Addr4 0x0A000002] = Some (Addr4 0x0A000003)" by (simp add: allocate_def)
qed (rule allocate_spec [where x = "0x0A000000"], simp add: demo_prefix_def)

end
