(* ===== verification/Controller.thy ===== *)
theory Controller
  imports Api Allocate
begin

text \<open>
  \<^verbatim>\<open>internal/controller/server.go\<close>: the control plane's HTTP handlers, each as a function of the server
  state. \<^verbatim>\<open>s.mu\<close> serialises every handler that writes, so a handler is one step here. The store is
  the record of operations of theory \<open>Store\<close>. Cryptographic functions (SHA-256 of a secret and the
  HMAC that derives a pre-shared key, both as hexadecimal text) and the random draws are arguments, as
  is the time. A response is its status, and its body or its error; logging, metrics and tracing are
  left out.
\<close>

section \<open>State\<close>

definition gatewayKeyPrefix :: string where "gatewayKeyPrefix = ''/egressa/gw/''"
definition clientKeyPrefix :: string where "clientKeyPrefix = ''/egressa/client/''"

definition DefaultAliveAfter :: duration where "DefaultAliveAfter = 10 * Second"

definition lower_alnum :: "char \<Rightarrow> bool" where
  "lower_alnum c = (let n = of_char c :: nat in 97 \<le> n \<and> n \<le> 122 \<or> 48 \<le> n \<and> n \<le> 57)"

text \<open>\<^verbatim>\<open>^[a-z0-9][a-z0-9-]{0,31}$\<close>\<close>

definition gatewayIDRE :: "string \<Rightarrow> bool" where
  "gatewayIDRE s = (case s of [] \<Rightarrow> False
     | c # cs \<Rightarrow> lower_alnum c \<and> length cs \<le> 31 \<and> list_all (\<lambda>d. lower_alnum d \<or> d = CHR ''-'') cs)"

record Config =
  GatewayToken :: string
  ClientToken :: string
  cfgNetwork :: Network
  cfgPolicy :: "PolicyDocument option"
  AliveAfter :: duration
  IPsecKey :: bytes

text \<open>The functions of \<^verbatim>\<open>crypto\<close> the controller calls.\<close>

record crypto =
  sha256hex :: "string \<Rightarrow> string"
  hmacHex :: "bytes \<Rightarrow> string \<Rightarrow> string"

record clientRecord =
  cID :: string
  cPublicKey :: string
  cVirtualIP :: Addr
  cSecretHash :: string
  cBackend :: string

record linkEntry =
  leLink :: Link
  leReceived :: time

text \<open>\<open>changed\<close> numbers the current notification channel; every lower number is a closed one.\<close>

record 's Server =
  store :: 's
  version :: u64
  changed :: nat
  links :: "(string, (string, linkEntry) gomap) gomap"
  lastSeen :: "(string, time) gomap"
  alive :: "(string, bool) gomap"

datatype ctlErr = CtlStore storeErr | CtlDecode jsonErr | CtlOwn ownErr | CtlPolicy policyErr
  | NoOwnership string | PrefixFull | NoEgressGateway string | NoLiveEgress | NoLiveAccess | NoLiveIPsecAccess
  | ConfigNetwork | ConfigSubnets

datatype 'a reply = Reply nat 'a | ErrReply nat ctlErr | ErrText nat string | ErrSession nat Session

definition New :: "'s kvops \<Rightarrow> Config \<Rightarrow> 's \<Rightarrow> ctlErr + Config \<times> 's Server" where
  "New ops cfg st =
     (let n = cfgNetwork cfg in
      if \<not> Prefix_IsValid (ClientSubnet n) \<or> \<not> Prefix_IsValid (NodeSubnet n) \<or> ProbePort n = 0 then Inl ConfigNetwork
      else if \<not> Is4 (pfxAddr (ClientSubnet n)) \<or> \<not> Is4 (pfxAddr (NodeSubnet n)) \<or> Overlaps (ClientSubnet n) (NodeSubnet n)
      then Inl ConfigSubnets
      else let cfg = cfg\<lparr>cfgNetwork := n\<lparr>ClientSubnet := Masked (ClientSubnet n), NodeSubnet := Masked (NodeSubnet n)\<rparr>\<rparr>;
               cfg = (if AliveAfter cfg \<le> 0 then cfg\<lparr>AliveAfter := DefaultAliveAfter\<rparr> else cfg);
               s = \<lparr>store = st, version = 1, changed = 0, links = [], lastSeen = [], alive = []\<rparr>
           in case cfgPolicy cfg of
                None \<Rightarrow> Inr (cfg, s)
              | Some p \<Rightarrow> (case PS_Set ops p st of
                    (Some e, _) \<Rightarrow> Inl (CtlPolicy e)
                  | (None, st') \<Rightarrow> Inr (cfg, s\<lparr>store := st'\<rparr>)))"

definition bumpLocked :: "'s Server \<Rightarrow> 's Server" where
  "bumpLocked s = s\<lparr>version := version s + 1, changed := changed s + 1\<rparr>"

definition isAlive :: "'s Server \<Rightarrow> string \<Rightarrow> bool" where
  "isAlive s i = (mget (alive s) i = Some True)"

definition seenLocked :: "time \<Rightarrow> string \<Rightarrow> 's Server \<Rightarrow> 's Server" where
  "seenLocked now i s =
     (let s = s\<lparr>lastSeen := mput i now (lastSeen s)\<rparr> in
      if \<not> isAlive s i then bumpLocked (s\<lparr>alive := mput i True (alive s)\<rparr>) else s)"

definition sweep_one :: "Config \<Rightarrow> time \<Rightarrow> string \<Rightarrow> 's Server \<Rightarrow> 's Server" where
  "sweep_one cfg now i s =
     (let seen = (case mget (lastSeen s) i of None \<Rightarrow> 0 | Some t \<Rightarrow> t) in
      if isAlive s i \<and> now - seen > AliveAfter cfg then bumpLocked (s\<lparr>alive := mput i False (alive s)\<rparr>) else s)"

definition sweep :: "Config \<Rightarrow> time \<Rightarrow> 's Server \<Rightarrow> 's Server" where
  "sweep cfg now s = fold (sweep_one cfg now) (mkeys (alive s)) s"

section \<open>Authorization\<close>

definition bearer :: "string \<Rightarrow> string" where
  "bearer h = (if prefix ''Bearer '' h then drop 7 h else [])"

definition tokenOK :: "string \<Rightarrow> string \<Rightarrow> bool" where
  "tokenOK want got \<longleftrightarrow> want = [] \<or> want = got"

definition gatewayAuth :: "Config \<Rightarrow> string \<Rightarrow> ('s Server \<Rightarrow> 'a reply \<times> 's Server) \<Rightarrow> 's Server \<Rightarrow> 'a reply \<times> 's Server" where
  "gatewayAuth cfg auth h s =
     (if \<not> tokenOK (GatewayToken cfg) (bearer auth) then (ErrText 401 ''bad gateway token'', s) else h s)"

definition clientAuth :: "Config \<Rightarrow> string \<Rightarrow> ('s Server \<Rightarrow> 'a reply \<times> 's Server) \<Rightarrow> 's Server \<Rightarrow> 'a reply \<times> 's Server" where
  "clientAuth cfg auth h s =
     (if \<not> tokenOK (ClientToken cfg) (bearer auth) then (ErrText 401 ''bad client token'', s) else h s)"

section \<open>Stored records\<close>

definition MarshalClient :: "clientRecord \<Rightarrow> raw" where
  "MarshalClient c = RawJson (JObj (
     [(''id'', JStr (cID c)), (''public_key'', JStr (cPublicKey c)), (''virtual_ip'', JStr (addr_text (cVirtualIP c))),
      (''secret_hash'', JStr (cSecretHash c))]
     @ (if cBackend c = [] then [] else [(''backend'', JStr (cBackend c))])))"

definition Client_fields :: "(string \<times> json) list \<Rightarrow> jsonErr + clientRecord" where
  "Client_fields kvs =
     (case field read_str [] ''id'' kvs of Inl e \<Rightarrow> Inl e | Inr i \<Rightarrow>
      case field read_str [] ''public_key'' kvs of Inl e \<Rightarrow> Inl e | Inr pk \<Rightarrow>
      case field read_addr NoAddr ''virtual_ip'' kvs of Inl e \<Rightarrow> Inl e | Inr ip \<Rightarrow>
      case field read_str [] ''secret_hash'' kvs of Inl e \<Rightarrow> Inl e | Inr sh \<Rightarrow>
      case field read_str [] ''backend'' kvs of Inl e \<Rightarrow> Inl e | Inr b \<Rightarrow>
      Inr \<lparr>cID = i, cPublicKey = pk, cVirtualIP = ip, cSecretHash = sh, cBackend = b\<rparr>)"

fun decode_docs :: "((string \<times> json) list \<Rightarrow> jsonErr + 'a) \<Rightarrow> raw list \<Rightarrow> jsonErr + 'a list" where
  "decode_docs rd [] = Inr []"
| "decode_docs rd (d # ds) = (case Unmarshal rd d of Inl e \<Rightarrow> Inl e
     | Inr x \<Rightarrow> (case decode_docs rd ds of Inl e \<Rightarrow> Inl e | Inr xs \<Rightarrow> Inr (x # xs)))"

definition gateways :: "'s kvops \<Rightarrow> 's \<Rightarrow> ctlErr + Gateway list" where
  "gateways ops st = (case kList ops gatewayKeyPrefix st of
     Inl e \<Rightarrow> Inl (CtlStore e)
   | Inr kvs \<Rightarrow> (case decode_docs Gateway_fields (map snd kvs) of
        Inl e \<Rightarrow> Inl (CtlDecode e) | Inr gs \<Rightarrow> Inr (sort_key gID gs)))"

definition clients :: "'s kvops \<Rightarrow> 's \<Rightarrow> ctlErr + clientRecord list" where
  "clients ops st = (case kList ops clientKeyPrefix st of
     Inl e \<Rightarrow> Inl (CtlStore e)
   | Inr kvs \<Rightarrow> (case decode_docs Client_fields (map snd kvs) of
        Inl e \<Rightarrow> Inl (CtlDecode e) | Inr cs \<Rightarrow> Inr (sort_key cID cs)))"

definition clientByID :: "'s kvops \<Rightarrow> string \<Rightarrow> 's \<Rightarrow> ctlErr + clientRecord option" where
  "clientByID ops i st = (case kGet ops (clientKeyPrefix @ i) st of
     Inl e \<Rightarrow> Inl (CtlStore e)
   | Inr None \<Rightarrow> Inr None
   | Inr (Some data) \<Rightarrow> (case Unmarshal Client_fields data of Inl e \<Rightarrow> Inl (CtlDecode e) | Inr c \<Rightarrow> Inr (Some c)))"

definition sessionAuth :: "'s kvops \<Rightarrow> crypto \<Rightarrow> string \<Rightarrow> string \<Rightarrow> 's Server \<Rightarrow> ctlErr + clientRecord option" where
  "sessionAuth ops cr auth i s = (case clientByID ops i (store s) of
     Inl e \<Rightarrow> Inl e
   | Inr None \<Rightarrow> Inr None
   | Inr (Some rec) \<Rightarrow> Inr (if cSecretHash rec = sha256hex cr (bearer auth) then Some rec else None))"

definition ipsecPSK :: "crypto \<Rightarrow> Config \<Rightarrow> string \<Rightarrow> string" where
  "ipsecPSK cr cfg i = hmacHex cr (IPsecKey cfg) (''egressa/ipsec-psk/v1'' @ [char_of (0 :: nat)] @ i)"

definition session :: "'s kvops \<Rightarrow> crypto \<Rightarrow> Config \<Rightarrow> clientRecord \<Rightarrow> 's \<Rightarrow> ctlErr + Session" where
  "session ops cr cfg c st = (case OS_Get ops (cID c) st of
     Inl e \<Rightarrow> Inl (CtlOwn e)
   | Inr None \<Rightarrow> Inl (NoOwnership (cID c))
   | Inr (Some own) \<Rightarrow>
       (let sess = \<lparr>sID = cID c, sPublicKey = cPublicKey c, sVirtualIP = cVirtualIP c, sAccess = oAccess own,
               sEgress = oEgress own, sEpoch = oEpoch own, sBackend = BackendWireGuard, sIPsecPSK = []\<rparr>
        in Inr (if cBackend c = BackendIPsec then sess\<lparr>sBackend := BackendIPsec, sIPsecPSK := ipsecPSK cr cfg (cID c)\<rparr> else sess)))"

definition normBackend :: "string \<Rightarrow> string" where
  "normBackend b = (if b = [] then BackendWireGuard else b)"

definition canAccess :: "Gateway \<Rightarrow> string \<Rightarrow> bool" where
  "canAccess g backend \<longleftrightarrow> Has (gRoles g) RoleAccess \<and> (backend \<noteq> BackendIPsec \<or> gIPsec g)"

section \<open>Gateway handlers\<close>

definition clear_alive :: "Gateway \<Rightarrow> Gateway" where
  "clear_alive g = g\<lparr>gAlive := False\<rparr>"

definition gatewayEqual :: "Gateway \<Rightarrow> Gateway \<Rightarrow> bool" where
  "gatewayEqual a b \<longleftrightarrow> MarshalGateway (clear_alive a) = MarshalGateway (clear_alive b)"

text \<open>The locked part of \<^verbatim>\<open>registerGateway\<close>, after the request has been checked.\<close>

definition registerLocked :: "'s kvops \<Rightarrow> Config \<Rightarrow> time \<Rightarrow> string \<Rightarrow> RegisterGatewayRequest \<Rightarrow> 's Server
    \<Rightarrow> RegisterGatewayResponse reply \<times> 's Server" where
  "registerLocked ops cfg now i req s =
     (case gateways ops (store s) of
        Inl e \<Rightarrow> (ErrReply 500 e, s)
      | Inr gws \<Rightarrow>
          (let (g, existed) = FindGateway gws i in
           case (if existed then Some (gNodeIP g) else allocate (NodeSubnet (cfgNetwork cfg)) (map gNodeIP gws)) of
             None \<Rightarrow> (ErrReply 503 PrefixFull, s)
           | Some ip \<Rightarrow>
               (let nxt = \<lparr>gID = i, gRoles = rgRoles req, gEndpoint = rgEndpoint req, gPublicKey = rgPublicKey req,
                      gNodeIP = ip, gBackbonePorts = rgBackbonePorts req, gIPsec = rgIPsec req, gAlive = False\<rparr>;
                    resp = Reply 200 \<lparr>rrNodeIP = ip, rrNetwork = cfgNetwork cfg\<rparr>
                in if \<not> existed \<or> \<not> gatewayEqual g nxt
                   then (case kPut ops (gatewayKeyPrefix @ i) (MarshalGateway nxt) (store s) of
                           (Some e, st) \<Rightarrow> (ErrReply 500 (CtlStore e), s\<lparr>store := st\<rparr>)
                         | (None, st) \<Rightarrow> (resp, seenLocked now i (bumpLocked (s\<lparr>store := st\<rparr>))))
                   else (resp, seenLocked now i s))))"

definition registerGateway :: "'s kvops \<Rightarrow> Config \<Rightarrow> time \<Rightarrow> string \<Rightarrow> raw \<Rightarrow> 's Server
    \<Rightarrow> RegisterGatewayResponse reply \<times> 's Server" where
  "registerGateway ops cfg now i body s =
     (if \<not> gatewayIDRE i then (ErrText 400 ''gateway id'', s) else
      case decodeRegister body of
        Inl e \<Rightarrow> (ErrReply 400 (CtlDecode e), s)
      | Inr req \<Rightarrow>
          if ParseAddrPort (rgEndpoint req) = None then (ErrText 400 ''endpoint must be ip:port'', s)
          else if \<not> parsePublicKey (rgPublicKey req) then (ErrText 400 ''public key'', s)
          else if \<not> Has (rgRoles req) RoleAccess \<and> \<not> Has (rgRoles req) RoleEgress
          then (ErrText 400 ''a gateway needs the access or the egress role'', s)
          else registerLocked ops cfg now i req s)"

definition link_map :: "string \<Rightarrow> time \<Rightarrow> Link list \<Rightarrow> (string, linkEntry) gomap" where
  "link_map i now ls = foldl (\<lambda>m l. mput (lTo l) \<lparr>leLink = l\<lparr>lFrom := i\<rparr>, leReceived = now\<rparr> m) [] ls"

definition reportLinks :: "'s kvops \<Rightarrow> time \<Rightarrow> string \<Rightarrow> raw \<Rightarrow> 's Server \<Rightarrow> unit reply \<times> 's Server" where
  "reportLinks ops now i body s =
     (case decodeLinkReport body of
        Inl e \<Rightarrow> (ErrReply 400 (CtlDecode e), s)
      | Inr ls \<Rightarrow>
          (case kGet ops (gatewayKeyPrefix @ i) (store s) of
             Inr (Some _) \<Rightarrow> (Reply 204 (), seenLocked now i (s\<lparr>links := mput i (link_map i now ls) (links s)\<rparr>))
           | _ \<Rightarrow> (ErrText 404 ''gateway is not registered'', s)))"

text \<open>
  The long poll \<^verbatim>\<open>waitVersion\<close>: it looks at the version and the current channel together; when the
  version is not above \<open>after\<close> it blocks until that channel is closed, the timer fires or the request
  ends.
\<close>

datatype waiter = WLook | WBlocked nat | WReturned

inductive wait_step :: "u64 \<Rightarrow> 's Server \<Rightarrow> waiter \<Rightarrow> waiter \<Rightarrow> bool" for after s where
  Newer: "version s > after \<Longrightarrow> wait_step after s WLook WReturned"
| Block: "\<not> version s > after \<Longrightarrow> wait_step after s WLook (WBlocked (changed s))"
| Woken: "ch < changed s \<Longrightarrow> wait_step after s (WBlocked ch) WLook"
| Expired: "wait_step after s (WBlocked ch) WReturned"

definition snapshot :: "'s kvops \<Rightarrow> 's Server \<Rightarrow> ctlErr + u64 \<times> Gateway list" where
  "snapshot ops s = (case gateways ops (store s) of
     Inl e \<Rightarrow> Inl e
   | Inr gws \<Rightarrow> Inr (version s, map (\<lambda>g. g\<lparr>gAlive := isAlive s (gID g)\<rparr>) gws))"

definition listGateways :: "'s kvops \<Rightarrow> 's Server \<Rightarrow> Gateway list reply" where
  "listGateways ops s = (case snapshot ops s of
     Inl e \<Rightarrow> ErrReply 500 e
   | Inr (_, gws) \<Rightarrow> Reply 200 (map (\<lambda>g. g\<lparr>gBackbonePorts := []\<rparr>) gws))"

definition gatewayState :: "'s kvops \<Rightarrow> crypto \<Rightarrow> Config \<Rightarrow> 's Server \<Rightarrow> GatewayState reply" where
  "gatewayState ops cr cfg s = (case snapshot ops s of
     Inl e \<Rightarrow> ErrReply 500 e
   | Inr (v, gws) \<Rightarrow> (case clients ops (store s) of
        Inl e \<Rightarrow> ErrReply 500 e
      | Inr cs \<Rightarrow> Reply 200 \<lparr>gsVersion = v, gsNetwork = cfgNetwork cfg, gsGateways = gws,
          gsSessions = List.map_filter (\<lambda>c. case session ops cr cfg c (store s) of Inl _ \<Rightarrow> None | Inr x \<Rightarrow> Some x) cs\<rparr>))"

record ControllerSnapshot =
  csSessions :: nat
  csGatewaysAlive :: nat
  csGatewaysDown :: nat
  csStateVersion :: u64

text \<open>What \<^verbatim>\<open>publish\<close> hands to the metrics, if anything.\<close>

definition publish :: "'s kvops \<Rightarrow> 's Server \<Rightarrow> ControllerSnapshot option" where
  "publish ops s = (case gateways ops (store s) of Inl _ \<Rightarrow> None | Inr gws \<Rightarrow>
     (case kList ops clientKeyPrefix (store s) of Inl _ \<Rightarrow> None | Inr raw \<Rightarrow>
        Some \<lparr>csSessions = length raw, csGatewaysAlive = length (filter (\<lambda>g. isAlive s (gID g)) gws),
          csGatewaysDown = length (filter (\<lambda>g. \<not> isAlive s (gID g)) gws), csStateVersion = version s\<rparr>))"

section \<open>Sessions\<close>

text \<open>The random draws of one request: successive 64-bit draws (none left is a read error), and 32 bytes.\<close>

record draws =
  idDraws :: "u64 list"
  secretDraw :: "bytes option"

definition randomSecret :: "draws \<Rightarrow> string option" where
  "randomSecret r = map_option Hex (secretDraw r)"

definition randomSessionID :: "draws \<Rightarrow> string option" where
  "randomSessionID r = map_option FormatUint (find (\<lambda>v. v \<noteq> 0) (idDraws r))"

definition pickPath :: "Gateway list \<Rightarrow> (string \<Rightarrow> bool) \<Rightarrow> string \<Rightarrow> string \<Rightarrow> ctlErr + string \<times> string" where
  "pickPath gws live egress backend =
     (let usable_as = (\<lambda>role g. Has (gRoles g) role \<and> live (gID g));
          eg = (if egress \<noteq> [] then
                  (let (g, ok) = FindGateway gws egress in
                   if \<not> ok \<or> \<not> Has (gRoles g) RoleEgress then Inl (NoEgressGateway egress) else Inr (gID g))
                else Inr (case find (usable_as RoleEgress) gws of None \<Rightarrow> [] | Some g \<Rightarrow> gID g))
      in case eg of
           Inl e \<Rightarrow> Inl e
         | Inr eg \<Rightarrow>
             if eg = [] then Inl NoLiveEgress
             else if canAccess (fst (FindGateway gws eg)) backend then Inr (eg, eg)
             else (case find (\<lambda>g. usable_as RoleAccess g \<and> canAccess g backend) gws of
                     Some g \<Rightarrow> Inr (gID g, eg)
                   | None \<Rightarrow> Inl (if backend = BackendIPsec then NoLiveIPsecAccess else NoLiveAccess)))"

definition switchBackendLocked :: "'s kvops \<Rightarrow> crypto \<Rightarrow> Config \<Rightarrow> clientRecord \<Rightarrow> string \<Rightarrow> 's Server
    \<Rightarrow> ctlErr option \<times> 's Server" where
  "switchBackendLocked ops cr cfg c backend s =
     (case session ops cr cfg c (store s) of Inl e \<Rightarrow> (Some e, s) | Inr cur \<Rightarrow>
      case gateways ops (store s) of Inl e \<Rightarrow> (Some e, s) | Inr gws \<Rightarrow>
      let moved = (if \<not> canAccess (fst (FindGateway gws (sAccess cur))) backend
            then (case pickPath gws (isAlive s) (sEgress cur) backend of
                    Inl e \<Rightarrow> (Some e, s)
                  | Inr (access, _) \<Rightarrow>
                      (case SetIfNewer ops \<lparr>oSession = cID c, oAccess = access, oEgress = sEgress cur, oEpoch = sEpoch cur + 1\<rparr> (store s) of
                         (Inl e, st) \<Rightarrow> (Some (CtlOwn e), s\<lparr>store := st\<rparr>)
                       | (Inr _, st) \<Rightarrow> (None, s\<lparr>store := st\<rparr>)))
            else (None, s))
      in case moved of
           (Some e, s) \<Rightarrow> (Some e, s)
         | (None, s) \<Rightarrow>
             (case kPut ops (clientKeyPrefix @ cID c) (MarshalClient (c\<lparr>cBackend := backend\<rparr>)) (store s) of
                (Some e, st) \<Rightarrow> (Some (CtlStore e), s\<lparr>store := st\<rparr>)
              | (None, st) \<Rightarrow> (None, bumpLocked (s\<lparr>store := st\<rparr>))))"

text \<open>The branch of \<^verbatim>\<open>createSession\<close> for a public key that already has session \<open>c\<close>.\<close>

definition reopenSession :: "'s kvops \<Rightarrow> crypto \<Rightarrow> Config \<Rightarrow> CreateSessionRequest \<Rightarrow> clientRecord \<Rightarrow> 's Server
    \<Rightarrow> CreateSessionResponse reply \<times> 's Server" where
  "reopenSession ops cr cfg req c s =
     (let backend = normBackend (csBackend req) in
      if cSecretHash c \<noteq> sha256hex cr (csSecret req) then (ErrText 409 ''this public key already has a session'', s)
      else (case (if normBackend (cBackend c) \<noteq> backend then switchBackendLocked ops cr cfg c backend s else (None, s)) of
              (Some e, s) \<Rightarrow> (ErrReply 503 e, s)
            | (None, s) \<Rightarrow>
                (case session ops cr cfg (if normBackend (cBackend c) \<noteq> backend then c\<lparr>cBackend := backend\<rparr> else c) (store s) of
                   Inl e \<Rightarrow> (ErrReply 500 e, s)
                 | Inr sess \<Rightarrow> (Reply 200 \<lparr>crSession = sess, crSecret = csSecret req, crNetwork = cfgNetwork cfg\<rparr>, s))))"

text \<open>The branch for a new public key.\<close>

definition openSession :: "'s kvops \<Rightarrow> crypto \<Rightarrow> Config \<Rightarrow> draws \<Rightarrow> CreateSessionRequest \<Rightarrow> clientRecord list \<Rightarrow> 's Server
    \<Rightarrow> CreateSessionResponse reply \<times> 's Server" where
  "openSession ops cr cfg rnd req cs s =
     (case gateways ops (store s) of Inl e \<Rightarrow> (ErrReply 500 e, s) | Inr gws \<Rightarrow>
      case pickPath gws (isAlive s) (csEgress req) (normBackend (csBackend req)) of Inl e \<Rightarrow> (ErrReply 503 e, s) | Inr (access, egress) \<Rightarrow>
      case allocate (ClientSubnet (cfgNetwork cfg)) (map cVirtualIP cs) of None \<Rightarrow> (ErrReply 503 PrefixFull, s) | Some vip \<Rightarrow>
      case randomSessionID rnd of None \<Rightarrow> (ErrText 500 ''rand'', s) | Some i \<Rightarrow>
      case randomSecret rnd of None \<Rightarrow> (ErrText 500 ''rand'', s) | Some secret \<Rightarrow>
      case SetIfNewer ops \<lparr>oSession = i, oAccess = access, oEgress = egress, oEpoch = 1\<rparr> (store s) of
        (Inl e, st) \<Rightarrow> (ErrReply 500 (CtlOwn e), s\<lparr>store := st\<rparr>)
      | (Inr _, st) \<Rightarrow>
          (let rec = \<lparr>cID = i, cPublicKey = csPublicKey req, cVirtualIP = vip, cSecretHash = sha256hex cr secret,
                 cBackend = normBackend (csBackend req)\<rparr>
           in case kPut ops (clientKeyPrefix @ i) (MarshalClient rec) st of
                (Some e, st) \<Rightarrow> (ErrReply 500 (CtlStore e), s\<lparr>store := st\<rparr>)
              | (None, st) \<Rightarrow>
                  (let s = bumpLocked (s\<lparr>store := st\<rparr>) in
                   case session ops cr cfg rec st of
                     Inl e \<Rightarrow> (ErrReply 500 e, s)
                   | Inr sess \<Rightarrow> (Reply 200 \<lparr>crSession = sess, crSecret = secret, crNetwork = cfgNetwork cfg\<rparr>, s))))"

definition createSession :: "'s kvops \<Rightarrow> crypto \<Rightarrow> Config \<Rightarrow> draws \<Rightarrow> string \<Rightarrow> raw \<Rightarrow> 's Server
    \<Rightarrow> CreateSessionResponse reply \<times> 's Server" where
  "createSession ops cr cfg rnd auth body s =
     (if \<not> tokenOK (ClientToken cfg) (bearer auth) then (ErrText 401 ''bad client token'', s) else
      case decodeCreate body of
        Inl e \<Rightarrow> (ErrReply 400 (CtlDecode e), s)
      | Inr req \<Rightarrow>
          if \<not> parsePublicKey (csPublicKey req) then (ErrText 400 ''public key'', s)
          else if \<not> ValidBackend (csBackend req) then (ErrText 400 ''unknown backend'', s)
          else if normBackend (csBackend req) = BackendIPsec \<and> IPsecKey cfg = [] then (ErrText 400 ''no IPsec key'', s)
          else (case clients ops (store s) of
                  Inl e \<Rightarrow> (ErrReply 500 e, s)
                | Inr cs \<Rightarrow> (case find (\<lambda>c. cPublicKey c = csPublicKey req) cs of
                      Some c \<Rightarrow> reopenSession ops cr cfg req c s
                    | None \<Rightarrow> openSession ops cr cfg rnd req cs s)))"

definition state_links :: "time \<Rightarrow> 's Server \<Rightarrow> Gateway list \<Rightarrow> Link list" where
  "state_links now s gws = sort_key (\<lambda>l. lFrom l @ [char_of (0 :: nat)] @ lTo l)
     (concat (map (\<lambda>g. case mget (links s) (gID g) of None \<Rightarrow> []
        | Some m \<Rightarrow> map (\<lambda>(_, e). (leLink e)\<lparr>lStaleness := now - leReceived e\<rparr>) m) gws))"

definition clientState :: "'s kvops \<Rightarrow> crypto \<Rightarrow> Config \<Rightarrow> time \<Rightarrow> clientRecord \<Rightarrow> 's Server \<Rightarrow> ClientState reply" where
  "clientState ops cr cfg now c s =
     (case snapshot ops s of Inl e \<Rightarrow> ErrReply 500 e | Inr (v, gws) \<Rightarrow>
      case session ops cr cfg c (store s) of Inl e \<Rightarrow> ErrReply 500 e | Inr sess \<Rightarrow>
      case PS_Get ops (store s) of Inl e \<Rightarrow> ErrReply 500 (CtlPolicy e) | Inr pol \<Rightarrow>
      Reply 200 \<lparr>clVersion = v, clNetwork = cfgNetwork cfg, clSession = sess, clGateways = gws,
        clLinks = state_links now s gws, clPolicy = pol\<rparr>)"

definition migrateLocked :: "'s kvops \<Rightarrow> crypto \<Rightarrow> Config \<Rightarrow> clientRecord \<Rightarrow> MigrateRequest \<Rightarrow> 's Server \<Rightarrow> Session reply \<times> 's Server" where
  "migrateLocked ops cr cfg c req s =
     (case gateways ops (store s) of Inl e \<Rightarrow> (ErrReply 500 e, s) | Inr gws \<Rightarrow>
      let (ga, oka) = FindGateway gws (mqAccess req); (ge, oke) = FindGateway gws (mqEgress req) in
      if \<not> oka \<or> \<not> canAccess ga (normBackend (cBackend c)) then (ErrText 400 ''no access gateway'', s)
      else if \<not> oke \<or> \<not> Has (gRoles ge) RoleEgress then (ErrText 400 ''no egress gateway'', s)
      else case session ops cr cfg c (store s) of Inl e \<Rightarrow> (ErrReply 500 e, s) | Inr cur \<Rightarrow>
      if mqEpoch req \<noteq> sEpoch cur then (ErrSession 409 cur, s)
      else case SetIfNewer ops \<lparr>oSession = cID c, oAccess = mqAccess req, oEgress = mqEgress req, oEpoch = sEpoch cur + 1\<rparr> (store s) of
          (Inl e, st) \<Rightarrow> (ErrReply 500 (CtlOwn e), s\<lparr>store := st\<rparr>)
        | (Inr False, st) \<Rightarrow> ((case session ops cr cfg c st of
              Inr now \<Rightarrow> ErrSession 409 now | Inl _ \<Rightarrow> ErrText 409 ''the session moved concurrently''), s\<lparr>store := st\<rparr>)
        | (Inr True, st) \<Rightarrow> (Reply 200 (cur\<lparr>sAccess := mqAccess req, sEgress := mqEgress req, sEpoch := sEpoch cur + 1\<rparr>),
              bumpLocked (s\<lparr>store := st\<rparr>)))"

definition migrate :: "'s kvops \<Rightarrow> crypto \<Rightarrow> Config \<Rightarrow> clientRecord \<Rightarrow> raw \<Rightarrow> 's Server \<Rightarrow> Session reply \<times> 's Server" where
  "migrate ops cr cfg c body s = (case decodeMigrate body of
     Inl e \<Rightarrow> (ErrReply 400 (CtlDecode e), s)
   | Inr req \<Rightarrow> migrateLocked ops cr cfg c req s)"

section \<open>Serving\<close>

text \<open>
  What changes the server: the writing routes of \<^verbatim>\<open>Handler\<close>, in any order, and the sweep of \<^verbatim>\<open>Run\<close>.
  A migration carries the record \<^verbatim>\<open>sessionAuth\<close> returned for it, which may have been read any time
  before.
\<close>

datatype request =
    RegisterRequest time string string raw
  | LinksRequest time string string raw
  | CreateRequest draws string raw
  | MigrateRequested clientRecord raw
  | SweepTick time

definition serve :: "'s kvops \<Rightarrow> crypto \<Rightarrow> Config \<Rightarrow> request \<Rightarrow> 's Server \<Rightarrow> 's Server" where
  "serve ops cr cfg rq s = (case rq of
     RegisterRequest now auth i body \<Rightarrow> snd (gatewayAuth cfg auth (registerGateway ops cfg now i body) s)
   | LinksRequest now auth i body \<Rightarrow> snd (gatewayAuth cfg auth (reportLinks ops now i body) s)
   | CreateRequest rnd auth body \<Rightarrow> snd (createSession ops cr cfg rnd auth body s)
   | MigrateRequested c body \<Rightarrow> snd (migrate ops cr cfg c body s)
   | SweepTick now \<Rightarrow> sweep cfg now s)"

definition serve_all :: "'s kvops \<Rightarrow> crypto \<Rightarrow> Config \<Rightarrow> request list \<Rightarrow> 's Server \<Rightarrow> 's Server" where
  "serve_all ops cr cfg rqs s = fold (serve ops cr cfg) rqs s"

end
