(* ===== verification/ControllerInv.thy ===== *)
theory ControllerInv
  imports Controller
begin

text \<open>
  What the controller keeps true: gateways and sessions are tables in the store, one document per key,
  each naming itself and holding an address of its subnet that no other row holds; every session has an
  ownership record. The facts are proved for every store with the \<open>kv_store\<close> contract.
\<close>

section \<open>Tables in the store\<close>

definition row :: "((string \<times> json) list \<Rightarrow> jsonErr + 'a) \<Rightarrow> (raw \<times> int) option \<Rightarrow> 'a option" where
  "row rd e = (case e of None \<Rightarrow> None | Some (v, _) \<Rightarrow> (case Unmarshal rd v of Inl _ \<Rightarrow> None | Inr x \<Rightarrow> Some x))"

definition table_ok :: "string \<Rightarrow> ((string \<times> json) list \<Rightarrow> jsonErr + 'a) \<Rightarrow> ('a \<Rightarrow> string) \<Rightarrow> ('a \<Rightarrow> Addr) \<Rightarrow> Prefix
    \<Rightarrow> (string \<Rightarrow> (raw \<times> int) option) \<Rightarrow> bool" where
  "table_ok pre rd idf ipf p lk \<longleftrightarrow>
     (\<forall>i. lk (pre @ i) \<noteq> None \<longrightarrow> (\<exists>x. row rd (lk (pre @ i)) = Some x \<and> idf x = i \<and> usable p (ipf x)))
   \<and> (\<forall>i j x y. row rd (lk (pre @ i)) = Some x \<longrightarrow> row rd (lk (pre @ j)) = Some y \<longrightarrow> ipf x = ipf y \<longrightarrow> i = j)"

lemma row_Some: "row rd e = Some x \<longleftrightarrow> (\<exists>v r. e = Some (v, r) \<and> Unmarshal rd v = Inr x)"
  by (auto simp: row_def split: option.splits sum.splits)

lemma table_row:
  "table_ok pre rd idf ipf p lk \<Longrightarrow> row rd (lk (pre @ i)) = Some x \<Longrightarrow> idf x = i \<and> usable p (ipf x)"
  unfolding table_ok_def by (metis option.discI option.inject row_def option.case(1))

lemma table_unique:
  "table_ok pre rd idf ipf p lk \<Longrightarrow> row rd (lk (pre @ i)) = Some x \<Longrightarrow> row rd (lk (pre @ j)) = Some y \<Longrightarrow> ipf x = ipf y \<Longrightarrow> i = j"
  unfolding table_ok_def by blast

lemma table_put:
  assumes "table_ok pre rd idf ipf p lk" "Unmarshal rd v = Inr x" "idf x = i" "usable p (ipf x)"
    and "\<And>j y. row rd (lk (pre @ j)) = Some y \<Longrightarrow> ipf y = ipf x \<Longrightarrow> j = i"
  shows "table_ok pre rd idf ipf p (lk(pre @ i \<mapsto> (v, r)))"
proof -
  let ?lk = "lk(pre @ i \<mapsto> (v, r))"
  have rows: "row rd (?lk (pre @ j)) = (if j = i then Some x else row rd (lk (pre @ j)))" for j
    using assms(2) by (simp add: row_def)
  have "\<exists>x. row rd (?lk (pre @ j)) = Some x \<and> idf x = j \<and> usable p (ipf x)" if "?lk (pre @ j) \<noteq> None" for j
    using that assms(1,3,4) unfolding rows by (cases "j = i") (auto simp: table_ok_def)
  moreover have "j = k" if "row rd (?lk (pre @ j)) = Some y" "row rd (?lk (pre @ k)) = Some z" "ipf y = ipf z" for j k y z
    using that assms(1,5) unfolding rows table_ok_def by (auto split: if_splits)
  ultimately show ?thesis unfolding table_ok_def by blast
qed

lemma table_other:
  assumes "table_ok pre rd idf ipf p lk" "\<And>i. lk' (pre @ i) = lk (pre @ i)"
  shows "table_ok pre rd idf ipf p lk'"
  using assms(1) unfolding table_ok_def assms(2) .

lemma decode_docs_map:
  "(\<And>d. d \<in> set ds \<Longrightarrow> \<exists>x. Unmarshal rd d = Inr x) \<Longrightarrow> \<exists>xs. decode_docs rd ds = Inr xs \<and> map (Unmarshal rd) ds = map Inr xs"
proof (induction ds)
  case (Cons d ds)
  then obtain x xs where "Unmarshal rd d = Inr x" "decode_docs rd ds = Inr xs" "map (Unmarshal rd) ds = map Inr xs" by force
  then show ?case by (intro exI [of _ "x # xs"]) simp
qed simp

section \<open>The invariant\<close>

lemma key_disjoint [simp]:
  "gatewayKeyPrefix @ i \<noteq> clientKeyPrefix @ j" "gatewayKeyPrefix @ i \<noteq> SessionKey j" "clientKeyPrefix @ i \<noteq> SessionKey j"
  "clientKeyPrefix @ j \<noteq> gatewayKeyPrefix @ i" "SessionKey j \<noteq> gatewayKeyPrefix @ i" "SessionKey j \<noteq> clientKeyPrefix @ i"
  "policyKey \<noteq> gatewayKeyPrefix @ i" "policyKey \<noteq> clientKeyPrefix @ i" "policyKey \<noteq> SessionKey i"
  "gatewayKeyPrefix @ i \<noteq> policyKey" "clientKeyPrefix @ i \<noteq> policyKey" "SessionKey i \<noteq> policyKey"
  "gatewayKeyPrefix \<noteq> clientKeyPrefix @ j" "gatewayKeyPrefix \<noteq> SessionKey j" "gatewayKeyPrefix \<noteq> policyKey"
  by (simp_all add: gatewayKeyPrefix_def clientKeyPrefix_def SessionKey_def sessionKeyPrefix_def policyKey_def)

definition ctl_ok :: "Network \<Rightarrow> (string \<Rightarrow> (raw \<times> int) option) \<Rightarrow> bool" where
  "ctl_ok net lk \<longleftrightarrow>
     table_ok gatewayKeyPrefix Gateway_fields gID gNodeIP (NodeSubnet net) lk
   \<and> table_ok clientKeyPrefix Client_fields cID cVirtualIP (ClientSubnet net) lk
   \<and> sessions_ok lk \<and> lk gatewayKeyPrefix = None \<and> (\<forall>i. lk (clientKeyPrefix @ i) \<noteq> None \<longrightarrow> lk (SessionKey i) \<noteq> None)"

lemma sessions_ok_other: "sessions_ok lk \<Longrightarrow> (\<And>i. lk' (SessionKey i) = lk (SessionKey i)) \<Longrightarrow> sessions_ok lk'"
  by (simp add: sessions_ok_def)

lemma ctl_put_gateway:
  assumes "ctl_ok net lk" "Unmarshal Gateway_fields v = Inr g" "gID g = i" "usable (NodeSubnet net) (gNodeIP g)" "i \<noteq> []"
    and "\<And>j h. row Gateway_fields (lk (gatewayKeyPrefix @ j)) = Some h \<Longrightarrow> gNodeIP h = gNodeIP g \<Longrightarrow> j = i"
  shows "ctl_ok net (lk(gatewayKeyPrefix @ i \<mapsto> (v, r)))"
proof -
  have "table_ok gatewayKeyPrefix Gateway_fields gID gNodeIP (NodeSubnet net) (lk(gatewayKeyPrefix @ i \<mapsto> (v, r)))"
    by (rule table_put [where x = g]) (use assms in \<open>auto simp: ctl_ok_def\<close>)
  then show ?thesis using assms(1,5) unfolding ctl_ok_def by (auto elim: table_other sessions_ok_other)
qed

lemma ctl_put_client:
  assumes "ctl_ok net lk" "Unmarshal Client_fields v = Inr c" "cID c = i" "usable (ClientSubnet net) (cVirtualIP c)"
    and "\<And>j h. row Client_fields (lk (clientKeyPrefix @ j)) = Some h \<Longrightarrow> cVirtualIP h = cVirtualIP c \<Longrightarrow> j = i"
    and "lk (SessionKey i) \<noteq> None"
  shows "ctl_ok net (lk(clientKeyPrefix @ i \<mapsto> (v, r)))"
proof -
  have "table_ok clientKeyPrefix Client_fields cID cVirtualIP (ClientSubnet net) (lk(clientKeyPrefix @ i \<mapsto> (v, r)))"
    by (rule table_put [where x = c]) (use assms in \<open>auto simp: ctl_ok_def\<close>)
  then show ?thesis using assms(1,6) unfolding ctl_ok_def by (auto elim: table_other sessions_ok_other)
qed

lemma ctl_put_session:
  assumes "ctl_ok net lk" "sessions_ok lk'" "\<And>k. k \<noteq> SessionKey i \<Longrightarrow> lk' k = lk k" "lk' (SessionKey i) \<noteq> None"
  shows "ctl_ok net lk'"
proof -
  have "lk' (SessionKey j) \<noteq> None" if "lk (SessionKey j) \<noteq> None" for j
    using that assms(3) [of "SessionKey j"] assms(4) by (cases "j = i") auto
  then show ?thesis using assms(1-3) unfolding ctl_ok_def by (auto elim: table_other)
qed

lemma ctl_put_policy: "ctl_ok net lk \<Longrightarrow> ctl_ok net (lk(policyKey \<mapsto> e))"
  unfolding ctl_ok_def by (auto elim: table_other sessions_ok_other)

lemma Unmarshal_MarshalClient:
  "cVirtualIP c = Addr4 w \<Longrightarrow> Unmarshal Client_fields (MarshalClient c) = Inr c"
  by (cases c) (simp add: MarshalClient_def Client_fields_def field_def field_step_def key_match_def fold_char_def addr_text_def)

section \<open>Requests\<close>

lemma foldl_field_inv:
  "foldl (field_step rd name) acc kvs = Inr x \<Longrightarrow> (\<And>y. acc = Inr y \<Longrightarrow> P y) \<Longrightarrow> (\<And>j y. rd j = Some y \<Longrightarrow> P y) \<Longrightarrow> P x"
proof (induction kvs arbitrary: acc)
  case (Cons e kvs)
  have "P y" if "field_step rd name acc e = Inr y" for y
    using that Cons.prems(2,3) by (auto simp: field_step_def split: prod.splits if_splits sum.splits option.splits)
  with Cons.IH [of "field_step rd name acc e"] Cons.prems show ?case by simp
qed simp

lemma decodeRegister_roles: "decodeRegister body = Inr req \<Longrightarrow> role_ok (rgRoles req)"
proof -
  assume a: "decodeRegister body = Inr req"
  have "\<exists>kvs. field read_int64 0 ''roles'' kvs = Inr (rgRoles req)"
    using a by (auto simp: decodeRegister_def Unmarshal_def strict_def Register_fields_def
        split: raw.splits json.splits if_splits sum.splits)
  then obtain kvs where "foldl (field_step read_int64 ''roles'') (Inr 0) kvs = Inr (rgRoles req)" by (auto simp: field_def)
  then show ?thesis
    by (rule foldl_field_inv) (auto simp: role_ok_def read_int64_def split: json.splits if_splits)
qed

lemma store_bump [simp]: "store (bumpLocked s) = store s"
  by (simp add: bumpLocked_def)

lemma store_seen [simp]: "store (seenLocked now i s) = store s"
  by (simp add: seenLocked_def Let_def)

lemma store_sweep [simp]: "store (sweep cfg now s) = store s"
proof -
  have "store (fold (sweep_one cfg now) ks s) = store s" for ks
    by (induction ks arbitrary: s) (simp_all add: sweep_one_def Let_def)
  then show ?thesis by (simp add: sweep_def)
qed

lemma store_report [simp]: "store (snd (reportLinks ops now i body s)) = store s"
  by (simp add: reportLinks_def split: sum.splits option.splits)

definition net_ok :: "Network \<Rightarrow> bool" where
  "net_ok net \<longleftrightarrow> Is4 (pfxAddr (ClientSubnet net)) \<and> Is4 (pfxAddr (NodeSubnet net))"

section \<open>Every handler keeps it\<close>

context kv_store
begin

lemma list_rows:
  assumes "sinv s" "table_ok pre rd idf ipf p (look s)"
  shows "\<exists>kvs xs. kList ops pre s = Inr kvs \<and> decode_docs rd (map snd kvs) = Inr xs \<and> length kvs = length xs
    \<and> (\<forall>x. x \<in> set xs \<longleftrightarrow> row rd (look s (pre @ idf x)) = Some x) \<and> distinct (map idf xs) \<and> distinct (map ipf xs)"
proof -
  obtain kvs where kvs: "kList ops pre s = Inr kvs" "mwf kvs"
    "\<And>k. mget kvs k = (if prefix pre k then map_option fst (look s k) else None)"
    using List [OF assms(1), of pre] by (auto simp: fun_eq_iff)
  have entry: "\<exists>i r x. k = pre @ i \<and> look s k = Some (v, r) \<and> Unmarshal rd v = Inr x \<and> idf x = i" if "(k, v) \<in> set kvs" for k v
  proof -
    have "mget kvs k = Some v" using that kvs(2) by (simp add: mget_iff_mem)
    then have "prefix pre k" "map_option fst (look s k) = Some v" using kvs(3) [of k] by (simp_all split: if_splits)
    then obtain i r where k: "k = pre @ i" "look s k = Some (v, r)" by (auto simp: prefix_def)
    then have "look s (pre @ i) \<noteq> None" by simp
    then obtain x where "row rd (look s (pre @ i)) = Some x" "idf x = i" using assms(2) unfolding table_ok_def by blast
    then show ?thesis using k by (auto simp: row_Some)
  qed
  then have "\<exists>x. Unmarshal rd d = Inr x" if "d \<in> set (map snd kvs)" for d using that by fastforce
  then obtain xs where xs: "decode_docs rd (map snd kvs) = Inr xs" "map (Unmarshal rd) (map snd kvs) = map Inr xs"
    using decode_docs_map by metis
  then have len: "length kvs = length xs" by (metis length_map)
  have nth: "fst (kvs ! n) = pre @ idf (xs ! n) \<and> row rd (look s (pre @ idf (xs ! n))) = Some (xs ! n)" if n: "n < length xs" for n
  proof -
    obtain k v where kv: "kvs ! n = (k, v)" by (cases "kvs ! n")
    have "Unmarshal rd v = Inr (xs ! n)" using arg_cong [OF xs(2), of "\<lambda>l. l ! n"] n len kv by simp
    then show ?thesis using entry [of k v] nth_mem [of n kvs] n len kv by (auto simp: row_Some)
  qed
  then have keys: "map fst kvs = map (\<lambda>x. pre @ idf x) xs" using len by (intro nth_equalityI) simp_all
  then have ids: "distinct (map idf xs)" using kvs(2) by (auto simp: distinct_map inj_on_def)
  have mem: "x \<in> set xs \<longleftrightarrow> row rd (look s (pre @ idf x)) = Some x" for x
  proof
    assume "row rd (look s (pre @ idf x)) = Some x"
    moreover from this have "mget kvs (pre @ idf x) \<noteq> None" using kvs(3) by (auto simp: row_Some)
    then have "pre @ idf x \<in> set (map fst kvs)" by (auto simp: mget_None_iff)
    then obtain y where y: "y \<in> set xs" "idf y = idf x" unfolding keys by auto
    then have "row rd (look s (pre @ idf y)) = Some y" using nth by (metis in_set_conv_nth)
    ultimately show "x \<in> set xs" using y by simp
  next
    assume "x \<in> set xs"
    then show "row rd (look s (pre @ idf x)) = Some x" using nth by (metis in_set_conv_nth)
  qed
  have "x = y" if "x \<in> set xs" "y \<in> set xs" "ipf x = ipf y" for x y
  proof -
    have rows: "row rd (look s (pre @ idf x)) = Some x" "row rd (look s (pre @ idf y)) = Some y" using that(1,2) mem by blast+
    have "idf x = idf y" by (rule table_unique [OF assms(2) rows that(3)])
    with rows have "Some x = Some y" by metis
    then show ?thesis by simp
  qed
  then have "inj_on ipf (set xs)" by (rule inj_onI)
  then have "distinct (map ipf xs)" using ids by (simp add: distinct_map)
  then show ?thesis using kvs(1) xs(1) len mem ids by blast
qed


lemma gateways_list:
  assumes "sinv s" "ctl_ok net (look s)"
  shows "\<exists>gws. gateways ops s = Inr gws \<and> distinct (map gID gws) \<and> distinct (map gNodeIP gws)
    \<and> (\<forall>g. g \<in> set gws \<longleftrightarrow> row Gateway_fields (look s (gatewayKeyPrefix @ gID g)) = Some g)"
proof -
  have "table_ok gatewayKeyPrefix Gateway_fields gID gNodeIP (NodeSubnet net) (look s)" using assms(2) by (simp add: ctl_ok_def)
  from list_rows [OF assms(1) this] show ?thesis by (auto simp: gateways_def distinct_map_sort_key)
qed

lemma clients_list:
  assumes "sinv s" "ctl_ok net (look s)"
  shows "\<exists>cs. clients ops s = Inr cs \<and> distinct (map cID cs) \<and> distinct (map cVirtualIP cs)
    \<and> (\<forall>c. c \<in> set cs \<longleftrightarrow> row Client_fields (look s (clientKeyPrefix @ cID c)) = Some c)"
proof -
  have "table_ok clientKeyPrefix Client_fields cID cVirtualIP (ClientSubnet net) (look s)" using assms(2) by (simp add: ctl_ok_def)
  from list_rows [OF assms(1) this] show ?thesis by (auto simp: clients_def distinct_map_sort_key)
qed

lemma own_step:
  assumes "sinv s" "ctl_ok net (look s)" "SetIfNewer ops rec s = (res, s')"
  shows "sinv s'" "ctl_ok net (look s')" "res = Inr b \<Longrightarrow> look s' (SessionKey (oSession rec)) \<noteq> None"
    "k \<noteq> SessionKey (oSession rec) \<Longrightarrow> look s' k = look s k"
proof -
  have "sinv s' \<and> ctl_ok net (look s') \<and> (res = Inr b \<longrightarrow> look s' (SessionKey (oSession rec)) \<noteq> None)
    \<and> (k \<noteq> SessionKey (oSession rec) \<longrightarrow> look s' k = look s k)"
  proof (cases "Validate rec")
    case (Some e)
    then have "res = Inl e" "s' = s" using assms(3) by (simp_all add: SetIfNewer_def)
    then show ?thesis using assms by simp
  next
    case None
    have ok: "stored_ok s" using assms(2) by (simp add: ctl_ok_def)
    have some: "look s2 (SessionKey i) \<noteq> None" if "sinv s2" "stored_ok s2" "OS_Get ops i s2 = Inr (Some c)" for s2 i c
      using that OS_Get_look [OF that(1,2), of i] by (auto split: option.splits)
    note seq = SetIfNewer_seq [OF assms(1) ok None]
    obtain found where f: "OS_Get ops (oSession rec) s = Inr found" using OS_Get_look [OF assms(1) ok] by blast
    consider (same) cur where "found = Some cur" "s' = s" | (new) "sinv s'" "stored_ok s'" "OS_Get ops (oSession rec) s' = Inr (Some rec)"
        "\<forall>k. k \<noteq> SessionKey (oSession rec) \<longrightarrow> look s' k = look s k"
      using seq assms(3) f by (auto split: option.splits if_splits)
    then show ?thesis
    proof cases
      case same
      then show ?thesis using assms(1,2) some [OF assms(1) ok] f by auto
    next
      case new
      then show ?thesis using ctl_put_session [OF assms(2) new(2), of "oSession rec"] some [OF new(1-3)] by blast
    qed
  qed
  then show "sinv s'" "ctl_ok net (look s')" "res = Inr b \<Longrightarrow> look s' (SessionKey (oSession rec)) \<noteq> None"
    "k \<noteq> SessionKey (oSession rec) \<Longrightarrow> look s' k = look s k" by blast+
qed


abbreviation srv_ok :: "Network \<Rightarrow> 's Server \<Rightarrow> bool" where
  "srv_ok net s \<equiv> sinv (store s) \<and> ctl_ok net (look (store s))"

lemma register_ok:
  assumes "srv_ok (cfgNetwork cfg) s" "net_ok (cfgNetwork cfg)" "role_ok (rgRoles req)" "i \<noteq> []"
  shows "srv_ok (cfgNetwork cfg) (snd (registerLocked ops cfg now i req s))"
proof -
  let ?net = "cfgNetwork cfg" and ?lk = "look (store s)"
  obtain gws where gws: "gateways ops (store s) = Inr gws" "distinct (map gID gws)"
    "\<And>g. g \<in> set gws \<longleftrightarrow> row Gateway_fields (?lk (gatewayKeyPrefix @ gID g)) = Some g"
    using gateways_list [of "store s" ?net] assms(1) by blast
  have tab: "table_ok gatewayKeyPrefix Gateway_fields gID gNodeIP (NodeSubnet ?net) ?lk" using assms(1) by (simp add: ctl_ok_def)
  obtain g existed where find: "FindGateway gws i = (g, existed)" by (cases "FindGateway gws i")
  define ip where "ip = (if existed then Some (gNodeIP g) else allocate (NodeSubnet ?net) (map gNodeIP gws))"
  show ?thesis
  proof (cases ip)
    case None
    then show ?thesis using assms(1) find by (simp add: registerLocked_def gws(1) flip: ip_def)
  next
    case (Some a)
    have "usable (NodeSubnet ?net) a
      \<and> (\<forall>j h. row Gateway_fields (?lk (gatewayKeyPrefix @ j)) = Some h \<longrightarrow> gNodeIP h = a \<longrightarrow> j = i)"
    proof (cases existed)
      case True
      then have g: "g \<in> set gws" "gID g = i" "a = gNodeIP g" using FindGateway_in [of gws i g] find Some by (simp_all add: ip_def)
      then have "row Gateway_fields (?lk (gatewayKeyPrefix @ i)) = Some g" using gws(3) by blast
      then show ?thesis using table_row [OF tab] table_unique [OF tab] g(3) by blast
    next
      case False
      then have fresh: "usable (NodeSubnet ?net) a" "a \<notin> gNodeIP ` set gws"
        using allocate_fresh [of "NodeSubnet ?net" "map gNodeIP gws" a] assms(2) Some by (simp_all add: ip_def net_ok_def)
      have "h \<in> set gws" if "row Gateway_fields (?lk (gatewayKeyPrefix @ j)) = Some h" for j h
        using gws(3) [of h] table_row [OF tab that] that by simp
      then show ?thesis using fresh by blast
    qed
    note a = conjunct1 [OF this] conjunct2 [OF this, rule_format]
    define nxt where "nxt = \<lparr>gID = i, gRoles = rgRoles req, gEndpoint = rgEndpoint req, gPublicKey = rgPublicKey req,
      gNodeIP = a, gBackbonePorts = rgBackbonePorts req, gIPsec = rgIPsec req, gAlive = False\<rparr>"
    obtain w where w: "gNodeIP nxt = Addr4 w" using usable_Addr4 [OF a(1)] by (auto simp: nxt_def)
    obtain bp where dec: "Unmarshal Gateway_fields (MarshalGateway nxt) = Inr (nxt\<lparr>gBackbonePorts := bp\<rparr>)"
      using Unmarshal_MarshalGateway [OF w] assms(3) by (auto simp: nxt_def)
    have "MarshalGateway nxt \<noteq> RawBad" by (simp add: MarshalGateway_def)
    then obtain st r where put: "kPut ops (gatewayKeyPrefix @ i) (MarshalGateway nxt) (store s) = (None, st)" "sinv st"
      "look st = ?lk(gatewayKeyPrefix @ i \<mapsto> (MarshalGateway nxt, r))"
      using Put [of "store s" "MarshalGateway nxt" "gatewayKeyPrefix @ i"] assms(1) by blast
    have "ctl_ok ?net (look st)" unfolding put(3)
      by (rule ctl_put_gateway [OF _ dec]) (use assms(1,4) a in \<open>auto simp: nxt_def\<close>)
    then show ?thesis
      using assms(1) find Some put(1,2) unfolding registerLocked_def gws(1) by (simp add: Let_def flip: ip_def nxt_def)
  qed
qed

lemma registerGateway_ok:
  "srv_ok (cfgNetwork cfg) s \<Longrightarrow> net_ok (cfgNetwork cfg) \<Longrightarrow> srv_ok (cfgNetwork cfg) (snd (registerGateway ops cfg now i body s))"
  using register_ok [of s cfg] decodeRegister_roles [of body]
  by (auto simp: registerGateway_def gatewayIDRE_def split: sum.splits list.splits)


lemma put_client:
  assumes "sinv st" "ctl_ok net (look st)" "usable (ClientSubnet net) (cVirtualIP c)" "look st (SessionKey (cID c)) \<noteq> None"
    and "\<And>j h. row Client_fields (look st (clientKeyPrefix @ j)) = Some h \<Longrightarrow> cVirtualIP h = cVirtualIP c \<Longrightarrow> j = cID c"
  shows "\<exists>st'. kPut ops (clientKeyPrefix @ cID c) (MarshalClient c) st = (None, st') \<and> sinv st' \<and> ctl_ok net (look st')
    \<and> (\<forall>k. k \<noteq> clientKeyPrefix @ cID c \<longrightarrow> look st' k = look st k)"
proof -
  obtain w where "cVirtualIP c = Addr4 w" using usable_Addr4 [OF assms(3)] by blast
  then have dec: "Unmarshal Client_fields (MarshalClient c) = Inr c" by (rule Unmarshal_MarshalClient)
  have "MarshalClient c \<noteq> RawBad" by (simp add: MarshalClient_def)
  then obtain st' r where put: "kPut ops (clientKeyPrefix @ cID c) (MarshalClient c) st = (None, st')" "sinv st'"
    "look st' = (look st)(clientKeyPrefix @ cID c \<mapsto> (MarshalClient c, r))"
    using Put [OF assms(1), of "MarshalClient c" "clientKeyPrefix @ cID c"] by blast
  have "ctl_ok net (look st')" unfolding put(3)
    by (rule ctl_put_client [OF assms(2) dec refl assms(3,5,4)])
  then show ?thesis using put by simp
qed

lemma client_row:
  assumes "srv_ok net s" "row Client_fields (look (store s) (clientKeyPrefix @ cID c)) = Some c"
  shows "usable (ClientSubnet net) (cVirtualIP c)" "look (store s) (SessionKey (cID c)) \<noteq> None"
    "row Client_fields (look (store s) (clientKeyPrefix @ j)) = Some h \<Longrightarrow> cVirtualIP h = cVirtualIP c \<Longrightarrow> j = cID c"
proof -
  have tab: "table_ok clientKeyPrefix Client_fields cID cVirtualIP (ClientSubnet net) (look (store s))"
    using assms(1) by (simp add: ctl_ok_def)
  show "usable (ClientSubnet net) (cVirtualIP c)" using table_row [OF tab assms(2)] by simp
  have "look (store s) (clientKeyPrefix @ cID c) \<noteq> None" using assms(2) by (auto simp: row_Some)
  then show "look (store s) (SessionKey (cID c)) \<noteq> None" using assms(1) by (simp add: ctl_ok_def)
  show "row Client_fields (look (store s) (clientKeyPrefix @ j)) = Some h \<Longrightarrow> cVirtualIP h = cVirtualIP c \<Longrightarrow> j = cID c"
    using table_unique [OF tab _ assms(2)] by blast
qed

lemma session_defined:
  assumes "sinv st" "ctl_ok net (look st)" "look st (SessionKey (cID c)) \<noteq> None"
  shows "\<exists>own. OS_Get ops (cID c) st = Inr (Some own) \<and> Validate own = None \<and> oSession own = cID c"
proof -
  obtain v r where v: "look st (SessionKey (cID c)) = Some (v, r)" using assms(3) by auto
  have ok: "stored_ok st" using assms(2) by (simp add: ctl_ok_def)
  then obtain own where own: "UnmarshalOwnership v = Inr own" "oSession own = cID c" using v by (auto simp: sessions_ok_def)
  then show ?thesis using OS_Get_look [OF assms(1) ok, of "cID c"] v Unmarshal_valid by simp
qed

lemma switch_ok:
  assumes "srv_ok net s" "row Client_fields (look (store s) (clientKeyPrefix @ cID c)) = Some c"
  shows "srv_ok net (snd (switchBackendLocked ops cr cfg c backend s))"
proof -
  note row = client_row [OF assms]
  obtain gws where gws: "gateways ops (store s) = Inr gws" using gateways_list [of "store s" net] assms(1) by blast
  obtain own where own: "OS_Get ops (cID c) (store s) = Inr (Some own)"
    using session_defined [of "store s" net c] assms(1) row(2) by blast
  obtain cur where cur: "session ops cr cfg c (store s) = Inr cur" using own by (simp add: session_def Let_def)
  have last: "srv_ok net (snd (case kPut ops (clientKeyPrefix @ cID c) (MarshalClient (c\<lparr>cBackend := backend\<rparr>)) (store s2) of
        (Some e, st) \<Rightarrow> (Some (CtlStore e), s2\<lparr>store := st\<rparr>)
      | (None, st) \<Rightarrow> (None, bumpLocked (s2\<lparr>store := st\<rparr>))))"
    if ok: "srv_ok net s2" "look (store s2) (SessionKey (cID c)) \<noteq> None"
      "\<And>j. look (store s2) (clientKeyPrefix @ j) = look (store s) (clientKeyPrefix @ j)" for s2
    using put_client [of "store s2" net "c\<lparr>cBackend := backend\<rparr>"] ok row by auto
  show ?thesis
  proof (cases "canAccess (fst (FindGateway gws (sAccess cur))) backend")
    case True
    then show ?thesis using last [of s] assms(1) row(2) by (simp add: switchBackendLocked_def cur gws)
  next
    case False
    show ?thesis
    proof (cases "pickPath gws (isAlive s) (sEgress cur) backend")
      case (Inl e)
      then show ?thesis using assms(1) False by (simp add: switchBackendLocked_def cur gws)
    next
      case (Inr ae)
      obtain access eg where ae: "ae = (access, eg)" by (cases ae)
      define rec where "rec = \<lparr>oSession = cID c, oAccess = access, oEgress = sEgress cur, oEpoch = sEpoch cur + 1\<rparr>"
      obtain res st where set: "SetIfNewer ops rec (store s) = (res, st)" by fastforce
      note st = own_step [of "store s" net rec res st, OF _ _ set]
      have "srv_ok net (s\<lparr>store := st\<rparr>)" using st(1,2) assms(1) by simp
      moreover have "look st (SessionKey (cID c)) \<noteq> None" if "res = Inr b" for b
        using st(3) that assms(1) by (simp add: rec_def)
      moreover have "look st (clientKeyPrefix @ j) = look (store s) (clientKeyPrefix @ j)" for j
        using st(4) assms(1) by (simp add: rec_def)
      ultimately show ?thesis
        using last [of "s\<lparr>store := st\<rparr>"] False Inr ae set
        by (cases res) (simp_all add: switchBackendLocked_def cur gws flip: rec_def)
    qed
  qed
qed

lemma reopen_ok:
  assumes "srv_ok net s" "row Client_fields (look (store s) (clientKeyPrefix @ cID c)) = Some c"
  shows "srv_ok net (snd (reopenSession ops cr cfg req c s))"
proof -
  obtain e s2 where "switchBackendLocked ops cr cfg c (normBackend (csBackend req)) s = (e, s2)" by fastforce
  then show ?thesis
    using switch_ok [OF assms, of cr cfg "normBackend (csBackend req)"] assms(1)
    by (auto simp: reopenSession_def Let_def split: option.splits sum.splits)
qed


lemma open_ok:
  assumes "srv_ok (cfgNetwork cfg) s" "net_ok (cfgNetwork cfg)" "clients ops (store s) = Inr cs"
  shows "srv_ok (cfgNetwork cfg) (snd (openSession ops cr cfg rnd req cs s))"
proof -
  let ?net = "cfgNetwork cfg"
  obtain gws where gws: "gateways ops (store s) = Inr gws" using gateways_list [of "store s" ?net] assms(1) by blast
  have cs: "c \<in> set cs" if "row Client_fields (look (store s) (clientKeyPrefix @ i)) = Some c" for i c
  proof -
    have "table_ok clientKeyPrefix Client_fields cID cVirtualIP (ClientSubnet ?net) (look (store s))"
      using assms(1) by (simp add: ctl_ok_def)
    from table_row [OF this that] have "cID c = i" by simp
    then show ?thesis using clients_list [of "store s" ?net] assms(1,3) that by auto
  qed
  show ?thesis
  proof (cases "pickPath gws (isAlive s) (csEgress req) (normBackend (csBackend req))")
    case (Inl e)
    then show ?thesis using assms(1) by (simp add: openSession_def gws)
  next
    case (Inr ae)
    obtain access egress where ae: "ae = (access, egress)" by (cases ae)
    show ?thesis
    proof (cases "\<exists>vip i secret. allocate (ClientSubnet ?net) (map cVirtualIP cs) = Some vip \<and> randomSessionID rnd = Some i
        \<and> randomSecret rnd = Some secret")
      case False
      then show ?thesis using assms(1) Inr ae by (auto simp: openSession_def gws split: option.splits)
    next
      case True
      then obtain vip i secret where got: "allocate (ClientSubnet ?net) (map cVirtualIP cs) = Some vip" "randomSessionID rnd = Some i"
        "randomSecret rnd = Some secret" by blast
      have vip: "usable (ClientSubnet ?net) vip" "vip \<notin> cVirtualIP ` set cs"
        using allocate_fresh [OF _ got(1)] assms(2) by (simp_all add: net_ok_def)
      obtain res st where set: "SetIfNewer ops \<lparr>oSession = i, oAccess = access, oEgress = egress, oEpoch = 1\<rparr> (store s) = (res, st)"
        by fastforce
      note st = own_step [of "store s" ?net _ res st, OF _ _ set, simplified]
      show ?thesis
      proof (cases res)
        case (Inl e)
        then show ?thesis using st(1,2) assms(1) Inr ae got set by (simp add: openSession_def gws)
      next
        case b: (Inr b)
        define rec where "rec = \<lparr>cID = i, cPublicKey = csPublicKey req, cVirtualIP = vip, cSecretHash = sha256hex cr secret,
          cBackend = normBackend (csBackend req)\<rparr>"
        have "\<exists>st'. kPut ops (clientKeyPrefix @ cID rec) (MarshalClient rec) st = (None, st') \<and> sinv st' \<and> ctl_ok ?net (look st')
            \<and> (\<forall>k. k \<noteq> clientKeyPrefix @ cID rec \<longrightarrow> look st' k = look st k)"
        proof (rule put_client)
          show "sinv st" "ctl_ok ?net (look st)" using st(1,2) assms(1) by simp_all
          show "usable (ClientSubnet ?net) (cVirtualIP rec)" using vip(1) by (simp add: rec_def)
          show "look st (SessionKey (cID rec)) \<noteq> None" using st(3) [OF _ _ b] assms(1) by (simp add: rec_def)
          show "j = cID rec" if "row Client_fields (look st (clientKeyPrefix @ j)) = Some h" "cVirtualIP h = cVirtualIP rec" for j h
          proof -
            have "h \<in> set cs" using cs [of j h] that(1) st(4) [of "clientKeyPrefix @ j"] assms(1) by simp
            then show ?thesis using that(2) vip(2) by (auto simp: rec_def)
          qed
        qed
        then obtain st' where st': "kPut ops (clientKeyPrefix @ i) (MarshalClient rec) st = (None, st')" "sinv st'" "ctl_ok ?net (look st')"
          by (auto simp: rec_def)
        have "snd (openSession ops cr cfg rnd req cs s) = bumpLocked (s\<lparr>store := st'\<rparr>)"
          using Inr ae got set b st'(1) by (simp add: openSession_def gws Let_def flip: rec_def split: sum.splits)
        then show ?thesis using st'(2,3) by simp
      qed
    qed
  qed
qed

lemma create_ok:
  assumes "srv_ok (cfgNetwork cfg) s" "net_ok (cfgNetwork cfg)"
  shows "srv_ok (cfgNetwork cfg) (snd (createSession ops cr cfg rnd auth body s))"
proof -
  obtain cs where cs: "clients ops (store s) = Inr cs"
    "\<And>c. c \<in> set cs \<Longrightarrow> row Client_fields (look (store s) (clientKeyPrefix @ cID c)) = Some c"
    using clients_list [of "store s" "cfgNetwork cfg"] assms(1) by blast
  have "srv_ok (cfgNetwork cfg) (snd (reopenSession ops cr cfg req c s))" if "find P cs = Some c" for P c req
    using reopen_ok [OF assms(1) cs(2)] find_Some_mem [OF that] by blast
  then show ?thesis
    using assms(1) open_ok [OF assms cs(1)] by (simp add: createSession_def cs(1) split: sum.splits option.splits)
qed

lemma migrate_ok:
  assumes "srv_ok net s"
  shows "srv_ok net (snd (migrate ops cr cfg c body s))"
proof -
  have "srv_ok net (snd (migrateLocked ops cr cfg c req s))" for req
  proof -
    obtain gws where gws: "gateways ops (store s) = Inr gws" using gateways_list [of "store s" net] assms by blast
    have "srv_ok net (s\<lparr>store := st\<rparr>)" if "SetIfNewer ops rec (store s) = (res, st)" for rec res st
      using own_step(1,2) [of "store s" net rec res st, OF _ _ that] assms by simp
    then show ?thesis
      using assms by (auto simp: migrateLocked_def gws Let_def split: sum.splits bool.splits prod.splits)
  qed
  then show ?thesis using assms by (simp add: migrate_def split: sum.splits)
qed

lemma serve_ok:
  "srv_ok (cfgNetwork cfg) s \<Longrightarrow> net_ok (cfgNetwork cfg) \<Longrightarrow> srv_ok (cfgNetwork cfg) (serve ops cr cfg rq s)"
  using registerGateway_ok [of s cfg] create_ok [of s cfg] migrate_ok [of s "cfgNetwork cfg"]
  by (cases rq) (simp_all add: serve_def gatewayAuth_def)

lemma serve_all_ok:
  "srv_ok (cfgNetwork cfg) s \<Longrightarrow> net_ok (cfgNetwork cfg) \<Longrightarrow> srv_ok (cfgNetwork cfg) (serve_all ops cr cfg rqs s)"
  unfolding serve_all_def by (induction rqs arbitrary: s) (simp_all add: serve_ok)

lemma policy_ok:
  assumes "sinv st" "ctl_ok net (look st)" "PS_Set ops p st = (e, st')"
  shows "sinv st' \<and> ctl_ok net (look st')"
proof (cases "MarshalPolicy p")
  case (Inl er)
  then show ?thesis using assms by (simp add: PS_Set_def)
next
  case (Inr d)
  then have "d \<noteq> RawBad" by (auto simp: MarshalPolicy_def Let_def split: option.splits)
  then obtain s' r where "kPut ops policyKey d st = (None, s')" "sinv s'" "look s' = (look st)(policyKey \<mapsto> (d, r))"
    using Put [OF assms(1), of d policyKey] by blast
  then show ?thesis using assms(2,3) Inr ctl_put_policy by (simp add: PS_Set_def)
qed

lemma New_ok:
  assumes "New ops cfg0 st = Inr (cfg, s)" "sinv st" "ctl_ok (cfgNetwork cfg) (look st)"
  shows "srv_ok (cfgNetwork cfg) s"
  using assms policy_ok [OF assms(2,3)] by (auto simp: New_def Let_def split: if_splits option.splits prod.splits)

lemma client_session:
  assumes "srv_ok net s" "row Client_fields (look (store s) (clientKeyPrefix @ cID c)) = Some c"
  shows "\<exists>x. session ops cr cfg c (store s) = Inr x"
  using session_defined [of "store s" net c] client_row(2) [OF assms] assms(1) by (auto simp: session_def Let_def)

end

section \<open>Subnets\<close>

lemma drop_push_drop: "drop_bit n (push_bit n (drop_bit n w)) = drop_bit n (w :: 'a :: len word)"
  by (rule bit_word_eqI) (auto simp: bit_simps dest: bit_imp_le_length)

lemma Contains_Masked:
  assumes "pfxAddr p = Addr4 x"
  shows "Contains (Masked p) a \<longrightarrow> Contains p a"
proof (cases "Prefix_IsValid p")
  case True
  then have "host_bits (Masked p) = host_bits p" using assms by (simp add: Masked_def host_bits_def BitLen_def)
  then show ?thesis using assms True by (cases a) (simp_all add: Contains_def Masked_def Prefix_IsValid_def BitLen_def word_xor_eq_0 drop_push_drop)
next
  case False
  then show ?thesis by (simp add: Masked_def Contains_def Prefix_IsValid_def)
qed

lemma div_pow_coarser: "h \<le> k \<Longrightarrow> x div 2 ^ h = y div (2 :: nat) ^ h \<Longrightarrow> x div 2 ^ k = y div 2 ^ k"
  by (metis div_mult2_eq le_add_diff_inverse power_add)

lemma Contains_Overlaps:
  assumes "pfxAddr p = Addr4 x" "pfxAddr q = Addr4 y" "Contains p a" "Contains q a"
  shows "Overlaps p q"
proof -
  obtain w where a: "a = Addr4 w" using assms(1,3) by (auto simp: Contains_def split: Addr.splits)
  have v: "Prefix_IsValid p" "Prefix_IsValid q" using assms(3,4) by (simp_all add: Contains_def)
  define h where "h = 32 - nat (min (pfxBits p) (pfxBits q))"
  have le: "host_bits p \<le> h" "host_bits q \<le> h" using assms(1,2) by (auto simp: host_bits_def h_def BitLen_def)
  have "unat x div 2 ^ h = unat w div 2 ^ h" "unat y div 2 ^ h = unat w div 2 ^ h"
    using assms a by (auto intro: div_pow_coarser [OF le(1)] div_pow_coarser [OF le(2)] simp: Contains4)
  then have "drop_bit h x = drop_bit h y"
    unfolding word_unat_eq_iff unat_drop_bit_eq unfolding drop_bit_eq_div by simp
  then show ?thesis using v assms(1,2) by (simp add: Overlaps_def Let_def h_def)
qed

lemma New_net:
  assumes "New ops cfg0 st = Inr (cfg, s)"
  shows "net_ok (cfgNetwork cfg)"
    and "\<not> (usable (ClientSubnet (cfgNetwork cfg)) a \<and> usable (NodeSubnet (cfgNetwork cfg)) a)"
proof -
  let ?c = "ClientSubnet (cfgNetwork cfg0)" and ?n = "NodeSubnet (cfgNetwork cfg0)"
  have ok: "Prefix_IsValid ?c" "Prefix_IsValid ?n" "Is4 (pfxAddr ?c)" "Is4 (pfxAddr ?n)" "\<not> Overlaps ?c ?n"
    and sub: "ClientSubnet (cfgNetwork cfg) = Masked ?c" "NodeSubnet (cfgNetwork cfg) = Masked ?n"
    using assms by (auto simp: New_def Let_def split: if_splits option.splits prod.splits)
  obtain x y where xy: "pfxAddr ?c = Addr4 x" "pfxAddr ?n = Addr4 y" using ok(3,4) by (auto simp: Is4_def split: Addr.splits)
  show "net_ok (cfgNetwork cfg)" unfolding net_ok_def sub using ok(1,2) xy by (simp add: Masked_def Is4_def)
  have "Contains p a" if "usable p a" for p using that by (auto simp: usable_def split: Addr.splits)
  then show "\<not> (usable (ClientSubnet (cfgNetwork cfg)) a \<and> usable (NodeSubnet (cfgNetwork cfg)) a)"
    unfolding sub using Contains_Masked [OF xy(1)] Contains_Masked [OF xy(2)] Contains_Overlaps [OF xy] ok(5) by blast
qed

end
