(* ===== verification/ControllerProps.thy ===== *)
theory ControllerProps
  imports ControllerInv
begin

text \<open>
  Properties of the controller on the in-memory store: unique addresses over any history, migration,
  reopening a session, and the long poll.
\<close>

section \<open>Any history\<close>

lemma ctl_ok_New: "ctl_ok net (mem_look NewMemStore)"
  by (simp add: ctl_ok_def table_ok_def row_def)

lemma history_ok:
  assumes "New mem_ops cfg0 NewMemStore = Inr (cfg, s0)"
  shows "mem.srv_ok (cfgNetwork cfg) (serve_all mem_ops cr cfg rqs s0)"
  using mem.serve_all_ok [of s0 cfg] mem.New_ok [OF assms mem_inv_New ctl_ok_New] New_net(1) [OF assms] by blast

text \<open>
  (C20) Addresses are unique: from an empty store, after any sequence of registrations, link reports, session
  requests, migrations and sweeps, gateways and sessions can be listed, no two of them share an address,
  gateways hold addresses of the node subnet and sessions of the client subnet (never one of the first two
  or the last), and every session can be served because it has an ownership record.
\<close>

theorem addresses_unique:
  assumes "New mem_ops cfg0 NewMemStore = Inr (cfg, s0)" "s = serve_all mem_ops cr cfg rqs s0"
  shows "\<exists>gws cs. gateways mem_ops (store s) = Inr gws \<and> clients mem_ops (store s) = Inr cs
    \<and> distinct (map gNodeIP gws @ map cVirtualIP cs)
    \<and> list_all (\<lambda>g. usable (NodeSubnet (cfgNetwork cfg)) (gNodeIP g)) gws
    \<and> list_all (\<lambda>c. usable (ClientSubnet (cfgNetwork cfg)) (cVirtualIP c) \<and> (\<exists>x. session mem_ops cr cfg c (store s) = Inr x)) cs"
proof -
  let ?net = "cfgNetwork cfg"
  have ok: "mem.srv_ok ?net s" using history_ok [OF assms(1)] assms(2) by simp
  then have tabs: "table_ok gatewayKeyPrefix Gateway_fields gID gNodeIP (NodeSubnet ?net) (mem_look (store s))"
    by (simp add: ctl_ok_def)
  obtain gws where gws: "gateways mem_ops (store s) = Inr gws" "distinct (map gNodeIP gws)"
    "\<And>g. g \<in> set gws \<longleftrightarrow> row Gateway_fields (mem_look (store s) (gatewayKeyPrefix @ gID g)) = Some g"
    using mem.gateways_list [of "store s" ?net] ok by blast
  obtain cs where cs: "clients mem_ops (store s) = Inr cs" "distinct (map cVirtualIP cs)"
    "\<And>c. c \<in> set cs \<longleftrightarrow> row Client_fields (mem_look (store s) (clientKeyPrefix @ cID c)) = Some c"
    using mem.clients_list [of "store s" ?net] ok by blast
  have g: "usable (NodeSubnet ?net) (gNodeIP g)" if "g \<in> set gws" for g using table_row [OF tabs] gws(3) that by blast
  have c: "usable (ClientSubnet ?net) (cVirtualIP c)" "\<exists>x. session mem_ops cr cfg c (store s) = Inr x" if "c \<in> set cs" for c
    using mem.client_row(1) [OF ok] mem.client_session [OF ok] cs(3) that by blast+
  have "gNodeIP ` set gws \<inter> cVirtualIP ` set cs = {}" using New_net(2) [OF assms(1)] g c(1) by force
  then have "distinct (map gNodeIP gws @ map cVirtualIP cs)" using gws(2) cs(2) by simp
  then show ?thesis using gws(1) cs(1) g c by (auto simp: list_all_iff)
qed

text \<open>A small deployment: one gateway, one client.\<close>

definition demo_cfg :: Config where
  "demo_cfg = \<lparr>GatewayToken = [], ClientToken = [],
     cfgNetwork = \<lparr>ClientSubnet = \<lparr>pfxAddr = Addr4 0x0A000000, pfxBits = 24\<rparr>,
       NodeSubnet = \<lparr>pfxAddr = Addr4 0x0A000100, pfxBits = 24\<rparr>, ProbePort = 7000\<rparr>,
     cfgPolicy = None, AliveAfter = 0, IPsecKey = []\<rparr>"

definition demo_crypto :: crypto where
  "demo_crypto = \<lparr>sha256hex = (\<lambda>s. s), hmacHex = (\<lambda>k s. s)\<rparr>"

lemma demo_New: "\<exists>cfg s0. New mem_ops demo_cfg NewMemStore = Inr (cfg, s0)"
  by (simp add: New_def demo_cfg_def Let_def Prefix_IsValid_def Is4_def BitLen_def Overlaps_def)

theorem addresses_unique_witness:
  "\<exists>cfg s0 gws cs. New mem_ops demo_cfg NewMemStore = Inr (cfg, s0)
    \<and> gateways mem_ops (store (serve_all mem_ops demo_crypto cfg [SweepTick 0] s0)) = Inr gws
    \<and> clients mem_ops (store (serve_all mem_ops demo_crypto cfg [SweepTick 0] s0)) = Inr cs
    \<and> distinct (map gNodeIP gws @ map cVirtualIP cs)"
proof -
  obtain cfg s0 where n: "New mem_ops demo_cfg NewMemStore = Inr (cfg, s0)" using demo_New by blast
  from addresses_unique [OF n refl, of demo_crypto "[SweepTick 0]"] n show ?thesis by blast
qed

section \<open>Migration\<close>

lemma FindGateway_distinct:
  assumes "distinct (map gID gws)" "g \<in> set gws"
  shows "FindGateway gws (gID g) = (g, True)"
  using assms by (induction gws) (auto simp: FindGateway_def rev_image_eqI)

lemma find_by_id:
  assumes "distinct (map gID gws)"
  shows "(\<exists>g \<in> set gws. gID g = i \<and> P g) \<longleftrightarrow> snd (FindGateway gws i) \<and> P (fst (FindGateway gws i))"
proof
  assume "\<exists>g \<in> set gws. gID g = i \<and> P g"
  then show "snd (FindGateway gws i) \<and> P (fst (FindGateway gws i))" using FindGateway_distinct [OF assms] by auto
next
  assume a: "snd (FindGateway gws i) \<and> P (fst (FindGateway gws i))"
  then have "FindGateway gws i = (fst (FindGateway gws i), True)" by (metis prod.collapse)
  from FindGateway_in [OF this] a show "\<exists>g \<in> set gws. gID g = i \<and> P g" by blast
qed

text \<open>What a session's clients see of a path change.\<close>

definition moved :: "MigrateRequest \<Rightarrow> Session \<Rightarrow> Session" where
  "moved req cur = cur\<lparr>sAccess := mqAccess req, sEgress := mqEgress req, sEpoch := sEpoch cur + 1\<rparr>"

definition path_ok :: "Gateway list \<Rightarrow> string \<Rightarrow> MigrateRequest \<Rightarrow> bool" where
  "path_ok gws backend req \<longleftrightarrow> (\<exists>g \<in> set gws. gID g = mqAccess req \<and> canAccess g backend)
     \<and> (\<exists>g \<in> set gws. gID g = mqEgress req \<and> Has (gRoles g) RoleEgress)"

lemma session_own:
  "OS_Get ops (cID c) st = Inr (Some own) \<Longrightarrow>
   session ops cr cfg c st = Inr (case own of r \<Rightarrow>
     let sess = \<lparr>sID = cID c, sPublicKey = cPublicKey c, sVirtualIP = cVirtualIP c, sAccess = oAccess r,
               sEgress = oEgress r, sEpoch = oEpoch r, sBackend = BackendWireGuard, sIPsecPSK = []\<rparr>
     in if cBackend c = BackendIPsec then sess\<lparr>sBackend := BackendIPsec, sIPsecPSK := ipsecPSK cr cfg (cID c)\<rparr> else sess)"
  by (simp add: session_def Let_def)

lemma session_cong: "OS_Get ops (cID c) st = OS_Get ops (cID c) st' \<Longrightarrow> session ops cr cfg c st = session ops cr cfg c st'"
  by (simp add: session_def)

lemma clientByID_row:
  "mem_inv st \<Longrightarrow> clientByID mem_ops (cID c) st = Inr (Some c) \<Longrightarrow> row Client_fields (mem_look st (clientKeyPrefix @ cID c)) = Some c"
  by (auto simp: clientByID_def mem.Get row_def split: option.splits sum.splits)

lemma set_next:
  assumes "mem_inv st" "sessions_ok (mem_look st)" "OS_Get mem_ops (oSession rec) st = Inr (Some own)" "Validate rec = None"
    "oEpoch rec = oEpoch own + 1"
  shows "if oEpoch own = - 1 then SetIfNewer mem_ops rec st = (Inr False, st)
    else \<exists>st'. SetIfNewer mem_ops rec st = (Inr True, st') \<and> OS_Get mem_ops (oSession rec) st' = Inr (Some rec)
      \<and> (\<forall>sid. sid \<noteq> oSession rec \<longrightarrow> OS_Get mem_ops sid st' = OS_Get mem_ops sid st)"
proof -
  have wrap: "oEpoch rec \<le> oEpoch own \<longleftrightarrow> oEpoch own = - 1"
    unfolding assms(5) by (rule word_Suc_le)
  note seq = mem.SetIfNewer_seq [OF assms(1,2,4), unfolded assms(3), simplified]
  show ?thesis
  proof (cases "oEpoch own = - 1")
    case True
    then show ?thesis using seq wrap by simp
  next
    case False
    then obtain st' where "SetIfNewer mem_ops rec st = (Inr True, st')" "mem_inv st'" "OS_Get mem_ops (oSession rec) st' = Inr (Some rec)"
      "\<forall>k. k \<noteq> SessionKey (oSession rec) \<longrightarrow> mem_look st' k = mem_look st k" using seq wrap by auto
    then show ?thesis using False assms(1) by (auto simp: OS_Get_def mem.Get)
  qed
qed

text \<open>
  (C21) A migration is a compare-and-swap on the epoch: with readable records, the request of an
  authenticated client is refused with 400 unless its access gateway can serve the client's backend and
  its egress gateway is one; refused with 409 and the current session when the epoch it names is not
  the session's, or when epochs have run out; otherwise the reply is the session at its next epoch on
  the new path, a later read returns the same, every other session is as before and the state version
  has moved by one. A refusal changes nothing.
\<close>

theorem migrate_outcome:
  assumes "mem_inv (store s)" "ctl_ok (cfgNetwork cfg) (mem_look (store s))"
    "clientByID mem_ops (cID c) (store s) = Inr (Some c)" "decodeMigrate body = Inr req"
  shows "\<exists>gws cur. gateways mem_ops (store s) = Inr gws \<and> session mem_ops cr cfg c (store s) = Inr cur
    \<and> (let (rep, s') = migrate mem_ops cr cfg c body s in
       if \<not> path_ok gws (normBackend (cBackend c)) req then s' = s \<and> (\<exists>msg. rep = ErrText 400 msg)
       else if mqEpoch req \<noteq> sEpoch cur \<or> sEpoch cur = - 1 then s' = s \<and> rep = ErrSession 409 cur
       else rep = Reply 200 (moved req cur) \<and> session mem_ops cr cfg c (store s') = Inr (moved req cur)
         \<and> version s' = version s + 1
         \<and> (\<forall>d. cID d \<noteq> cID c \<longrightarrow> session mem_ops cr cfg d (store s') = session mem_ops cr cfg d (store s)))"
proof -
  let ?net = "cfgNetwork cfg"
  have ok: "mem.srv_ok ?net s" using assms by simp
  have row: "row Client_fields (mem_look (store s) (clientKeyPrefix @ cID c)) = Some c"
    by (rule clientByID_row [OF assms(1,3)])
  obtain gws where gws: "gateways mem_ops (store s) = Inr gws" "distinct (map gID gws)"
    "\<And>g. g \<in> set gws \<longleftrightarrow> row Gateway_fields (mem_look (store s) (gatewayKeyPrefix @ gID g)) = Some g"
    using mem.gateways_list [OF assms(1,2)] by blast
  have named: "gID g \<noteq> []" if "g \<in> set gws" for g
    using that gws(3) [of g] assms(2) by (auto simp: ctl_ok_def row_def)
  obtain own where own: "OS_Get mem_ops (cID c) (store s) = Inr (Some own)" "Validate own = None" "oSession own = cID c"
    using mem.session_defined [OF assms(1,2)] mem.client_row(2) [OF ok row] by blast
  obtain cur where cur: "session mem_ops cr cfg c (store s) = Inr cur" "sEpoch cur = oEpoch own"
    by (simp add: session_own [OF own(1)] Let_def)
  obtain ga oka ge oke where f: "FindGateway gws (mqAccess req) = (ga, oka)" "FindGateway gws (mqEgress req) = (ge, oke)"
    by (metis surj_pair)
  have path: "path_ok gws (normBackend (cBackend c)) req \<longleftrightarrow>
      oka \<and> canAccess ga (normBackend (cBackend c)) \<and> oke \<and> Has (gRoles ge) RoleEgress"
    unfolding path_ok_def by (simp add: find_by_id [OF gws(2)] f)
  define rec where "rec = \<lparr>oSession = cID c, oAccess = mqAccess req, oEgress = mqEgress req, oEpoch = sEpoch cur + 1\<rparr>"
  have sel: "oSession rec = cID c" "oEpoch rec = sEpoch cur + 1" by (simp_all add: rec_def)
  have mig: "migrate mem_ops cr cfg c body s =
     (if \<not> oka \<or> \<not> canAccess ga (normBackend (cBackend c)) then (ErrText 400 ''no access gateway'', s)
      else if \<not> oke \<or> \<not> Has (gRoles ge) RoleEgress then (ErrText 400 ''no egress gateway'', s)
      else if mqEpoch req \<noteq> sEpoch cur then (ErrSession 409 cur, s)
      else case SetIfNewer mem_ops rec (store s) of
          (Inl e, st) \<Rightarrow> (ErrReply 500 (CtlOwn e), s\<lparr>store := st\<rparr>)
        | (Inr False, st) \<Rightarrow> ((case session mem_ops cr cfg c st of
              Inr now \<Rightarrow> ErrSession 409 now | Inl _ \<Rightarrow> ErrText 409 ''the session moved concurrently''), s\<lparr>store := st\<rparr>)
        | (Inr True, st) \<Rightarrow> (Reply 200 (moved req cur), bumpLocked (s\<lparr>store := st\<rparr>)))"
    unfolding moved_def rec_def by (simp add: migrate_def assms(4) migrateLocked_def gws(1) cur(1) f)
  show ?thesis
  proof (cases "path_ok gws (normBackend (cBackend c)) req \<and> mqEpoch req = sEpoch cur")
    case False
    then show ?thesis using gws(1) cur(1) by (intro exI [of _ gws] exI [of _ cur]) (auto simp: mig path)
  next
    case True
    have valid: "Validate rec = None"
      using True own(2,3) named by (auto simp: path_ok_def Validate_def rec_def split: if_splits)
    have "sessions_ok (mem_look (store s))" using assms(2) by (simp add: ctl_ok_def)
    note nxt = set_next [OF assms(1) this, of rec, unfolded sel, OF own(1) valid, unfolded cur(2), OF refl, folded cur(2)]
    show ?thesis
    proof (cases "sEpoch cur = - 1")
      case wrap: True
      then show ?thesis using True nxt gws(1) cur(1)
        by (intro exI [of _ gws] exI [of _ cur]) (simp add: mig path)
    next
      case False
      then obtain st' where st': "SetIfNewer mem_ops rec (store s) = (Inr True, st')" "OS_Get mem_ops (cID c) st' = Inr (Some rec)"
        "\<And>sid. sid \<noteq> cID c \<Longrightarrow> OS_Get mem_ops sid st' = OS_Get mem_ops sid (store s)" using nxt by auto
      have "session mem_ops cr cfg c st' = Inr (moved req cur)"
        using cur(1) by (auto simp: session_own [OF st'(2)] session_own [OF own(1)] Let_def moved_def rec_def)
      moreover have "session mem_ops cr cfg d st' = session mem_ops cr cfg d (store s)" if "cID d \<noteq> cID c" for d
        using st'(3) [OF that] by (rule session_cong)
      ultimately show ?thesis using True False st'(1) gws(1) cur(1)
        by (intro exI [of _ gws] exI [of _ cur]) (simp add: mig path bumpLocked_def)
    qed
  qed
qed

text \<open>A state with one gateway and one session, for the witnesses.\<close>

definition demo_gw :: Gateway where
  "demo_gw = \<lparr>gID = ''g'', gRoles = 3, gEndpoint = ''1.2.3.4:5'', gPublicKey = [], gNodeIP = Addr4 0x0A000102,
     gBackbonePorts = [], gIPsec = False, gAlive = False\<rparr>"

definition demo_client :: clientRecord where
  "demo_client = \<lparr>cID = ''7'', cPublicKey = Base64 (replicate 32 0), cVirtualIP = Addr4 0x0A000002,
     cSecretHash = ''s'', cBackend = ''wireguard''\<rparr>"

definition demo_own :: raw where
  "demo_own = RawJson (JObj [(''session'', JStr ''7''), (''access'', JStr ''a''), (''egress'', JStr ''b''), (''epoch'', JInt 1)])"

definition demo_store :: MemStore where
  "demo_store = mem_write (clientKeyPrefix @ ''7'') (MarshalClient demo_client)
     (mem_write (SessionKey ''7'') demo_own (mem_write (gatewayKeyPrefix @ ''g'') (MarshalGateway demo_gw) NewMemStore))"

definition demo_server :: "MemStore Server" where
  "demo_server = \<lparr>store = demo_store, version = 1, changed = 0, links = [], lastSeen = [], alive = []\<rparr>"

lemma demo_inv: "mem_inv demo_store"
  by (simp add: demo_store_def mem_inv_write)

lemma demo_usable:
  "usable (NodeSubnet (cfgNetwork demo_cfg)) (Addr4 0x0A000102)" "usable (ClientSubnet (cfgNetwork demo_cfg)) (Addr4 0x0A000002)"
  by (simp_all add: usable_def demo_cfg_def Next4 Contains4 Prefix_IsValid_def BitLen_def host_bits_def)

lemma demo_own_read: "UnmarshalOwnership demo_own = Inr demo_rec"
  by (simp add: demo_own_def UnmarshalOwnership_def Ownership_fields_def demo_rec_def Validate_def field_def field_step_def
      key_match_def fold_char_def read_uint_def)

lemma demo_ok: "ctl_ok (cfgNetwork demo_cfg) (mem_look demo_store)"
proof -
  let ?net = "cfgNetwork demo_cfg" and ?k1 = "gatewayKeyPrefix @ ''g''"
  obtain bp where "Unmarshal Gateway_fields (MarshalGateway demo_gw) = Inr (demo_gw\<lparr>gBackbonePorts := bp\<rparr>)"
    using Unmarshal_MarshalGateway [of demo_gw] by (auto simp: demo_gw_def role_ok_def)
  then have 1: "ctl_ok ?net ((mem_look NewMemStore)(?k1 \<mapsto> (MarshalGateway demo_gw, 1)))"
    using demo_usable(1) by (intro ctl_put_gateway [OF ctl_ok_New]) (auto simp: demo_gw_def row_def)
  have 2: "ctl_ok ?net ((mem_look NewMemStore)(?k1 \<mapsto> (MarshalGateway demo_gw, 1), SessionKey ''7'' \<mapsto> (demo_own, 2)))"
    using demo_own_read by (intro ctl_put_session [OF 1, of _ "''7''"]) (auto simp: sessions_ok_def demo_rec_def)
  have "ctl_ok ?net ((mem_look NewMemStore)(?k1 \<mapsto> (MarshalGateway demo_gw, 1), SessionKey ''7'' \<mapsto> (demo_own, 2),
      clientKeyPrefix @ ''7'' \<mapsto> (MarshalClient demo_client, 3)))"
    using demo_usable(2)
    by (intro ctl_put_client [OF 2 Unmarshal_MarshalClient]) (auto simp: demo_client_def row_def)
  moreover have "mem_look demo_store = (mem_look NewMemStore)(?k1 \<mapsto> (MarshalGateway demo_gw, 1), SessionKey ''7'' \<mapsto> (demo_own, 2),
      clientKeyPrefix @ ''7'' \<mapsto> (MarshalClient demo_client, 3))"
    unfolding demo_store_def mem_look_write by (simp add: mem_write_def NewMemStore_def)
  ultimately show ?thesis by simp
qed

lemma demo_byID: "clientByID mem_ops (cID demo_client) demo_store = Inr (Some demo_client)"
proof -
  have "Unmarshal Client_fields (MarshalClient demo_client) = Inr demo_client"
    by (rule Unmarshal_MarshalClient) (simp add: demo_client_def)
  moreover have "mem_look demo_store (clientKeyPrefix @ ''7'') = Some (MarshalClient demo_client, 3)"
    by (simp add: demo_store_def mem_write_def NewMemStore_def mem_look_def)
  moreover have "cID demo_client = ''7''" by (simp add: demo_client_def)
  ultimately show ?thesis by (simp add: clientByID_def mem.Get [OF demo_inv])
qed

definition demo_migrate :: raw where
  "demo_migrate = RawJson (JObj [(''epoch'', JInt 1), (''access'', JStr ''g''), (''egress'', JStr ''g'')])"

lemma demo_decode: "decodeMigrate demo_migrate = Inr \<lparr>mqEpoch = 1, mqAccess = ''g'', mqEgress = ''g''\<rparr>"
  by (simp add: decodeMigrate_def demo_migrate_def strict_def known_keys_def Migrate_fields_def field_def field_step_def
      key_match_def fold_char_def read_uint_def)

theorem migrate_outcome_witness:
  "\<exists>gws cur. gateways mem_ops demo_store = Inr gws \<and> session mem_ops demo_crypto demo_cfg demo_client demo_store = Inr cur
    \<and> (let (rep, s') = migrate mem_ops demo_crypto demo_cfg demo_client demo_migrate demo_server;
           req = \<lparr>mqEpoch = 1, mqAccess = ''g'', mqEgress = ''g''\<rparr> in
       if \<not> path_ok gws (normBackend (cBackend demo_client)) req then s' = demo_server \<and> (\<exists>msg. rep = ErrText 400 msg)
       else if mqEpoch req \<noteq> sEpoch cur \<or> sEpoch cur = - 1 then s' = demo_server \<and> rep = ErrSession 409 cur
       else rep = Reply 200 (moved req cur) \<and> session mem_ops demo_crypto demo_cfg demo_client (store s') = Inr (moved req cur)
         \<and> version s' = version demo_server + 1)"
proof -
  have s: "store demo_server = demo_store" by (simp add: demo_server_def)
  show ?thesis
    using migrate_outcome [of demo_server demo_cfg demo_client demo_migrate _ demo_crypto, unfolded s,
        OF demo_inv demo_ok demo_byID demo_decode]
    unfolding Let_def case_prod_beta by metis
qed

section \<open>Reopening a session\<close>

lemma session_ids: "session ops cr cfg c st = Inr x \<Longrightarrow> sVirtualIP x = cVirtualIP c \<and> sID x = cID c"
  by (auto simp: session_def Let_def split: sum.splits option.splits if_splits)

lemma reopen_reply:
  "reopenSession ops cr cfg req c s = (Reply 200 r, s') \<Longrightarrow>
   cSecretHash c = sha256hex cr (csSecret req) \<and> sVirtualIP (crSession r) = cVirtualIP c \<and> sID (crSession r) = cID c"
  by (auto simp: reopenSession_def Let_def dest!: session_ids split: if_splits prod.splits option.splits sum.splits)

lemma open_reply:
  "openSession ops cr cfg rnd req cs s = (Reply 200 r, s') \<Longrightarrow>
   \<exists>vip. allocate (ClientSubnet (cfgNetwork cfg)) (map cVirtualIP cs) = Some vip \<and> sVirtualIP (crSession r) = vip"
  by (auto simp: openSession_def Let_def dest!: session_ids split: prod.splits option.splits sum.splits)

text \<open>
  (C22) Taking over a session needs its key and its secret: whenever a session request is answered with the
  virtual address of a session that exists, the request named that session's public key and a secret
  with the stored hash, and the answer is that session. Knowing a public key is not enough, and a new
  session never gets an address in use.
\<close>

theorem takeover_needs_secret:
  assumes "mem_inv (store s)" "ctl_ok (cfgNetwork cfg) (mem_look (store s))" "net_ok (cfgNetwork cfg)"
    "clientByID mem_ops (cID c) (store s) = Inr (Some c)"
    "createSession mem_ops cr cfg rnd auth body s = (Reply 200 r, s')" "sVirtualIP (crSession r) = cVirtualIP c"
  shows "\<exists>req. decodeCreate body = Inr req \<and> csPublicKey req = cPublicKey c \<and> sha256hex cr (csSecret req) = cSecretHash c
    \<and> sID (crSession r) = cID c"
proof -
  have ok: "mem.srv_ok (cfgNetwork cfg) s" using assms(1,2) by simp
  have row: "row Client_fields (mem_look (store s) (clientKeyPrefix @ cID c)) = Some c" by (rule clientByID_row [OF assms(1,4)])
  obtain cs where cs: "clients mem_ops (store s) = Inr cs"
    "\<And>d. d \<in> set cs \<longleftrightarrow> row Client_fields (mem_look (store s) (clientKeyPrefix @ cID d)) = Some d"
    using mem.clients_list [OF assms(1,2)] by blast
  obtain req where req: "decodeCreate body = Inr req"
    "(case find (\<lambda>c. cPublicKey c = csPublicKey req) cs of
        Some c \<Rightarrow> reopenSession mem_ops cr cfg req c s | None \<Rightarrow> openSession mem_ops cr cfg rnd req cs s) = (Reply 200 r, s')"
    using assms(5) by (auto simp: createSession_def cs(1) split: if_splits sum.splits)
  show ?thesis
  proof (cases "find (\<lambda>c. cPublicKey c = csPublicKey req) cs")
    case None
    then have "allocate (ClientSubnet (cfgNetwork cfg)) (map cVirtualIP cs) = Some (cVirtualIP c)"
      using open_reply [of mem_ops cr cfg rnd req cs s r s'] req(2) assms(6) by auto
    from allocate_fresh [OF _ this] have "cVirtualIP c \<notin> set (map cVirtualIP cs)" using assms(3) by (simp add: net_ok_def)
    moreover have "c \<in> set cs" using row cs(2) by blast
    ultimately show ?thesis by simp
  next
    case (Some d)
    then have d: "d \<in> set cs" "cPublicKey d = csPublicKey req" using find_Some_mem by fast+
    have rep: "cSecretHash d = sha256hex cr (csSecret req)" "cVirtualIP c = cVirtualIP d" "sID (crSession r) = cID d"
      using reopen_reply [of mem_ops cr cfg req d s r s'] req(2) Some assms(6) by auto
    have drow: "row Client_fields (mem_look (store s) (clientKeyPrefix @ cID d)) = Some d" using d(1) cs(2) by blast
    have "cID d = cID c" using mem.client_row(3) [OF ok row drow] rep(2) by simp
    then have "d = c" using row drow by simp
    then show ?thesis using d(2) rep req(1) by auto
  qed
qed

definition demo_create :: raw where
  "demo_create = RawJson (JObj [(''public_key'', JStr (Base64 (replicate 32 0))), (''secret'', JStr ''s'')])"

lemma demo_decodeCreate:
  "decodeCreate demo_create = Inr \<lparr>csPublicKey = Base64 (replicate 32 0), csEgress = [], csSecret = ''s'', csBackend = []\<rparr>"
  by (simp add: decodeCreate_def demo_create_def strict_def known_keys_def Create_fields_def field_def field_step_def
      key_match_def fold_char_def)

lemma demo_clients: "clients mem_ops demo_store = Inr [demo_client]"
proof -
  have "Unmarshal Client_fields (MarshalClient demo_client) = Inr demo_client"
    by (rule Unmarshal_MarshalClient) (simp add: demo_client_def)
  then show ?thesis
    by (simp add: clients_def mem_ops_def mem_List_def demo_store_def mem_write_def NewMemStore_def
        clientKeyPrefix_def gatewayKeyPrefix_def SessionKey_def sessionKeyPrefix_def)
qed

lemma demo_reply: "\<exists>r. createSession mem_ops demo_crypto demo_cfg rnd [] demo_create demo_server = (Reply 200 r, demo_server)
    \<and> sVirtualIP (crSession r) = cVirtualIP demo_client"
proof -
  have s: "store demo_server = demo_store" by (simp add: demo_server_def)
  have key: "parsePublicKey (Base64 (replicate 32 0))" by (simp add: parsePublicKey_def Base64_def)
  have "mem_look demo_store (SessionKey ''7'') = Some (demo_own, 2)"
    by (simp add: demo_store_def mem_write_def NewMemStore_def mem_look_def)
  then have "OS_Get mem_ops (cID demo_client) demo_store = Inr (Some demo_rec)"
    by (simp add: OS_Get_def mem.Get [OF demo_inv] demo_client_def demo_own_read)
  note own = session_own [OF this]
  show ?thesis
    by (simp add: createSession_def tokenOK_def demo_cfg_def demo_decodeCreate key ValidBackend_def s demo_clients
        normBackend_def BackendIPsec_def BackendWireGuard_def reopenSession_def demo_crypto_def own Let_def,
        simp add: demo_client_def)
qed

theorem takeover_needs_secret_witness:
  "\<exists>req. decodeCreate demo_create = Inr req \<and> csPublicKey req = cPublicKey demo_client
    \<and> sha256hex demo_crypto (csSecret req) = cSecretHash demo_client"
proof -
  have s: "store demo_server = demo_store" by (simp add: demo_server_def)
  have net: "net_ok (cfgNetwork demo_cfg)" by (simp add: net_ok_def demo_cfg_def Is4_def)
  obtain r where "createSession mem_ops demo_crypto demo_cfg \<lparr>idDraws = [], secretDraw = None\<rparr> [] demo_create demo_server = (Reply 200 r, demo_server)"
    "sVirtualIP (crSession r) = cVirtualIP demo_client" using demo_reply by blast
  from takeover_needs_secret [OF _ _ net _ this] show ?thesis using demo_inv demo_ok demo_byID by (auto simp: s)
qed

end
