(* ===== verification/LongPoll.thy ===== *)
theory LongPoll
  imports Controller
begin

text \<open>
  The long poll of \<^verbatim>\<open>internal/controller/server.go\<close> (\<^verbatim>\<open>waitVersion\<close>, \<^verbatim>\<open>bumpLocked\<close>) under interleaving: one waiter
  and a server that handles any requests in between.
\<close>

section \<open>Versions and channels move together\<close>

definition bumps :: "'s Server \<Rightarrow> 's Server \<Rightarrow> bool" where
  "bumps s s' \<longleftrightarrow> (\<exists>n. version s' = version s + of_nat n \<and> changed s' = changed s + n)"

lemma bumps_refl [simp, intro]: "bumps s s"
  unfolding bumps_def by (rule exI [of _ 0]) simp

lemma bumps_trans [trans]:
  assumes "bumps a b" "bumps b c"
  shows "bumps a c"
proof -
  obtain n m where "version b = version a + of_nat n" "changed b = changed a + n" "version c = version b + of_nat m" "changed c = changed b + m"
    using assms by (auto simp: bumps_def)
  then show ?thesis unfolding bumps_def by (intro exI [of _ "n + m"]) (simp add: add.assoc)
qed

lemma bumps_same: "version s' = version s \<Longrightarrow> changed s' = changed s \<Longrightarrow> bumps s s'"
  unfolding bumps_def by (rule exI [of _ 0]) simp

lemma bumps_updates [simp]: "bumps s (s\<lparr>store := st\<rparr>)" "bumps s (s\<lparr>links := l\<rparr>)"
  by (rule bumps_same, simp_all)+

lemma bumps_bump: "version s' = version s \<Longrightarrow> changed s' = changed s \<Longrightarrow> bumps s (bumpLocked s')"
  unfolding bumps_def by (rule exI [of _ 1]) (simp add: bumpLocked_def)

lemma bumps_bump_store [simp]: "bumps s (bumpLocked (s\<lparr>store := st\<rparr>))"
  by (rule bumps_bump) simp_all

lemma bumps_seen: "bumps s s' \<Longrightarrow> bumps s (seenLocked now i s')"
proof -
  have "bumps s' (seenLocked now i s')" by (auto simp: seenLocked_def Let_def intro: bumps_bump bumps_same)
  then show "bumps s s' \<Longrightarrow> bumps s (seenLocked now i s')" using bumps_trans by blast
qed

lemma bumps_sweep: "bumps s (sweep cfg now s)"
proof -
  have one: "bumps s (sweep_one cfg now k s)" for k and s :: "'a Server" by (auto simp: sweep_one_def Let_def intro: bumps_bump)
  have "bumps s (fold (sweep_one cfg now) ks s)" for ks
    by (induction ks arbitrary: s) (auto intro: bumps_trans [OF one])
  then show ?thesis by (simp add: sweep_def)
qed

lemma bumps_register: "bumps s (snd (registerGateway ops cfg now i body s))"
  by (auto simp: registerGateway_def registerLocked_def Let_def split: sum.splits option.splits prod.splits
      intro!: bumps_seen)

lemma bumps_report: "bumps s (snd (reportLinks ops now i body s))"
  by (auto simp: reportLinks_def split: sum.splits option.splits intro!: bumps_seen)

lemma bumps_switch: "bumps s (snd (switchBackendLocked ops cr cfg c backend s))"
  by (auto simp: switchBackendLocked_def Let_def split: sum.splits option.splits prod.splits if_splits intro!: bumps_seen)

lemma bumps_reopen: "bumps s (snd (reopenSession ops cr cfg req c s))"
  using bumps_switch [of s ops cr cfg c "normBackend (csBackend req)"]
  by (auto simp: reopenSession_def Let_def split: sum.splits option.splits prod.splits if_splits)

lemma bumps_open: "bumps s (snd (openSession ops cr cfg rnd req cs s))"
  by (auto simp: openSession_def Let_def split: sum.splits option.splits prod.splits intro!: bumps_seen)

lemma bumps_create: "bumps s (snd (createSession ops cr cfg rnd auth body s))"
  by (auto simp: createSession_def split: sum.splits option.splits intro: bumps_reopen bumps_open)

lemma bumps_migrate: "bumps s (snd (migrate ops cr cfg c body s))"
  by (auto simp: migrate_def migrateLocked_def Let_def split: sum.splits prod.splits bool.splits intro!: bumps_seen)

lemma bumps_serve: "bumps s (serve ops cr cfg rq s)"
  by (auto simp: serve_def gatewayAuth_def split: request.splits
      intro: bumps_register bumps_report bumps_create bumps_migrate bumps_sweep)

section \<open>No lost wake-up\<close>

inductive poll_step :: "'s kvops \<Rightarrow> crypto \<Rightarrow> Config \<Rightarrow> u64 \<Rightarrow> 's Server \<times> waiter \<Rightarrow> 's Server \<times> waiter \<Rightarrow> bool"
  for ops cr cfg after where
  Serve: "poll_step ops cr cfg after (s, w) (serve ops cr cfg rq s, w)"
| Wait: "wait_step after s w w' \<Longrightarrow> poll_step ops cr cfg after (s, w) (s, w')"

definition poll_inv :: "u64 \<Rightarrow> 's Server \<times> waiter \<Rightarrow> bool" where
  "poll_inv after cfg = (case cfg of (s, w) \<Rightarrow>
     (case w of WBlocked ch \<Rightarrow> ch < changed s \<or> ch = changed s \<and> \<not> version s > after | _ \<Rightarrow> True))"

lemma poll_inv_step: "poll_step ops cr cfg after x y \<Longrightarrow> poll_inv after x \<Longrightarrow> poll_inv after y"
proof (induction rule: poll_step.induct)
  case (Serve s w rq)
  obtain n where n: "version (serve ops cr cfg rq s) = version s + of_nat n" "changed (serve ops cr cfg rq s) = changed s + n"
    using bumps_serve [of s ops cr cfg rq] by (auto simp: bumps_def)
  show ?case using Serve n by (cases w; cases n) (auto simp: poll_inv_def)
next
  case (Wait s w w')
  then show ?case by cases (auto simp: poll_inv_def)
qed

lemma poll_inv_reach: "(poll_step ops cr cfg after)\<^sup>*\<^sup>* x y \<Longrightarrow> poll_inv after x \<Longrightarrow> poll_inv after y"
  by (induction rule: rtranclp_induct) (auto intro: poll_inv_step)

text \<open>
  (C23) No lost wake-up: however a long poll interleaves with the handlers, if it is blocked while the state
  version is already above the one it waits for, then the channel it is blocked on has been closed, so it
  can wake at once, and its next look returns. A change is never slept through.
\<close>

theorem no_lost_wakeup:
  assumes "(poll_step ops cr cfg after)\<^sup>*\<^sup>* (s0, WLook) (s, WBlocked ch)" "version s > after"
  shows "wait_step after s (WBlocked ch) WLook \<and> wait_step after s WLook WReturned"
proof -
  have "poll_inv after (s, WBlocked ch)" by (rule poll_inv_reach [OF assms(1)]) (simp add: poll_inv_def)
  then have "ch < changed s" using assms(2) by (auto simp: poll_inv_def)
  then show ?thesis using assms(2) by (auto intro: wait_step.intros)
qed

definition demo_idle :: "nat \<Rightarrow> u64 \<Rightarrow> MemStore Server" where
  "demo_idle ch v = \<lparr>store = NewMemStore, version = v, changed = ch, links = [], lastSeen = [(''g'', 0)], alive = [(''g'', ch = 0)]\<rparr>"

theorem no_lost_wakeup_witness:
  "wait_step 1 (demo_idle 1 2) (WBlocked 0) WLook \<and> wait_step 1 (demo_idle 1 2) WLook WReturned"
proof -
  let ?cr = "\<lparr>sha256hex = \<lambda>s. s, hmacHex = \<lambda>k s. s\<rparr>"
  let ?cfg = "\<lparr>GatewayToken = [], ClientToken = [], cfgNetwork = \<lparr>ClientSubnet = \<lparr>pfxAddr = NoAddr, pfxBits = 0\<rparr>,
      NodeSubnet = \<lparr>pfxAddr = NoAddr, pfxBits = 0\<rparr>, ProbePort = 1\<rparr>, cfgPolicy = None, AliveAfter = 5, IPsecKey = []\<rparr>"
  have "poll_step mem_ops ?cr ?cfg 1 (demo_idle 0 1, WLook) (demo_idle 0 1, WBlocked 0)"
    using poll_step.Wait [OF wait_step.Block [of 1 "demo_idle 0 1"], of mem_ops ?cr ?cfg] by (simp add: demo_idle_def)
  moreover have "serve mem_ops ?cr ?cfg (SweepTick 9) (demo_idle 0 1) = demo_idle 1 2"
    by (simp add: serve_def sweep_def sweep_one_def demo_idle_def isAlive_def bumpLocked_def)
  then have "poll_step mem_ops ?cr ?cfg 1 (demo_idle 0 1, WBlocked 0) (demo_idle 1 2, WBlocked 0)"
    using poll_step.Serve [of mem_ops ?cr ?cfg 1 "demo_idle 0 1" "WBlocked 0" "SweepTick 9"] by simp
  ultimately have "(poll_step mem_ops ?cr ?cfg 1)\<^sup>*\<^sup>* (demo_idle 0 1, WLook) (demo_idle 1 2, WBlocked 0)" by simp
  from no_lost_wakeup [OF this] show ?thesis by (simp add: demo_idle_def)
qed

end
