(* ===== verification/GatewayPlan.thy ===== *)
theory GatewayPlan
  imports Api
begin

text \<open>
  \<^verbatim>\<open>internal/gateway/plan.go\<close>: what a gateway should have configured for a state of the controller.
\<close>

section \<open>Model\<close>

record Backbone =
  bbPublicKey :: string
  bbEndpoint :: string
  bbNodeIP :: Addr

record IPsecClient =
  icVirtualIP :: Addr
  icPSK :: string

record SessionPath =
  spVirtualIP :: Addr
  spAccess :: string
  spEgress :: string
  spEpoch :: u64

record Plan =
  Peers :: "(string, Addr) gomap"
  Backbones :: "(string, Backbone) gomap"
  Forward_to :: "(Addr, string) gomap"
  Return_via :: "(Addr, string) gomap"
  Epochs :: "(string, u64) gomap"
  AccessSessions :: int
  EgressSessions :: int
  Sessions :: "(string, SessionPath) gomap"
  IPsecConns :: "(string, IPsecClient) gomap"
  IPsecHere :: "(Addr, bool) gomap"

definition emptyPlan :: Plan where
  "emptyPlan = \<lparr>Peers = [], Backbones = [], Forward_to = [], Return_via = [], Epochs = [], AccessSessions = 0,
     EgressSessions = 0, Sessions = [], IPsecConns = [], IPsecHere = []\<rparr>"

definition plan_gateway :: "string \<Rightarrow> Plan \<Rightarrow> Gateway \<Rightarrow> Plan" where
  "plan_gateway me p g =
     (if gID g = me then p
      else let ep = (case mget (gBackbonePorts g) me of None \<Rightarrow> []
                 | Some port \<Rightarrow> (case Gateway_Host g of None \<Rightarrow> [] | Some host \<Rightarrow> AddrPort_String host port))
           in p\<lparr>Backbones := mput (gID g) \<lparr>bbPublicKey = gPublicKey g, bbEndpoint = ep, bbNodeIP = gNodeIP g\<rparr> (Backbones p)\<rparr>)"

definition plan_session :: "string \<Rightarrow> GatewayRole \<Rightarrow> string list \<Rightarrow> Plan \<Rightarrow> Session \<Rightarrow> Plan" where
  "plan_session me roles ids p s =
     (let isAccess = Has roles RoleAccess; isEgress = Has roles RoleEgress;
          p = p\<lparr>Epochs := mput (sID s) (sEpoch s) (Epochs p),
                Sessions := mput (sID s) \<lparr>spVirtualIP = sVirtualIP s, spAccess = sAccess s, spEgress = sEgress s, spEpoch = sEpoch s\<rparr> (Sessions p)\<rparr>;
          p = (if isAccess \<and> sAccess s = me then p\<lparr>AccessSessions := AccessSessions p + 1\<rparr> else p);
          p = (if isEgress \<and> sEgress s = me then p\<lparr>EgressSessions := EgressSessions p + 1\<rparr> else p);
          p = (if isAccess then
                 let p = (if sBackend s = BackendIPsec then
                            let p = p\<lparr>IPsecConns := mput (sID s) \<lparr>icVirtualIP = sVirtualIP s, icPSK = sIPsecPSK s\<rparr> (IPsecConns p)\<rparr>
                            in if sAccess s = me then p\<lparr>IPsecHere := mput (sVirtualIP s) True (IPsecHere p)\<rparr> else p
                          else p\<lparr>Peers := mput (sPublicKey s) (sVirtualIP s) (Peers p)\<rparr>)
                 in if sEgress s \<noteq> me \<and> sEgress s \<in> set ids
                    then p\<lparr>Forward_to := mput (sVirtualIP s) (sEgress s) (Forward_to p)\<rparr> else p
               else p)
      in if isEgress \<and> sEgress s = me \<and> sAccess s \<noteq> me \<and> sAccess s \<in> set ids
         then p\<lparr>Return_via := mput (sVirtualIP s) (sAccess s) (Return_via p)\<rparr> else p)"

definition MakePlan :: "string \<Rightarrow> GatewayRole \<Rightarrow> GatewayState \<Rightarrow> Plan" where
  "MakePlan me roles st =
     foldl (plan_session me roles (map gID (gsGateways st))) (foldl (plan_gateway me) emptyPlan (gsGateways st)) (gsSessions st)"

definition BackboneIDs :: "Plan \<Rightarrow> string list" where
  "BackboneIDs p = sort (mkeys (Backbones p))"

section \<open>Reading a plan\<close>

text \<open>Each routing table of a plan is the sessions folded with its own rule.\<close>

definition forwards :: "string \<Rightarrow> GatewayRole \<Rightarrow> string list \<Rightarrow> Session \<Rightarrow> bool" where
  "forwards me roles ids s \<longleftrightarrow> Has roles RoleAccess \<and> sEgress s \<noteq> me \<and> sEgress s \<in> set ids"

definition returns :: "string \<Rightarrow> GatewayRole \<Rightarrow> string list \<Rightarrow> Session \<Rightarrow> bool" where
  "returns me roles ids s \<longleftrightarrow> Has roles RoleEgress \<and> sEgress s = me \<and> sAccess s \<noteq> me \<and> sAccess s \<in> set ids"

lemma plan_gateway_sel [simp]:
  "Forward_to (plan_gateway me p g) = Forward_to p" "Return_via (plan_gateway me p g) = Return_via p"
  "Epochs (plan_gateway me p g) = Epochs p"
  by (simp_all add: plan_gateway_def Let_def)

lemma plan_session_sel:
  "Forward_to (plan_session me roles ids p s) =
     (if forwards me roles ids s then mput (sVirtualIP s) (sEgress s) (Forward_to p) else Forward_to p)"
  "Return_via (plan_session me roles ids p s) =
     (if returns me roles ids s then mput (sVirtualIP s) (sAccess s) (Return_via p) else Return_via p)"
  "Epochs (plan_session me roles ids p s) = mput (sID s) (sEpoch s) (Epochs p)"
  by (simp_all add: plan_session_def Let_def forwards_def returns_def)

lemma foldl_gateways_sel:
  "Forward_to (foldl (plan_gateway me) p gs) = Forward_to p" "Return_via (foldl (plan_gateway me) p gs) = Return_via p"
  "Epochs (foldl (plan_gateway me) p gs) = Epochs p"
  by (induction gs arbitrary: p) simp_all

text \<open>A fold that puts some rows of a list into a map, read at the key of a row of the list.\<close>

lemma foldl_mput_mget:
  assumes "\<And>p s. m (f p s) = (if P s then mput (key s) (val s) (m p) else m p)"
    and "distinct (map key ss)" "s \<in> set ss"
  shows "mget (m (foldl f p ss)) (key s) = (if P s then Some (val s) else mget (m p) (key s))"
  using assms(2,3)
proof (induction ss arbitrary: p)
  case (Cons t ss)
  show ?case
  proof (cases "s \<in> set ss")
    case True
    then have "key t \<noteq> key s" using Cons.prems(1) by auto
    with Cons True show ?thesis by (simp add: assms(1))
  next
    case False
    then have s: "s = t" using Cons.prems(2) by simp
    have keep: "mget (m (foldl f q us)) k = mget (m q) k" if "k \<notin> key ` set us" for q us k
      using that by (induction us arbitrary: q) (auto simp: assms(1))
    have "key t \<notin> key ` set ss" using Cons.prems(1) by simp
    then show ?thesis by (simp add: s keep assms(1))
  qed
qed simp

lemma MakePlan_lookup:
  assumes "distinct (map sVirtualIP (gsSessions st))" "s \<in> set (gsSessions st)"
  shows "mget (Forward_to (MakePlan me roles st)) (sVirtualIP s) =
      (if forwards me roles (map gID (gsGateways st)) s then Some (sEgress s) else None)"
    and "mget (Return_via (MakePlan me roles st)) (sVirtualIP s) =
      (if returns me roles (map gID (gsGateways st)) s then Some (sAccess s) else None)"
  unfolding MakePlan_def
  using foldl_mput_mget [of Forward_to "plan_session me roles (map gID (gsGateways st))" _ sVirtualIP sEgress, OF plan_session_sel(1) assms]
    foldl_mput_mget [of Return_via "plan_session me roles (map gID (gsGateways st))" _ sVirtualIP sAccess, OF plan_session_sel(2) assms]
  by (simp_all add: foldl_gateways_sel emptyPlan_def)

lemma MakePlan_epoch:
  assumes "distinct (map sID (gsSessions st))" "s \<in> set (gsSessions st)"
  shows "mget (Epochs (MakePlan me roles st)) (sID s) = Some (sEpoch s)"
  unfolding MakePlan_def
  using foldl_mput_mget [of Epochs "plan_session me roles (map gID (gsGateways st))" "\<lambda>_. True" sID sEpoch, OF _ assms]
  by (simp add: plan_session_sel)

text \<open>
  The gateways agree on a session's path: with both ends known, every access gateway other than the
  egress forwards the session to its egress, the egress returns it to its access, and nobody else
  installs a return route for it.
\<close>

lemma plan_path:
  assumes "distinct (map sVirtualIP (gsSessions st))" "s \<in> set (gsSessions st)"
    "sAccess s \<in> set (map gID (gsGateways st))" "sEgress s \<in> set (map gID (gsGateways st))"
  shows "Has r RoleAccess \<Longrightarrow> mget (Forward_to (MakePlan g r st)) (sVirtualIP s) = (if g = sEgress s then None else Some (sEgress s))"
    and "Has r RoleEgress \<Longrightarrow> g = sEgress s \<Longrightarrow> g \<noteq> sAccess s \<Longrightarrow> mget (Return_via (MakePlan g r st)) (sVirtualIP s) = Some (sAccess s)"
    and "g \<noteq> sEgress s \<Longrightarrow> mget (Return_via (MakePlan g r st)) (sVirtualIP s) = None"
  using assms(3,4) by (auto simp: MakePlan_lookup [OF assms(1,2)] forwards_def returns_def)

end
