(* ===== verification/IPsecConfig.thy ===== *)
theory IPsecConfig
  imports Netip "HOL-Library.Multiset"
begin

text \<open>
  \<^verbatim>\<open>internal/ipsec/config.go\<close>, the secrets of \<^verbatim>\<open>ike.go\<close>, \<^verbatim>\<open>sa.go\<close> and \<^verbatim>\<open>loss.go\<close>: checking and rendering
  IKE connections, the names of child associations, and what charon and the kernel report about them.
  Addresses of the model carry no zone, so the checks against zones have nothing to refuse. An error
  is the check that failed, without its message.
\<close>

section \<open>Model\<close>

definition AuthPSK :: string where "AuthPSK = ''psk''"
definition AuthPubkey :: string where "AuthPubkey = ''pubkey''"
definition StartNone :: string where "StartNone = ''none''"
definition StartStart :: string where "StartStart = ''start''"
definition AnyID :: string where "AnyID = ''%any''"
definition DefaultIKEProposals :: "string list" where "DefaultIKEProposals = [''aes256gcm16-prfsha256-x25519'']"
definition DefaultESPProposals :: "string list" where "DefaultESPProposals = [''aes256gcm16-x25519'']"

record Connection =
  cName :: string
  cEpoch :: u64
  cLocalAddr :: Addr
  cRemoteAddr :: Addr
  cLocalID :: string
  cRemoteID :: string
  cAuth :: string
  cPSK :: string
  cLocalPubkey :: string
  cRemotePubkey :: string
  cLocalTS :: "Prefix list"
  cRemoteTS :: "Prefix list"
  cIfID :: u32
  cIKEProposals :: "string list"
  cESPProposals :: "string list"
  cDPDDelay :: duration
  cStart :: string

text \<open>The four regular expressions: a first character, then at most \<open>n\<close> of a second class.\<close>

definition is_upper :: "char \<Rightarrow> bool" where
  "is_upper c \<longleftrightarrow> 65 \<le> (of_char c :: nat) \<and> (of_char c :: nat) \<le> 90"

definition is_lower :: "char \<Rightarrow> bool" where
  "is_lower c \<longleftrightarrow> 97 \<le> (of_char c :: nat) \<and> (of_char c :: nat) \<le> 122"

definition is_alnum :: "char \<Rightarrow> bool" where
  "is_alnum c \<longleftrightarrow> is_upper c \<or> is_lower c \<or> is_digit c"

definition re_match :: "(char \<Rightarrow> bool) \<Rightarrow> (char \<Rightarrow> bool) \<Rightarrow> nat \<Rightarrow> string \<Rightarrow> bool" where
  "re_match f r n s = (case s of [] \<Rightarrow> False | c # cs \<Rightarrow> f c \<and> length cs \<le> n \<and> list_all r cs)"

definition nameRE :: "string \<Rightarrow> bool" where
  "nameRE = re_match is_alnum (\<lambda>c. is_alnum c \<or> c \<in> set ''_-'') 47"

definition idRE :: "string \<Rightarrow> bool" where
  "idRE = re_match is_alnum (\<lambda>c. is_alnum c \<or> c \<in> set ''._@:-'') 127"

definition fileRE :: "string \<Rightarrow> bool" where
  "fileRE = re_match is_alnum (\<lambda>c. is_alnum c \<or> c \<in> set ''._-'') 127"

definition proposalRE :: "string \<Rightarrow> bool" where
  "proposalRE = re_match (\<lambda>c. is_lower c \<or> is_digit c) (\<lambda>c. is_lower c \<or> is_digit c \<or> c \<in> set ''_-'') 127"

definition minPSKLen :: nat where "minPSKLen = 16"

definition psk_char :: "char \<Rightarrow> bool" where
  "psk_char c \<longleftrightarrow> 0x21 \<le> (of_char c :: nat) \<and> (of_char c :: nat) \<le> 0x7e \<and> (of_char c :: nat) \<noteq> 34 \<and> (of_char c :: nat) \<noteq> 92"

datatype confErr = BadName | StartNeedsAddr | Families | BadLocalID | BadRemoteID | PSKShort | PSKChars | BadPubkey
  | UnknownAuth | NoTS | BadTS | ZeroIfID | BadProposal | NegativeDPD | UnknownStart | DupName | SharedIfID
  | BadSecretID | NoOwners | BadOwner

definition validatePSK :: "string \<Rightarrow> confErr option" where
  "validatePSK psk =
     (if length psk < minPSKLen then Some PSKShort
      else if list_ex (\<lambda>c. \<not> psk_char c) psk then Some PSKChars
      else None)"

definition Validate :: "Connection \<Rightarrow> confErr option" where
  "Validate c =
     (if \<not> nameRE (cName c) then Some BadName
      else if cRemoteAddr c = NoAddr \<and> cStart c = StartStart then Some StartNeedsAddr
      else if cLocalAddr c \<noteq> NoAddr \<and> cRemoteAddr c \<noteq> NoAddr \<and> Is4 (cLocalAddr c) \<noteq> Is4 (cRemoteAddr c) then Some Families
      else if \<not> idRE (cLocalID c) then Some BadLocalID
      else if cRemoteID c \<noteq> AnyID \<and> \<not> idRE (cRemoteID c) then Some BadRemoteID
      else case (if cAuth c = AuthPSK then validatePSK (cPSK c)
                 else if cAuth c = AuthPubkey then
                   (if \<not> fileRE (cLocalPubkey c) \<or> \<not> fileRE (cRemotePubkey c) then Some BadPubkey else None)
                 else Some UnknownAuth) of
        Some e \<Rightarrow> Some e
      | None \<Rightarrow>
          if cLocalTS c = [] \<or> cRemoteTS c = [] then Some NoTS
          else if list_ex (\<lambda>p. \<not> Prefix_IsValid p) (cLocalTS c @ cRemoteTS c) then Some BadTS
          else if cIfID c = 0 then Some ZeroIfID
          else if list_ex (\<lambda>p. \<not> proposalRE p) (cIKEProposals c @ cESPProposals c) then Some BadProposal
          else if cDPDDelay c < 0 then Some NegativeDPD
          else if cStart c \<noteq> [] \<and> cStart c \<noteq> StartNone \<and> cStart c \<noteq> StartStart then Some UnknownStart
          else None)"

definition ChildName :: "string \<Rightarrow> u64 \<Rightarrow> string" where
  "ChildName conn ep = conn @ ''-e'' @ FormatUint ep"

text \<open>\<^verbatim>\<open>strings.LastIndex\<close>\<close>

definition LastIndex :: "string \<Rightarrow> string \<Rightarrow> nat option" where
  "LastIndex s sep = find (\<lambda>i. take (length sep) (drop i s) = sep) (rev [0..<length s])"

definition ParseChildName :: "string \<Rightarrow> (string \<times> u64) option" where
  "ParseChildName child =
     (case LastIndex child ''-e'' of
        None \<Rightarrow> None
      | Some i \<Rightarrow>
          if i \<le> 0 \<or> i + 2 \<ge> length child then None
          else let digits = drop (i + 2) child in
          if digits ! 0 = CHR ''+'' \<or> digits ! 0 = CHR ''-'' \<or> (length digits > 1 \<and> digits ! 0 = CHR ''0'') then None
          else case ParseUint digits of
            None \<Rightarrow> None
          | Some e \<Rightarrow> Some (take i child, e))"

text \<open>The loops of \<^verbatim>\<open>Render\<close> over the sorted connections: each valid and named unlike the one before,
  then no interface identifier twice.\<close>

fun check_sorted :: "string option \<Rightarrow> Connection list \<Rightarrow> confErr option" where
  "check_sorted prev [] = None"
| "check_sorted prev (c # cs) =
     (case Validate c of
        Some e \<Rightarrow> Some e
      | None \<Rightarrow> if prev = Some (cName c) then Some DupName else check_sorted (Some (cName c)) cs)"

fun check_ifids :: "(u32, string) gomap \<Rightarrow> Connection list \<Rightarrow> confErr option" where
  "check_ifids ids [] = None"
| "check_ifids ids (c # cs) =
     (if mget ids (cIfID c) \<noteq> None then Some SharedIfID else check_ifids (mput (cIfID c) (cName c) ids) cs)"

definition ceilSeconds :: "duration \<Rightarrow> int" where
  "ceilSeconds d = (let s = godiv d Second in if d - s * Second \<noteq> 0 then s + 1 else s)"

definition joinPrefixes :: "Prefix list \<Rightarrow> string" where
  "joinPrefixes ps = join_with (CHR '','') (map (\<lambda>p. Prefix_String (Masked p)) ps)"

definition nl :: string where "nl = [char_of (10::nat)]"

definition only_if :: "bool \<Rightarrow> string \<Rightarrow> string" where
  "only_if b s = (if b then s else [])"

definition renderConnection :: "Connection \<Rightarrow> string" where
  "renderConnection c =
     (let ike = (if cIKEProposals c = [] then DefaultIKEProposals else cIKEProposals c);
          esp = (if cESPProposals c = [] then DefaultESPProposals else cESPProposals c);
          start = (if cStart c = [] then StartNone else cStart c)
      in ''  '' @ cName c @ '' {'' @ nl @
         ''    version = 2'' @ nl @
         only_if (cLocalAddr c \<noteq> NoAddr) (''    local_addrs = '' @ Addr_String (cLocalAddr c) @ nl) @
         (if cRemoteAddr c \<noteq> NoAddr then ''    remote_addrs = '' @ Addr_String (cRemoteAddr c) @ nl
          else ''    remote_addrs = %any'' @ nl) @
         ''    proposals = '' @ join_with (CHR '','') ike @ nl @
         only_if (cDPDDelay c > 0) (''    dpd_delay = '' @ dec (nat (ceilSeconds (cDPDDelay c))) @ ''s'' @ nl) @
         ''    local {'' @ nl @
         ''      auth = '' @ cAuth c @ nl @
         ''      id = '' @ cLocalID c @ nl @
         only_if (cAuth c = AuthPubkey) (''      pubkeys = '' @ cLocalPubkey c @ nl) @
         ''    }'' @ nl @
         ''    remote {'' @ nl @
         ''      auth = '' @ cAuth c @ nl @
         ''      id = '' @ cRemoteID c @ nl @
         only_if (cAuth c = AuthPubkey) (''      pubkeys = '' @ cRemotePubkey c @ nl) @
         ''    }'' @ nl @
         ''    children {'' @ nl @
         ''      '' @ ChildName (cName c) (cEpoch c) @ '' {'' @ nl @
         ''        local_ts = '' @ joinPrefixes (cLocalTS c) @ nl @
         ''        remote_ts = '' @ joinPrefixes (cRemoteTS c) @ nl @
         ''        esp_proposals = '' @ join_with (CHR '','') esp @ nl @
         ''        mode = tunnel'' @ nl @
         ''        if_id_in = '' @ dec (unat (cIfID c)) @ nl @
         ''        if_id_out = '' @ dec (unat (cIfID c)) @ nl @
         ''        start_action = '' @ start @ nl @
         only_if (cDPDDelay c > 0) (''        dpd_action = clear'' @ nl) @
         ''      }'' @ nl @
         ''    }'' @ nl @
         ''  }'' @ nl)"

text \<open>\<^verbatim>\<open>hex.EncodeToString\<close> of a text.\<close>

definition hex2 :: "nat \<Rightarrow> string" where
  "hex2 n = hex (n div 16) @ hex (n mod 16)"

definition renderSecret :: "Connection \<Rightarrow> string" where
  "renderSecret c =
     ''  ike-'' @ cName c @ '' {'' @ nl @
     ''    id-1 = '' @ cLocalID c @ nl @
     ''    id-2 = '' @ cRemoteID c @ nl @
     ''    secret = 0x'' @ concat (map (\<lambda>ch. hex2 (of_char ch)) (cPSK c)) @ nl @
     ''  }'' @ nl"

definition Render :: "Connection list \<Rightarrow> confErr + string" where
  "Render conns =
     (let sorted = sort_key cName conns in
      case check_sorted None sorted of
        Some e \<Rightarrow> Inl e
      | None \<Rightarrow>
          (case check_ifids [] sorted of
             Some e \<Rightarrow> Inl e
           | None \<Rightarrow>
               (let psk = filter (\<lambda>c. cAuth c = AuthPSK) sorted in
                Inr (''# Generated by egressa (internal/ipsec). Do not edit by hand.'' @ nl @
                     ''connections {'' @ nl @ concat (map renderConnection sorted) @ ''}'' @ nl @
                     only_if (psk \<noteq> []) (''secrets {'' @ nl @ concat (map renderSecret psk) @ ''}'' @ nl)))))"

text \<open>\<^verbatim>\<open>ike.go\<close>\<close>

record SharedSecret =
  ssID :: string
  ssPSK :: string
  ssOwners :: "string list"

definition SharedSecret_Validate :: "SharedSecret \<Rightarrow> confErr option" where
  "SharedSecret_Validate s =
     (if \<not> idRE (ssID s) then Some BadSecretID
      else case validatePSK (ssPSK s) of
        Some e \<Rightarrow> Some e
      | None \<Rightarrow>
          if ssOwners s = [] then Some NoOwners
          else if list_ex (\<lambda>ow. ow \<noteq> AnyID \<and> \<not> idRE ow) (ssOwners s) then Some BadOwner
          else None)"

text \<open>\<^verbatim>\<open>sa.go\<close>: the fields the code reads.\<close>

record ChildSA =
  chName :: string
  chUniqueID :: u64
  chState :: string
  chSPIIn :: string
  chIfIDIn :: u32

record IKESA =
  ikName :: string
  ikUniqueID :: u64
  ikState :: string
  ikRemoteID :: string
  ikChildren :: "ChildSA list"

definition IKEStateEstablished :: string where "IKEStateEstablished = ''ESTABLISHED''"
definition ChildStateInstalled :: string where "ChildStateInstalled = ''INSTALLED''"

definition Warm :: "IKESA \<Rightarrow> bool" where
  "Warm s = (if ikState s \<noteq> IKEStateEstablished then False
     else list_ex (\<lambda>c. chState c = ChildStateInstalled) (ikChildren s))"

definition FindIKE :: "IKESA list \<Rightarrow> string \<Rightarrow> IKESA option" where
  "FindIKE sas name =
     foldl (\<lambda>best s. if ikName s = name \<and> (case best of None \<Rightarrow> True | Some b \<Rightarrow> ikUniqueID s > ikUniqueID b) then Some s else best)
       None sas"

text \<open>\<^verbatim>\<open>loss.go\<close>, with the answers of charon and of the kernel as arguments.\<close>

record XfrmState =
  xsSPI :: u32
  xsIfID :: u32
  xsPackets :: u64
  xsReplaySeq :: u32
  xsHasReplay :: bool

record Loss =
  lSPI :: u32
  lHighestSeq :: u32
  lReceived :: u64
  lLost :: u64

datatype lossErr = LossNoChild | LossBadSPI | LossUnavailable | LossNoState

definition computeLoss :: "XfrmState \<Rightarrow> Loss" where
  "computeLoss st = \<lparr>lSPI = xsSPI st, lHighestSeq = xsReplaySeq st, lReceived = xsPackets st,
     lLost = (if ucast (xsReplaySeq st) > xsPackets st then ucast (xsReplaySeq st) - xsPackets st else 0)\<rparr>"

definition newest_child :: "IKESA list \<Rightarrow> string \<Rightarrow> ChildSA option" where
  "newest_child sas conn =
     foldl (\<lambda>child c. if chState c = ChildStateInstalled \<and> (case child of None \<Rightarrow> True | Some b \<Rightarrow> chUniqueID c > chUniqueID b) then Some c else child)
       None (concat (map ikChildren (filter (\<lambda>s. ikName s = conn) sas)))"

text \<open>\<^verbatim>\<open>strconv.ParseUint(s, 16, 32)\<close>\<close>

definition ParseHex32 :: "string \<Rightarrow> u32 option" where
  "ParseHex32 s =
     (let v = foldl (\<lambda>a c. a * 16 + the (hex_val c)) 0 s in
      if s \<noteq> [] \<and> list_all (\<lambda>c. hex_val c \<noteq> None) s \<and> v < 2 ^ 32 then Some (of_nat v) else None)"

definition lossFor :: "IKESA list \<Rightarrow> XfrmState list \<Rightarrow> string \<Rightarrow> lossErr + Loss" where
  "lossFor sas states conn =
     (case newest_child sas conn of
        None \<Rightarrow> Inl LossNoChild
      | Some child \<Rightarrow>
          (case ParseHex32 (chSPIIn child) of
             None \<Rightarrow> Inl LossBadSPI
           | Some spi \<Rightarrow>
               (case find (\<lambda>st. xsSPI st = spi \<and> xsIfID st = chIfIDIn child) states of
                  None \<Rightarrow> Inl LossNoState
                | Some st \<Rightarrow> if \<not> xsHasReplay st then Inl LossUnavailable else Inr (computeLoss st))))"

section \<open>Child names\<close>

lemma find_rev_upt:
  "find P (rev [0..<n]) = Some i \<longleftrightarrow> i < n \<and> P i \<and> (\<forall>j. i < j \<longrightarrow> j < n \<longrightarrow> \<not> P j)"
proof (induction n)
  case (Suc n)
  show ?case
  proof (cases "P n")
    case True
    then show ?thesis by (auto simp: less_Suc_eq)
  next
    case False
    with Suc show ?thesis by (auto simp: less_Suc_eq)
  qed
qed simp

lemma is_digit_not: "is_digit c \<Longrightarrow> c \<noteq> CHR ''-'' \<and> c \<noteq> CHR ''+''"
  by (auto simp: is_digit_def)

lemma no_dash: "list_all is_digit ds \<Longrightarrow> CHR ''-'' \<notin> set ds"
  using is_digit_not by (auto simp: list_all_iff)

lemma LastIndex_sep:
  assumes "list_all is_digit ds"
  shows "LastIndex (conn @ ''-e'' @ ds) ''-e'' = Some (length conn)"
proof -
  have "take 2 (drop j (conn @ ''-e'' @ ds)) \<noteq> ''-e''" if j: "length conn < j" for j
  proof (cases "j = Suc (length conn)")
    case False
    then have "set (drop j (conn @ ''-e'' @ ds)) \<subseteq> set ds" using j set_drop_subset [of "j - length conn - 2" ds]
      by (simp add: drop_Cons' numeral_2_eq_2)
    then have "CHR ''-'' \<notin> set (take 2 (drop j (conn @ ''-e'' @ ds)))" using no_dash [OF assms] by (meson in_set_takeD subsetD)
    then show ?thesis by (metis list.set_intros(1))
  qed simp
  moreover have "length ''-e'' = 2" by simp
  ultimately show ?thesis unfolding LastIndex_def find_rev_upt by (auto simp: numeral_2_eq_2)
qed

lemma digit_char_val: "is_digit c \<Longrightarrow> digit_char (digit_val c) = c"
  by (simp add: is_digit_def digit_char_def digit_val_def)

lemma digit_val_less: "is_digit c \<Longrightarrow> digit_val c < 10"
  unfolding is_digit_def digit_val_def by linarith

lemma digit_val_pos: "is_digit c \<Longrightarrow> c \<noteq> CHR ''0'' \<Longrightarrow> 0 < digit_val c"
proof (rule ccontr)
  assume "is_digit c" "c \<noteq> CHR ''0''" "\<not> 0 < digit_val c"
  then have "of_char c = (of_char CHR ''0'' :: nat)" by (simp add: is_digit_def digit_val_def)
  with \<open>c \<noteq> CHR ''0''\<close> show False by (metis char_of_char)
qed

text \<open>A numeral without leading zeros is the one the formatter writes.\<close>

lemma dec_canonical:
  "list_all is_digit s \<Longrightarrow> s \<noteq> [] \<Longrightarrow> s ! 0 \<noteq> CHR ''0'' \<or> length s = 1 \<Longrightarrow>
     dec (dec_value s) = s \<and> (s ! 0 \<noteq> CHR ''0'' \<longrightarrow> 0 < dec_value s)"
proof (induction s rule: rev_induct)
  case (snoc c s)
  have c: "is_digit c" using snoc.prems by simp
  show ?case
  proof (cases "s = []")
    case True
    have "c \<noteq> CHR ''0'' \<longrightarrow> 0 < digit_val c" using c digit_val_pos by blast
    with True c show ?thesis by (simp add: dec_value_def dec.simps [of "digit_val c"] digit_val_less digit_char_val)
  next
    case False
    with snoc have IH: "dec (dec_value s) = s" "0 < dec_value s" by (auto simp: nth_append)
    with c show ?thesis
      by (simp add: dec_value_snoc dec.simps [of "dec_value s * 10 + digit_val c"] digit_val_less digit_char_val)
  qed
qed simp

lemma FormatUint_first: "FormatUint e ! 0 \<noteq> CHR ''0'' \<or> length (FormatUint e) = 1"
  using hd_dec [of "unat e"] by (cases "unat e = 0") (auto simp: FormatUint_def dec_0 hd_conv_nth)

lemma ParseUint_canonical:
  assumes "ParseUint s = Some e" "s ! 0 \<noteq> CHR ''0'' \<or> length s = 1"
  shows "s = FormatUint e"
proof -
  have s: "list_all is_digit s" "s \<noteq> []" "dec_value s < 2 ^ 64" "e = of_nat (dec_value s)"
    using assms(1) by (auto simp: ParseUint_def split: if_splits)
  then have "unat e = dec_value s" by (simp add: unat_of_nat take_bit_nat_eq_self)
  with dec_canonical [OF s(1,2) assms(2)] show ?thesis by (simp add: FormatUint_def)
qed

lemma ParseChildName_ChildName: "conn \<noteq> [] \<Longrightarrow> ParseChildName (ChildName conn e) = Some (conn, e)"
proof -
  assume c: "conn \<noteq> []"
  have d: "list_all is_digit (FormatUint e)" "FormatUint e \<noteq> []" by (simp_all add: FormatUint_def dec_digits)
  then have "is_digit (FormatUint e ! 0)" by (simp add: list_all_length)
  with c d FormatUint_first [of e] show ?thesis
    by (auto simp: ParseChildName_def ChildName_def LastIndex_sep [simplified] dest: is_digit_not)
qed

lemma ParseChildName_only:
  assumes "ParseChildName child = Some (conn, e)"
  shows "conn \<noteq> [] \<and> child = ChildName conn e"
proof -
  obtain i where i: "LastIndex child ''-e'' = Some i" using assms by (auto simp: ParseChildName_def split: option.splits)
  let ?d = "drop (i + 2) child"
  have a: "0 < i" "i + 2 < length child" "ParseUint ?d = Some e" "conn = take i child"
    "?d ! 0 \<noteq> CHR ''0'' \<or> length ?d = 1"
    using assms by (auto simp: ParseChildName_def i Let_def split: if_splits option.splits)
  have "take 2 (drop i child) = ''-e''" using i unfolding LastIndex_def find_rev_upt by (simp add: numeral_2_eq_2)
  then have "child = take i child @ ''-e'' @ ?d"
    by (metis add.commute append_take_drop_id drop_drop)
  with a ParseUint_canonical [OF a(3,5)] show ?thesis by (auto simp: ChildName_def)
qed

text \<open>
  Child names and pairs of a connection name and an epoch correspond one to one: the name built for a
  connection reads back to it, even when the connection's own name contains the separator, and every
  text that reads as a child name is the one built for what it reads as.
\<close>

theorem child_name_bijection:
  "ParseChildName child = Some (conn, e) \<longleftrightarrow> conn \<noteq> [] \<and> child = ChildName conn e"
  using ParseChildName_ChildName ParseChildName_only by blast

section \<open>Rendering\<close>

lemma check_sorted_Some:
  "sorted (map cName cs) \<Longrightarrow> \<forall>c\<in>set cs. p \<le> cName c \<Longrightarrow>
     check_sorted (Some p) cs = None \<longleftrightarrow> (\<forall>c\<in>set cs. Validate c = None) \<and> distinct (p # map cName cs)"
proof (induction cs arbitrary: p)
  case (Cons c cs)
  have "check_sorted (Some (cName c)) cs = None \<longleftrightarrow> (\<forall>c\<in>set cs. Validate c = None) \<and> distinct (cName c # map cName cs)"
    using Cons by auto
  moreover have "p \<notin> cName ` set cs" if "p \<noteq> cName c"
    using Cons.prems that by force
  ultimately show ?case by (auto split: option.splits)
qed simp

lemma check_sorted_None:
  "sorted (map cName cs) \<Longrightarrow> check_sorted None cs = None \<longleftrightarrow> (\<forall>c\<in>set cs. Validate c = None) \<and> distinct (map cName cs)"
  by (cases cs) (auto simp: check_sorted_Some split: option.splits)

lemma check_ifids_None:
  "check_ifids ids cs = None \<longleftrightarrow> distinct (map cIfID cs) \<and> (\<forall>c\<in>set cs. mget ids (cIfID c) = None)"
  by (induction cs arbitrary: ids) auto

lemma sort_names_perm:
  assumes "mset xs = mset ys" "distinct (map cName xs)"
  shows "sort_key cName xs = sort_key cName ys"
proof -
  have "distinct (map cName ys)" using assms by (metis mset_eq_imp_distinct_iff mset_map)
  moreover have "set xs = set ys" using assms(1) by (rule mset_eq_setD)
  ultimately show ?thesis using assms(2)
    by (intro map_sorted_distinct_set_unique [of cName]) (simp_all add: distinct_map)
qed

lemma Render_ok:
  "(\<exists>t. Render conns = Inr t) \<longleftrightarrow>
     (\<forall>c\<in>set conns. Validate c = None) \<and> distinct (map cName conns) \<and> distinct (map cIfID conns)"
proof -
  have "(\<exists>t. Render conns = Inr t) \<longleftrightarrow> check_sorted None (sort_key cName conns) = None \<and> check_ifids [] (sort_key cName conns) = None"
    by (auto simp: Render_def Let_def split: option.splits)
  then show ?thesis by (simp add: check_sorted_None check_ifids_None distinct_map_sort_key)
qed

text \<open>
  A set of connections renders exactly when each is valid, no two share a name and no two share an
  interface identifier, and the text does not depend on the order they are given in: an unchanged set
  renders to the same bytes.
\<close>

theorem render_canonical:
  "((\<exists>t. Render conns = Inr t) \<longleftrightarrow>
      (\<forall>c\<in>set conns. Validate c = None) \<and> distinct (map cName conns) \<and> distinct (map cIfID conns))
   \<and> (mset conns = mset conns' \<longrightarrow> Render conns = Inr t \<longrightarrow> Render conns' = Inr t)"
proof (intro conjI impI)
  assume m: "mset conns = mset conns'" and r: "Render conns = Inr t"
  then have "distinct (map cName conns)" using Render_ok [of conns] by blast
  from sort_names_perm [OF m this] r show "Render conns' = Inr t" by (simp add: Render_def)
qed (rule Render_ok)

definition demo_conn :: "string \<Rightarrow> u32 \<Rightarrow> Connection" where
  "demo_conn name ifid = \<lparr>cName = name, cEpoch = 7, cLocalAddr = NoAddr, cRemoteAddr = Addr4 0x0A000001, cLocalID = ''client'',
     cRemoteID = ''gw-a'', cAuth = AuthPSK, cPSK = ''0123456789abcdef'', cLocalPubkey = [], cRemotePubkey = [],
     cLocalTS = [\<lparr>pfxAddr = Addr4 0x0A640002, pfxBits = 32\<rparr>], cRemoteTS = [\<lparr>pfxAddr = Addr4 0, pfxBits = 0\<rparr>], cIfID = ifid,
     cIKEProposals = [], cESPProposals = [], cDPDDelay = 0, cStart = StartNone\<rparr>"

lemma demo_conn_valid: "ifid \<noteq> 0 \<Longrightarrow> nameRE name \<Longrightarrow> Validate (demo_conn name ifid) = None"
  by (simp add: Validate_def demo_conn_def idRE_def re_match_def is_alnum_def is_upper_def is_lower_def is_digit_def
      AuthPSK_def StartNone_def StartStart_def validatePSK_def minPSKLen_def psk_char_def Prefix_IsValid_def BitLen_def AnyID_def)

lemma demo_conn_sel [simp]: "cName (demo_conn name ifid) = name" "cIfID (demo_conn name ifid) = ifid"
  by (simp_all add: demo_conn_def)

theorem render_canonical_witness:
  "\<exists>t. Render [demo_conn ''b'' 2, demo_conn ''a'' 1] = Inr t \<and> Render [demo_conn ''a'' 1, demo_conn ''b'' 2] = Inr t"
proof -
  have n: "nameRE ''a''" "nameRE ''b''" by (simp_all add: nameRE_def re_match_def is_alnum_def is_lower_def)
  have v: "Validate (demo_conn ''a'' 1) = None" "Validate (demo_conn ''b'' 2) = None" by (rule demo_conn_valid; simp add: n)+
  have "\<forall>c\<in>set [demo_conn ''b'' 2, demo_conn ''a'' 1]. Validate c = None" using v by simp
  moreover have "distinct (map cName [demo_conn ''b'' 2, demo_conn ''a'' 1])" by simp
  moreover have "distinct (map cIfID [demo_conn ''b'' 2, demo_conn ''a'' 1])" by simp
  ultimately obtain t where t: "Render [demo_conn ''b'' 2, demo_conn ''a'' 1] = Inr t"
    using render_canonical [THEN conjunct1, of "[demo_conn ''b'' 2, demo_conn ''a'' 1]"] by blast
  have "mset [demo_conn ''b'' 2, demo_conn ''a'' 1] = mset [demo_conn ''a'' 1, demo_conn ''b'' 2]" by simp
  from render_canonical [THEN conjunct2, rule_format, OF this t] t show ?thesis by blast
qed

end
