(* ===== verification/GatewayAgent.thy ===== *)
theory GatewayAgent
  imports GatewayPlan EpochGate Wire IPsecConfig
begin

text \<open>
  \<^verbatim>\<open>internal/gateway/agent.go\<close>, \<^verbatim>\<open>netcfg.go\<close> and \<^verbatim>\<open>ipsec.go\<close>: how a gateway brings its host in line with a plan, and the
  fence its packet path reads. The host is a parameter: the \<^verbatim>\<open>ip\<close> command (an argument list in, one of
  three outcomes out), the WireGuard devices, the prober and the IKE daemon, each operation also returning
  the host after it. Starting and stopping (\<^verbatim>\<open>setup\<close>, \<^verbatim>\<open>teardown\<close>), the polling and reporting loops,
  logging, metrics and tracing are left out.
\<close>

section \<open>The host\<close>

text \<open>\<open>IpBenign\<close> is a failure whose message \<^verbatim>\<open>ipIgnore\<close> ignores.\<close>

datatype ipRes = IpOk | IpBenign | IpErr

datatype ikeRes = IkeOk | IkeNotFound | IkeErr

text \<open>An operation returns whether it worked; the IKE daemon also that it does not know the name.\<close>

record 'h host =
  hostIP :: "string list \<Rightarrow> 'h \<Rightarrow> ipRes \<times> 'h"
  rpFilter :: "string \<Rightarrow> 'h \<Rightarrow> bool \<times> 'h"
  newReal :: "string \<Rightarrow> 'h \<Rightarrow> bool \<times> 'h"
  closeDev :: "string \<Rightarrow> 'h \<Rightarrow> 'h"
  addPeer :: "string \<Rightarrow> bytes \<Rightarrow> Prefix \<Rightarrow> string \<Rightarrow> duration \<Rightarrow> 'h \<Rightarrow> bool \<times> 'h"
  removePeer :: "string \<Rightarrow> bytes \<Rightarrow> 'h \<Rightarrow> bool \<times> 'h"
  listenPort :: "string \<Rightarrow> 'h \<Rightarrow> u16 option"
  handshaked :: "string \<Rightarrow> bytes \<Rightarrow> 'h \<Rightarrow> bool"
  setTargets :: "(string, Addr \<times> u16) gomap \<Rightarrow> 'h \<Rightarrow> bool \<times> 'h"
  LoadConn :: "Connection \<Rightarrow> 'h \<Rightarrow> ikeRes \<times> 'h"
  UnloadConn :: "string \<Rightarrow> 'h \<Rightarrow> ikeRes \<times> 'h"
  LoadShared :: "SharedSecret \<Rightarrow> 'h \<Rightarrow> ikeRes \<times> 'h"
  UnloadShared :: "string \<Rightarrow> 'h \<Rightarrow> ikeRes \<times> 'h"
  TerminateIKE :: "string \<Rightarrow> 'h \<Rightarrow> ikeRes \<times> 'h"

definition ip :: "'h host \<Rightarrow> string list \<Rightarrow> 'h \<Rightarrow> bool \<times> 'h" where
  "ip H args h = (case hostIP H args h of (r, h') \<Rightarrow> (r = IpOk, h'))"

definition ipIgnore :: "'h host \<Rightarrow> string list \<Rightarrow> 'h \<Rightarrow> bool \<times> 'h" where
  "ipIgnore H args h = (case hostIP H args h of (r, h') \<Rightarrow> (r \<noteq> IpErr, h'))"

definition fwdRulePref :: nat where "fwdRulePref = 1000"
definition probeTable :: nat where "probeTable = 100"
definition egressTableBase :: nat where "egressTableBase = 1000"

definition host_prefix :: "Addr \<Rightarrow> string" where
  "host_prefix a = Prefix_String \<lparr>pfxAddr = a, pfxBits = 32\<rparr>"

definition ruleFrom :: "Addr \<Rightarrow> nat \<Rightarrow> string list" where
  "ruleFrom vip table = [''from'', host_prefix vip, ''lookup'', dec table, ''pref'', dec fwdRulePref]"

definition addRule :: "'h host \<Rightarrow> string list \<Rightarrow> 'h \<Rightarrow> bool \<times> 'h" where
  "addRule H args h = ipIgnore H (''rule'' # ''add'' # args) h"

definition delRule :: "'h host \<Rightarrow> string list \<Rightarrow> 'h \<Rightarrow> bool \<times> 'h" where
  "delRule H args h = ipIgnore H (''rule'' # ''del'' # args) h"

definition flushTable :: "'h host \<Rightarrow> nat \<Rightarrow> 'h \<Rightarrow> bool \<times> 'h" where
  "flushTable H table h = ipIgnore H [''route'', ''flush'', ''table'', dec table] h"

text \<open>Commands one after the other, up to the first failure.\<close>

fun in_turn :: "('h \<Rightarrow> bool \<times> 'h) list \<Rightarrow> 'h \<Rightarrow> bool \<times> 'h" where
  "in_turn [] h = (True, h)"
| "in_turn (c # cs) h = (case c h of (True, h') \<Rightarrow> in_turn cs h' | (False, h') \<Rightarrow> (False, h'))"

definition addrUp :: "'h host \<Rightarrow> string \<Rightarrow> Addr \<Rightarrow> nat \<Rightarrow> 'h \<Rightarrow> bool \<times> 'h" where
  "addrUp H dev addr mtu h = in_turn
     [ipIgnore H [''addr'', ''add'', host_prefix addr, ''dev'', dev],
      ip H [''link'', ''set'', dev, ''mtu'', dec mtu, ''up''],
      rpFilter H dev] h"

section \<open>State\<close>

definition backboneKeepalive :: duration where "backboneKeepalive = 5 * Second"
definition ipsecDevice :: string where "ipsecDevice = ''egi0''"
definition clientDevice :: string where "clientDevice = ''egc0''"

record AgentConfig =
  acID :: string
  acRoles :: GatewayRole
  acMTU :: nat
  acNodeIP :: Addr
  acProbePort :: u16
  acIPsec :: bool

record backbone =
  bName :: string
  bWant :: Backbone
  bSet :: bool
  bUp :: bool

record Agent =
  gate :: EpochGate
  fence :: "(u64, u64) gomap"
  index :: "(string, nat) gomap"
  nextIndex :: nat
  backbones :: "(string, backbone) gomap"
  peers :: "(string, Addr) gomap"
  forward :: "(Addr, string) gomap"
  ret :: "(Addr, string) gomap"
  ports :: "(string, u16) gomap"
  fenced :: "(string, u64) gomap"
  accessSessions :: int
  egressSessions :: int
  applied :: "(string, SessionPath) gomap"
  ipsecConns :: "(string, IPsecClient) gomap"
  ipsecHere :: "(Addr, bool) gomap"

definition NewAgent :: Agent where
  "NewAgent = \<lparr>gate = NewEpochGate, fence = [], index = [], nextIndex = 0, backbones = [], peers = [], forward = [],
     ret = [], ports = [], fenced = [], accessSessions = 0, egressSessions = 0, applied = [], ipsecConns = [], ipsecHere = []\<rparr>"

text \<open>The agent, its host and the errors so far, while a plan is applied.\<close>

record 'h run =
  ag :: Agent
  hs :: 'h
  errs :: "string list"

definition note_err :: "string \<Rightarrow> bool \<Rightarrow> 'h run \<Rightarrow> 'h run" where
  "note_err e ok x = (if ok then x else x\<lparr>errs := errs x @ [e]\<rparr>)"

section \<open>The fence\<close>

definition admit :: "Agent \<Rightarrow> SessionHeader \<Rightarrow> bool" where
  "admit a h =
     (if SessionID h = 0 then True
      else case mget (fence a) (SessionID h) of
        Some k \<Rightarrow> \<not> ucast (Epoch h) < k
      | None \<Rightarrow> True)"

definition fence_session :: "Agent \<Rightarrow> string \<Rightarrow> Agent" where
  "fence_session a s =
     (if mget (fenced a) s \<noteq> None then a
      else case ParseUint s of Some i \<Rightarrow> a\<lparr>fenced := mput s i (fenced a)\<rparr> | None \<Rightarrow> a)"

definition fence_entry :: "EpochGate \<Rightarrow> (u64, u64) gomap \<Rightarrow> string \<times> u64 \<Rightarrow> (u64, u64) gomap" where
  "fence_entry g m e = (case e of (s, i) \<Rightarrow> (case Known s g of Some ep \<Rightarrow> mput i ep m | None \<Rightarrow> m))"

definition updateFenceLocked :: "(string, u64) gomap \<Rightarrow> Agent \<Rightarrow> Agent" where
  "updateFenceLocked epochs a =
     (let a = foldl fence_session a (mkeys epochs)
      in a\<lparr>fence := foldl (fence_entry (gate a)) [] (fenced a)\<rparr>)"

definition gate_plan :: "Plan \<Rightarrow> Agent \<Rightarrow> Agent" where
  "gate_plan p a =
     (let a = a\<lparr>gate := foldl (\<lambda>g (s, e). Update s e g) (gate a) (Epochs p)\<rparr>;
          a = updateFenceLocked (Epochs p) a
      in a\<lparr>accessSessions := AccessSessions p, egressSessions := EgressSessions p\<rparr>)"

section \<open>Applying a plan\<close>

definition indexLocked :: "'h host \<Rightarrow> string \<Rightarrow> Agent \<Rightarrow> 'h \<Rightarrow> nat \<times> bool \<times> Agent \<times> 'h" where
  "indexLocked H i a h = (case mget (index a) i of
     Some n \<Rightarrow> (n, True, a, h)
   | None \<Rightarrow>
       (let n = nextIndex a; a = a\<lparr>nextIndex := n + 1, index := mput i n (index a)\<rparr>;
            (ok, h) = in_turn [flushTable H (egressTableBase + n),
              ip H [''route'', ''replace'', ''blackhole'', ''default'', ''metric'', ''4000'', ''table'', dec (egressTableBase + n)]] h
        in (n, ok, a, h)))"

definition all_ipv4 :: Prefix where "all_ipv4 = \<lparr>pfxAddr = Addr4 0, pfxBits = 0\<rparr>"

text \<open>The first half of \<^verbatim>\<open>applyBackboneLocked\<close>: a device for a gateway that has none.\<close>

definition newBackbone :: "'h host \<Rightarrow> AgentConfig \<Rightarrow> string \<Rightarrow> Agent \<Rightarrow> 'h \<Rightarrow> bool \<times> Agent \<times> 'h" where
  "newBackbone H cfg i a h =
     (case indexLocked H i a h of (n, ok, a, h) \<Rightarrow>
      if \<not> ok then (False, a, h) else
      let name = ''egb'' @ dec n in
      case newReal H name h of
        (False, h) \<Rightarrow> (False, a, h)
      | (True, h) \<Rightarrow>
          (case in_turn [addrUp H name (acNodeIP cfg) (acMTU cfg),
               ip H [''route'', ''replace'', ''default'', ''dev'', name, ''table'', dec (egressTableBase + n)]] h of
             (False, h) \<Rightarrow> (False, a, closeDev H name h)
           | (True, h) \<Rightarrow> (True, a\<lparr>backbones := mput i \<lparr>bName = name, bWant = \<lparr>bbPublicKey = [], bbEndpoint = [], bbNodeIP = NoAddr\<rparr>,
                 bSet = False, bUp = False\<rparr> (backbones a)\<rparr>, h)))"

text \<open>The second half: the peer of backbone \<open>b\<close>.\<close>

definition setBackbone :: "'h host \<Rightarrow> AgentConfig \<Rightarrow> string \<Rightarrow> Backbone \<Rightarrow> backbone \<Rightarrow> Agent \<Rightarrow> 'h \<Rightarrow> bool \<times> Agent \<times> 'h" where
  "setBackbone H cfg i want b a h =
     (if bSet b \<and> bWant b = want then (True, a, h) else
      let initiator = (acID cfg < i);
          keepalive = (if initiator then backboneKeepalive else 0);
          fresh = (bSet b \<and> (bbPublicKey (bWant b) \<noteq> bbPublicKey want \<or> initiator \<and> bbEndpoint (bWant b) \<noteq> bbEndpoint want));
          h = (if fresh then (case DecodeBase64 (bbPublicKey (bWant b)) of Some k \<Rightarrow> snd (removePeer H (bName b) k h) | None \<Rightarrow> h) else h);
          b = (if fresh then b\<lparr>bUp := False\<rparr> else b);
          a = a\<lparr>backbones := mput i b (backbones a)\<rparr>
      in case DecodeBase64 (bbPublicKey want) of
           None \<Rightarrow> (False, a, h)
         | Some key \<Rightarrow>
             (case in_turn [addPeer H (bName b) key all_ipv4 (bbEndpoint want) keepalive,
                  ip H [''route'', ''replace'', host_prefix (bbNodeIP want), ''dev'', bName b, ''src'', Addr_String (acNodeIP cfg)]] h of
                (False, h) \<Rightarrow> (False, a, h)
              | (True, h) \<Rightarrow> (True, a\<lparr>backbones := mput i (b\<lparr>bWant := want, bSet := True\<rparr>) (backbones a)\<rparr>, h)))"

definition applyBackboneLocked :: "'h host \<Rightarrow> AgentConfig \<Rightarrow> string \<Rightarrow> Backbone \<Rightarrow> Agent \<Rightarrow> 'h \<Rightarrow> bool \<times> Agent \<times> 'h" where
  "applyBackboneLocked H cfg i want a h =
     (case (if mget (backbones a) i = None then newBackbone H cfg i a h else (True, a, h)) of
        (False, a, h) \<Rightarrow> (False, a, h)
      | (True, a, h) \<Rightarrow> (case mget (backbones a) i of
            Some b \<Rightarrow> setBackbone H cfg i want b a h
          | None \<Rightarrow> (False, a, h)))"

definition probe_target :: "'h host \<Rightarrow> AgentConfig \<Rightarrow> 'h \<Rightarrow> (string, Addr \<times> u16) gomap \<times> (string, backbone) gomap \<Rightarrow> string \<times> backbone
    \<Rightarrow> (string, Addr \<times> u16) gomap \<times> (string, backbone) gomap" where
  "probe_target H cfg h acc e = (case (acc, e) of ((ts, bs), (i, b)) \<Rightarrow>
     if \<not> bSet b then (ts, bs)
     else case DecodeBase64 (bbPublicKey (bWant b)) of
       None \<Rightarrow> (ts, bs)
     | Some key \<Rightarrow> (if handshaked H (bName b) key h
         then (mput i (bbNodeIP (bWant b), acProbePort cfg) ts, mput i (b\<lparr>bUp := True\<rparr>) bs) else (ts, bs)))"

definition setProbeTargetsLocked :: "'h host \<Rightarrow> AgentConfig \<Rightarrow> Agent \<Rightarrow> 'h \<Rightarrow> bool \<times> Agent \<times> 'h" where
  "setProbeTargetsLocked H cfg a h =
     (let (ts, bs) = foldl (probe_target H cfg h) ([], backbones a) (backbones a);
          (ok, h) = setTargets H ts h
      in (ok, a\<lparr>backbones := bs\<rparr>, h))"

definition drop_backbone :: "'h host \<Rightarrow> Plan \<Rightarrow> 'h run \<Rightarrow> string \<times> backbone \<Rightarrow> 'h run" where
  "drop_backbone H p x e = (case e of (i, b) \<Rightarrow>
     if mget (Backbones p) i = None
     then x\<lparr>hs := closeDev H (bName b) (hs x), ag := (ag x)\<lparr>backbones := mdel i (backbones (ag x))\<rparr>\<rparr> else x)"

definition want_backbone :: "'h host \<Rightarrow> AgentConfig \<Rightarrow> Plan \<Rightarrow> 'h run \<Rightarrow> string \<Rightarrow> 'h run" where
  "want_backbone H cfg p x i = (case mget (Backbones p) i of
     None \<Rightarrow> x
   | Some want \<Rightarrow> (case applyBackboneLocked H cfg i want (ag x) (hs x) of
        (ok, a, h) \<Rightarrow> note_err (''backbone to '' @ i) ok (x\<lparr>ag := a, hs := h\<rparr>)))"

definition probe_step :: "'h host \<Rightarrow> AgentConfig \<Rightarrow> 'h run \<Rightarrow> 'h run" where
  "probe_step H cfg x = (case setProbeTargetsLocked H cfg (ag x) (hs x) of
     (ok, a, h) \<Rightarrow> note_err ''probe targets'' ok (x\<lparr>ag := a, hs := h\<rparr>))"

definition drop_peer :: "'h host \<Rightarrow> Plan \<Rightarrow> 'h run \<Rightarrow> string \<times> Addr \<Rightarrow> 'h run" where
  "drop_peer H p x e = (case e of (key, vip) \<Rightarrow>
     if mget (Peers p) key = Some vip then x
     else let x = (case DecodeBase64 key of None \<Rightarrow> x
            | Some k \<Rightarrow> (case removePeer H clientDevice k (hs x) of (ok, h) \<Rightarrow> note_err ''remove peer'' ok (x\<lparr>hs := h\<rparr>)))
          in x\<lparr>ag := (ag x)\<lparr>peers := mdel key (peers (ag x))\<rparr>\<rparr>)"

definition want_peer :: "'h host \<Rightarrow> 'h run \<Rightarrow> string \<times> Addr \<Rightarrow> 'h run" where
  "want_peer H x e = (case e of (key, vip) \<Rightarrow>
     if mget (peers (ag x)) key \<noteq> None then x
     else case DecodeBase64 key of
       None \<Rightarrow> note_err ''client key'' False x
     | Some k \<Rightarrow> (case addPeer H clientDevice k \<lparr>pfxAddr = vip, pfxBits = 32\<rparr> [] 0 (hs x) of
          (False, h) \<Rightarrow> note_err ''add peer'' False (x\<lparr>hs := h\<rparr>)
        | (True, h) \<Rightarrow> x\<lparr>hs := h, ag := (ag x)\<lparr>peers := mput key vip (peers (ag x))\<rparr>\<rparr>))"

definition drop_forward :: "'h host \<Rightarrow> Plan \<Rightarrow> 'h run \<Rightarrow> Addr \<times> string \<Rightarrow> 'h run" where
  "drop_forward H p x e = (case e of (vip, egress) \<Rightarrow>
     if (case mget (Forward_to p) vip of None \<Rightarrow> [] | Some g \<Rightarrow> g) = egress then x
     else let n = (case mget (index (ag x)) egress of None \<Rightarrow> 0 | Some n \<Rightarrow> n);
              (ok, h) = delRule H (ruleFrom vip (egressTableBase + n)) (hs x);
              x = note_err ''delete rule'' ok (x\<lparr>hs := h\<rparr>)
          in x\<lparr>ag := (ag x)\<lparr>forward := mdel vip (forward (ag x))\<rparr>\<rparr>)"

definition want_forward :: "'h host \<Rightarrow> 'h run \<Rightarrow> Addr \<times> string \<Rightarrow> 'h run" where
  "want_forward H x e = (case e of (vip, egress) \<Rightarrow>
     if mget (forward (ag x)) vip \<noteq> None then x
     else case indexLocked H egress (ag x) (hs x) of (n, ok, a, h) \<Rightarrow>
       if \<not> ok then note_err ''table'' False (x\<lparr>ag := a, hs := h\<rparr>)
       else case addRule H (ruleFrom vip (egressTableBase + n)) h of
           (False, h) \<Rightarrow> note_err ''add rule'' False (x\<lparr>ag := a, hs := h\<rparr>)
         | (True, h) \<Rightarrow> x\<lparr>ag := a\<lparr>forward := mput vip egress (forward a)\<rparr>, hs := h\<rparr>)"

definition drop_return :: "'h host \<Rightarrow> Plan \<Rightarrow> 'h run \<Rightarrow> Addr \<times> string \<Rightarrow> 'h run" where
  "drop_return H p x e = (case e of (vip, access) \<Rightarrow>
     if (case mget (Return_via p) vip of None \<Rightarrow> [] | Some g \<Rightarrow> g) = access then x
     else let (ok, h) = ipIgnore H [''route'', ''del'', host_prefix vip] (hs x);
              x = note_err ''delete route'' ok (x\<lparr>hs := h\<rparr>)
          in x\<lparr>ag := (ag x)\<lparr>ret := mdel vip (ret (ag x))\<rparr>\<rparr>)"

definition want_return :: "'h host \<Rightarrow> 'h run \<Rightarrow> Addr \<times> string \<Rightarrow> 'h run" where
  "want_return H x e = (case e of (vip, access) \<Rightarrow>
     if mget (ret (ag x)) vip \<noteq> None then x
     else case mget (backbones (ag x)) access of
       None \<Rightarrow> x
     | Some b \<Rightarrow> (case ip H [''route'', ''replace'', host_prefix vip, ''dev'', bName b] (hs x) of
          (False, h) \<Rightarrow> note_err ''add route'' False (x\<lparr>hs := h\<rparr>)
        | (True, h) \<Rightarrow> x\<lparr>hs := h, ag := (ag x)\<lparr>ret := mput vip access (ret (ag x))\<rparr>\<rparr>))"

text \<open>\<^verbatim>\<open>ipsec.go\<close>\<close>

definition ipsecConnName :: "string \<Rightarrow> string" where
  "ipsecConnName session = ''egressa-s'' @ session"

definition ipsecIfID :: u32 where "ipsecIfID = 7001"
definition ipsecDPD :: duration where "ipsecDPD = 10 * Second"

definition ipsecConnection :: "string \<Rightarrow> string \<Rightarrow> IPsecClient \<Rightarrow> Connection" where
  "ipsecConnection me session c = \<lparr>cName = ipsecConnName session, cEpoch = 0, cLocalAddr = NoAddr, cRemoteAddr = NoAddr,
     cLocalID = IPsecGatewayID me, cRemoteID = IPsecClientID session, cAuth = AuthPSK, cPSK = icPSK c,
     cLocalPubkey = [], cRemotePubkey = [], cLocalTS = [all_ipv4], cRemoteTS = [\<lparr>pfxAddr = icVirtualIP c, pfxBits = 32\<rparr>],
     cIfID = ipsecIfID, cIKEProposals = [], cESPProposals = [], cDPDDelay = ipsecDPD, cStart = StartNone\<rparr>"

definition ipsecSecret :: "string \<Rightarrow> string \<Rightarrow> IPsecClient \<Rightarrow> SharedSecret" where
  "ipsecSecret me session c =
     (let conn = ipsecConnection me session c in \<lparr>ssID = cName conn, ssPSK = icPSK c, ssOwners = [cRemoteID conn]\<rparr>)"

definition ignoreIPsecNotFound :: "ikeRes \<times> 'h \<Rightarrow> bool \<times> 'h" where
  "ignoreIPsecNotFound r = (case r of (e, h) \<Rightarrow> (e \<noteq> IkeErr, h))"

definition unloadIPsec :: "'h host \<Rightarrow> string \<times> IPsecClient \<Rightarrow> 'h run \<Rightarrow> 'h run" where
  "unloadIPsec H e x = (case e of (session, c) \<Rightarrow>
     let name = ipsecConnName session;
         (ok1, h) = ignoreIPsecNotFound (TerminateIKE H name (hs x));
         (ok2, h) = ignoreIPsecNotFound (UnloadConn H name h);
         (ok3, h) = ignoreIPsecNotFound (UnloadShared H name h);
         (ok4, h) = ipIgnore H [''route'', ''del'', host_prefix (icVirtualIP c), ''dev'', ipsecDevice, ''table'', dec probeTable] h
     in foldl (\<lambda>x ok. note_err ''unload'' ok x) (x\<lparr>hs := h\<rparr>) [ok1, ok2, ok3, ok4])"

definition drop_ipsec :: "'h host \<Rightarrow> Plan \<Rightarrow> 'h run \<Rightarrow> string \<times> IPsecClient \<Rightarrow> 'h run" where
  "drop_ipsec H p x e = (case e of (session, have_c) \<Rightarrow>
     if mget (IPsecConns p) session = Some have_c then x
     else let x = unloadIPsec H e x in x\<lparr>ag := (ag x)\<lparr>ipsecConns := mdel session (ipsecConns (ag x))\<rparr>\<rparr>)"

definition drop_here :: "'h host \<Rightarrow> Plan \<Rightarrow> 'h run \<Rightarrow> Addr \<times> bool \<Rightarrow> 'h run" where
  "drop_here H p x e = (case e of (vip, _) \<Rightarrow>
     if mget (IPsecHere p) vip = Some True then x
     else let (ok, h) = ipIgnore H [''route'', ''del'', host_prefix vip, ''dev'', ipsecDevice] (hs x);
              x = note_err ''delete ipsec route'' ok (x\<lparr>hs := h\<rparr>)
          in x\<lparr>ag := (ag x)\<lparr>ipsecHere := mdel vip (ipsecHere (ag x))\<rparr>\<rparr>)"

definition removeIPsecLocked :: "'h host \<Rightarrow> Plan \<Rightarrow> 'h run \<Rightarrow> 'h run" where
  "removeIPsecLocked H p x =
     (let x = foldl (drop_ipsec H p) x (ipsecConns (ag x)) in foldl (drop_here H p) x (ipsecHere (ag x)))"

definition want_ipsec :: "'h host \<Rightarrow> AgentConfig \<Rightarrow> 'h run \<Rightarrow> string \<times> IPsecClient \<Rightarrow> 'h run" where
  "want_ipsec H cfg x e = (case e of (session, c) \<Rightarrow>
     if mget (ipsecConns (ag x)) session \<noteq> None then x
     else let conn = ipsecConnection (acID cfg) session c; secret = ipsecSecret (acID cfg) session c;
              (r, h) = LoadShared H secret (hs x) in
       if r \<noteq> IkeOk then note_err ''IPsec session'' False (x\<lparr>hs := h\<rparr>)
       else let (r, h) = LoadConn H conn h in
       if r \<noteq> IkeOk then note_err ''IPsec session'' False (x\<lparr>hs := snd (UnloadShared H (ssID secret) h)\<rparr>)
       else let (ok, h) = ip H [''route'', ''replace'', host_prefix (icVirtualIP c), ''dev'', ipsecDevice, ''table'', dec probeTable] h
            in note_err ''ipsec probe route'' ok (x\<lparr>hs := h, ag := (ag x)\<lparr>ipsecConns := mput session c (ipsecConns (ag x))\<rparr>\<rparr>))"

definition want_here :: "'h host \<Rightarrow> 'h run \<Rightarrow> Addr \<times> bool \<Rightarrow> 'h run" where
  "want_here H x e = (case e of (vip, _) \<Rightarrow>
     if mget (ipsecHere (ag x)) vip = Some True then x
     else case ip H [''route'', ''replace'', host_prefix vip, ''dev'', ipsecDevice] (hs x) of
       (False, h) \<Rightarrow> note_err ''ipsec route'' False (x\<lparr>hs := h\<rparr>)
     | (True, h) \<Rightarrow> x\<lparr>hs := h, ag := (ag x)\<lparr>ipsecHere := mput vip True (ipsecHere (ag x))\<rparr>\<rparr>)"

definition addIPsecLocked :: "'h host \<Rightarrow> AgentConfig \<Rightarrow> Plan \<Rightarrow> 'h run \<Rightarrow> 'h run" where
  "addIPsecLocked H cfg p x = foldl (want_here H) (foldl (want_ipsec H cfg) x (IPsecConns p)) (IPsecHere p)"

definition traceMovesLocked :: "Plan \<Rightarrow> Agent \<Rightarrow> Agent" where
  "traceMovesLocked p a = a\<lparr>applied := foldl (\<lambda>m (i, now). mput i now m) (applied a) (Sessions p)\<rparr>"

definition apply_plan :: "'h host \<Rightarrow> AgentConfig \<Rightarrow> Plan \<Rightarrow> Agent \<Rightarrow> 'h \<Rightarrow> 'h run" where
  "apply_plan H cfg p a h =
     (let x = \<lparr>ag = a, hs = h, errs = []\<rparr>;
          x = foldl (drop_backbone H p) x (backbones (ag x));
          x = foldl (want_backbone H cfg p) x (BackboneIDs p);
          x = probe_step H cfg x;
          x = foldl (drop_peer H p) x (peers (ag x));
          x = foldl (want_peer H) x (Peers p);
          x = x\<lparr>ag := gate_plan p (ag x)\<rparr>;
          x = foldl (drop_forward H p) x (forward (ag x));
          x = foldl (want_forward H) x (Forward_to p);
          ipsecOn = (acIPsec cfg \<and> Has (acRoles cfg) RoleAccess);
          x = (if ipsecOn then removeIPsecLocked H p x else x);
          x = foldl (drop_return H p) x (ret (ag x));
          x = foldl (want_return H) x (Return_via p);
          x = (if ipsecOn then addIPsecLocked H cfg p x else x)
      in x\<lparr>ag := traceMovesLocked p (ag x)\<rparr>)"

definition portsChanged :: "'h host \<Rightarrow> Agent \<Rightarrow> 'h \<Rightarrow> bool" where
  "portsChanged H a h \<longleftrightarrow> length (ports a) \<noteq> length (backbones a)
     \<or> list_ex (\<lambda>(i, b). case listenPort H (bName b) h of None \<Rightarrow> True
          | Some q \<Rightarrow> (case mget (ports a) i of None \<Rightarrow> 0 | Some q' \<Rightarrow> q') \<noteq> q) (backbones a)"

section \<open>What the steps leave alone\<close>

text \<open>
  Hypotheses on the host, for what \<open>hr\<close> reads of its forwarding rules. \<open>keeps_rules\<close>: only \<^verbatim>\<open>ip rule add\<close>
  and \<^verbatim>\<open>ip rule del\<close> change the rules. \<open>rule_cmds\<close>: such a command does its work unless it fails with
  an error \<^verbatim>\<open>ipIgnore\<close> does not ignore, and then changes nothing.
\<close>

definition keeps :: "('h \<Rightarrow> 'r) \<Rightarrow> ('h \<Rightarrow> 'b \<times> 'h) \<Rightarrow> bool" where
  "keeps hr f \<longleftrightarrow> (\<forall>h. hr (snd (f h)) = hr h)"

definition keeps_rules :: "'h host \<Rightarrow> ('h \<Rightarrow> 'r) \<Rightarrow> bool" where
  "keeps_rules H hr \<longleftrightarrow>
     (\<forall>args. take 2 args \<notin> {[''rule'', ''add''], [''rule'', ''del'']} \<longrightarrow> keeps hr (hostIP H args)) \<and>
     (\<forall>d. keeps hr (rpFilter H d)) \<and> (\<forall>d. keeps hr (newReal H d)) \<and> (\<forall>d h. hr (closeDev H d h) = hr h) \<and>
     (\<forall>d k p e t. keeps hr (addPeer H d k p e t)) \<and> (\<forall>d k. keeps hr (removePeer H d k)) \<and> (\<forall>ts. keeps hr (setTargets H ts)) \<and>
     (\<forall>c. keeps hr (LoadConn H c)) \<and> (\<forall>c. keeps hr (UnloadConn H c)) \<and> (\<forall>c. keeps hr (LoadShared H c)) \<and>
     (\<forall>c. keeps hr (UnloadShared H c)) \<and> (\<forall>c. keeps hr (TerminateIKE H c))"

definition rule_cmds :: "'h host \<Rightarrow> ('h \<Rightarrow> (Addr \<times> nat) set) \<Rightarrow> bool" where
  "rule_cmds H hr \<longleftrightarrow> (\<forall>vip t h. Is4 vip \<longrightarrow>
     (let (r, h') = hostIP H (''rule'' # ''add'' # ruleFrom vip t) h in hr h' = (if r = IpErr then hr h else insert (vip, t) (hr h))) \<and>
     (let (r, h') = hostIP H (''rule'' # ''del'' # ruleFrom vip t) h in hr h' = (if r = IpErr then hr h else hr h - {(vip, t)})))"

text \<open>
  What every step but those on the forwarding rules keeps: the rules, the agent's record of them, the
  fence; indices once given stay, and errors only accumulate.
\<close>

definition quiet :: "('h \<Rightarrow> 'r) \<Rightarrow> 'h run \<Rightarrow> 'h run \<Rightarrow> bool" where
  "quiet hr x y \<longleftrightarrow> hr (hs y) = hr (hs x) \<and> forward (ag y) = forward (ag x)
     \<and> (gate (ag y), fence (ag y), fenced (ag y)) = (gate (ag x), fence (ag x), fenced (ag x))
     \<and> map_of (index (ag x)) \<subseteq>\<^sub>m map_of (index (ag y))
     \<and> (\<exists>es. errs y = errs x @ es \<and> ''delete rule'' \<notin> set es)"

lemma quiet_refl [simp]: "quiet hr x x"
  by (simp add: quiet_def)

lemma quiet_trans: "quiet hr x y \<Longrightarrow> quiet hr y z \<Longrightarrow> quiet hr x z"
  unfolding quiet_def by (force intro: map_le_trans)

lemma quiet_foldl: "(\<And>x e. quiet hr x (f x e)) \<Longrightarrow> quiet hr x (foldl f x es)"
  by (induction es arbitrary: x) (auto intro: quiet_trans)

lemma quiet_then_foldl: "quiet hr x y \<Longrightarrow> (\<And>x e. quiet hr x (f x e)) \<Longrightarrow> quiet hr x (foldl f y es)"
  by (rule quiet_trans [OF _ quiet_foldl])

lemma quiet_note: "e \<noteq> ''delete rule'' \<Longrightarrow> quiet hr x y \<Longrightarrow> quiet hr x (note_err e ok y)"
  by (auto simp: quiet_def note_err_def)

lemma keeps_in_turn: "\<forall>c\<in>set cs. keeps hr c \<Longrightarrow> keeps hr (in_turn cs)"
  unfolding keeps_def
proof (induction cs)
  case (Cons c cs)
  show ?case
  proof
    fix h
    have "hr (snd (c h)) = hr h" "hr (snd (in_turn cs (snd (c h)))) = hr (snd (c h))" using Cons by simp_all
    then show "hr (snd (in_turn (c # cs) h)) = hr h" by (auto split: prod.split bool.split)
  qed
qed simp

lemma keepsD: "keeps hr f \<Longrightarrow> f h = (b, h') \<Longrightarrow> hr h' = hr h"
  unfolding keeps_def by (metis snd_conv)

lemma keeps_ip: "keeps_rules H hr \<Longrightarrow> take 2 args \<notin> {[''rule'', ''add''], [''rule'', ''del'']} \<Longrightarrow> keeps hr (ip H args)"
  by (simp add: keeps_rules_def keeps_def ip_def case_prod_beta)

lemma keeps_ipIgnore: "keeps_rules H hr \<Longrightarrow> take 2 args \<notin> {[''rule'', ''add''], [''rule'', ''del'']} \<Longrightarrow> keeps hr (ipIgnore H args)"
  by (simp add: keeps_rules_def keeps_def ipIgnore_def case_prod_beta)

lemma keeps_addrUp: "keeps_rules H hr \<Longrightarrow> keeps hr (addrUp H dev addr mtu)"
  unfolding addrUp_def by (rule keeps_in_turn) (auto simp: keeps_ip keeps_ipIgnore, simp add: keeps_rules_def)

lemma keeps_flush: "keeps_rules H hr \<Longrightarrow> keeps hr (flushTable H t)"
  by (auto simp: flushTable_def keeps_def keeps_ipIgnore [unfolded keeps_def])

lemma indexLocked_quiet:
  assumes "keeps_rules H hr" "indexLocked H i a h = (n, ok, a', h')"
  shows "hr h' = hr h" "a' = a\<lparr>nextIndex := nextIndex a', index := index a'\<rparr>" "map_of (index a) \<subseteq>\<^sub>m map_of (index a')"
    "mget (index a') i = Some n"
proof -
  let ?t = "egressTableBase + nextIndex a"
  let ?cs = "[flushTable H ?t, ip H [''route'', ''replace'', ''blackhole'', ''default'', ''metric'', ''4000'', ''table'', dec ?t]]"
  have k: "keeps hr (in_turn ?cs)" by (rule keeps_in_turn) (simp add: keeps_flush keeps_ip assms(1))
  show "hr h' = hr h" "a' = a\<lparr>nextIndex := nextIndex a', index := index a'\<rparr>" "map_of (index a) \<subseteq>\<^sub>m map_of (index a')"
    "mget (index a') i = Some n"
    using assms(2) keepsD [OF k] unfolding indexLocked_def
    by (auto simp: Let_def map_le_def simp del: in_turn.simps split: option.splits prod.splits)
qed

lemma kept:
  assumes "keeps_rules H hr"
  shows "hr (snd (rpFilter H d h)) = hr h" "hr (snd (newReal H d h)) = hr h" "hr (closeDev H d h) = hr h"
    "hr (snd (addPeer H d k p e t h)) = hr h" "hr (snd (removePeer H d k h)) = hr h" "hr (snd (setTargets H ts h)) = hr h"
    "hr (snd (LoadConn H cn h)) = hr h" "hr (snd (UnloadConn H c h)) = hr h" "hr (snd (LoadShared H ss h)) = hr h"
    "hr (snd (UnloadShared H c h)) = hr h" "hr (snd (TerminateIKE H c h)) = hr h"
    "a \<noteq> ''rule'' \<Longrightarrow> hr (snd (ip H (a # as) h)) = hr h" "a \<noteq> ''rule'' \<Longrightarrow> hr (snd (ipIgnore H (a # as) h)) = hr h"
  using assms keeps_ip [OF assms, of "a # as"] keeps_ipIgnore [OF assms, of "a # as"]
  by (simp_all add: keeps_rules_def keeps_def numeral_2_eq_2)

lemma newBackbone_quiet:
  assumes H: "keeps_rules H hr" and "newBackbone H cfg i a h = (ok, a', h')"
  shows "quiet hr \<lparr>ag = a, hs = h, errs = es\<rparr> \<lparr>ag = a', hs = h', errs = es\<rparr>"
proof -
  obtain n ok1 a1 h1 where i: "indexLocked H i a h = (n, ok1, a1, h1)" by (metis prod_cases4)
  note q = indexLocked_quiet [OF H i]
  have a1: "forward a1 = forward a" "gate a1 = gate a" "fence a1 = fence a" "fenced a1 = fenced a"
    by (subst q(2), simp)+
  let ?name = "''egb'' @ dec n"
  let ?cs = "[addrUp H ?name (acNodeIP cfg) (acMTU cfg), ip H [''route'', ''replace'', ''default'', ''dev'', ?name, ''table'', dec (egressTableBase + n)]]"
  have k: "keeps hr (in_turn ?cs)" by (rule keeps_in_turn) (simp add: keeps_addrUp keeps_ip H)
  have nr: "newReal H ?name h1 = (b, h2) \<Longrightarrow> hr h2 = hr h1" for b h2 using kept(2) [OF H, of ?name h1] by simp
  show ?thesis using assms(2) a1 q(1,3) keepsD [OF k] nr
    unfolding newBackbone_def i quiet_def
    by (auto simp: Let_def kept(3) [OF H] simp del: in_turn.simps split: if_splits prod.splits bool.splits)
qed

lemma setBackbone_quiet:
  assumes H: "keeps_rules H hr" and "setBackbone H cfg i want b a h = (ok, a', h')"
  shows "quiet hr \<lparr>ag = a, hs = h, errs = es\<rparr> \<lparr>ag = a', hs = h', errs = es\<rparr>"
proof -
  have k: "keeps hr (in_turn [addPeer H d key all_ipv4 ep t, ip H [''route'', ''replace'', p, ''dev'', d, ''src'', q]])" for d key ep t p q
    by (rule keeps_in_turn) (use H in \<open>simp add: keeps_ip keeps_rules_def\<close>)
  show ?thesis using assms(2) keepsD [OF k]
    unfolding setBackbone_def quiet_def
    by (force simp: Let_def kept(5) [OF H] simp del: in_turn.simps split: if_splits prod.splits bool.splits option.splits)
qed

lemma applyBackbone_quiet:
  assumes H: "keeps_rules H hr" and r: "applyBackboneLocked H cfg i want a h = (ok, a', h')"
  shows "quiet hr \<lparr>ag = a, hs = h, errs = es\<rparr> \<lparr>ag = a', hs = h', errs = es\<rparr>"
proof -
  obtain ok1 a1 h1 where n: "(if mget (backbones a) i = None then newBackbone H cfg i a h else (True, a, h)) = (ok1, a1, h1)"
    by (metis prod_cases3)
  then have q: "quiet hr \<lparr>ag = a, hs = h, errs = es\<rparr> \<lparr>ag = a1, hs = h1, errs = es\<rparr>"
    using newBackbone_quiet [OF H] by (auto split: if_splits)
  show ?thesis using r q quiet_trans [OF q setBackbone_quiet [OF H]]
    unfolding applyBackboneLocked_def n by (auto split: bool.splits option.splits)
qed

lemma quiet_set:
  assumes "quiet hr \<lparr>ag = ag x, hs = hs x, errs = errs x\<rparr> \<lparr>ag = a, hs = h, errs = errs x\<rparr>"
  shows "quiet hr x (x\<lparr>ag := a, hs := h\<rparr>)"
  using assms by (simp add: quiet_def)

lemma probe_step_quiet:
  assumes H: "keeps_rules H hr"
  shows "quiet hr x (probe_step H cfg x)"
proof -
  obtain ok a h where s: "setProbeTargetsLocked H cfg (ag x) (hs x) = (ok, a, h)" by (metis prod_cases3)
  then have "quiet hr x (x\<lparr>ag := a, hs := h\<rparr>)"
    using kept(6) [OF H] by (auto simp: setProbeTargetsLocked_def Let_def case_prod_beta quiet_def)
  then show ?thesis by (simp add: probe_step_def s quiet_note)
qed

lemma want_backbone_quiet:
  assumes H: "keeps_rules H hr"
  shows "quiet hr x (want_backbone H cfg p x i)"
proof -
  have "quiet hr x (note_err (''backbone to '' @ i) ok (x\<lparr>ag := a, hs := h\<rparr>))"
    if "applyBackboneLocked H cfg i want (ag x) (hs x) = (ok, a, h)" for want ok a h
    by (rule quiet_note) (simp_all add: quiet_set [OF applyBackbone_quiet [OF H that]])
  then show ?thesis by (auto simp: want_backbone_def split: option.split prod.split)
qed

lemma drop_backbone_quiet: "keeps_rules H hr \<Longrightarrow> quiet hr x (drop_backbone H p x e)"
  by (auto simp: drop_backbone_def quiet_def kept(3) split: prod.split)

lemma drop_peer_quiet:
  assumes H: "keeps_rules H hr"
  shows "quiet hr x (drop_peer H p x e)"
  using kept(5) [OF H] by (auto simp: drop_peer_def Let_def quiet_def note_err_def case_prod_beta split: option.split)

lemma want_peer_quiet:
  assumes H: "keeps_rules H hr"
  shows "quiet hr x (want_peer H x e)"
  using kept(4) [OF H] by (auto simp: want_peer_def quiet_def note_err_def case_prod_beta split: option.split bool.split)

lemma drop_return_quiet:
  assumes H: "keeps_rules H hr"
  shows "quiet hr x (drop_return H p x e)"
  using kept(13) [OF H] by (auto simp: drop_return_def Let_def quiet_def note_err_def case_prod_beta)

lemma want_return_quiet:
  assumes H: "keeps_rules H hr"
  shows "quiet hr x (want_return H x e)"
  using kept(12) [OF H] by (auto simp: want_return_def quiet_def note_err_def case_prod_beta split: option.split bool.split)

lemma drop_ipsec_quiet:
  assumes H: "keeps_rules H hr"
  shows "quiet hr x (drop_ipsec H p x e)"
proof -
  have "quiet hr x (unloadIPsec H e x)"
    unfolding unloadIPsec_def Let_def case_prod_beta ignoreIPsecNotFound_def
    by (rule quiet_trans [OF _ quiet_foldl]) (simp_all add: quiet_note, simp add: quiet_def kept [OF H])
  then show ?thesis by (simp add: drop_ipsec_def Let_def case_prod_beta quiet_def)
qed

lemma drop_here_quiet:
  assumes H: "keeps_rules H hr"
  shows "quiet hr x (drop_here H p x e)"
  using kept(13) [OF H] by (auto simp: drop_here_def Let_def quiet_def note_err_def case_prod_beta)

lemma want_ipsec_quiet:
  assumes H: "keeps_rules H hr"
  shows "quiet hr x (want_ipsec H cfg x e)"
  using kept [OF H] by (auto simp: want_ipsec_def Let_def quiet_def note_err_def case_prod_beta)

lemma want_here_quiet:
  assumes H: "keeps_rules H hr"
  shows "quiet hr x (want_here H x e)"
  using kept(12) [OF H] by (auto simp: want_here_def quiet_def note_err_def case_prod_beta split: bool.split)

lemma ipsec_quiet:
  assumes H: "keeps_rules H hr"
  shows "quiet hr x (removeIPsecLocked H p x)" "quiet hr x (addIPsecLocked H cfg p x)"
  unfolding removeIPsecLocked_def addIPsecLocked_def Let_def
  by (intro quiet_then_foldl quiet_refl drop_ipsec_quiet drop_here_quiet want_ipsec_quiet want_here_quiet H)+

text \<open>\<^verbatim>\<open>apply\<close>, as the part before the gate, the gate, the rules, and the rest.\<close>

definition before_gate :: "'h host \<Rightarrow> AgentConfig \<Rightarrow> Plan \<Rightarrow> 'h run \<Rightarrow> 'h run" where
  "before_gate H cfg p x =
     (let x = probe_step H cfg (foldl (want_backbone H cfg p) (foldl (drop_backbone H p) x (backbones (ag x))) (BackboneIDs p))
      in foldl (want_peer H) (foldl (drop_peer H p) x (peers (ag x))) (Peers p))"

definition set_forward :: "'h host \<Rightarrow> Plan \<Rightarrow> 'h run \<Rightarrow> 'h run" where
  "set_forward H p x = foldl (want_forward H) (foldl (drop_forward H p) x (forward (ag x))) (Forward_to p)"

definition after_rules :: "'h host \<Rightarrow> AgentConfig \<Rightarrow> Plan \<Rightarrow> 'h run \<Rightarrow> 'h run" where
  "after_rules H cfg p x =
     (let on = (acIPsec cfg \<and> Has (acRoles cfg) RoleAccess);
          x = (if on then removeIPsecLocked H p x else x);
          x = foldl (want_return H) (foldl (drop_return H p) x (ret (ag x))) (Return_via p);
          x = (if on then addIPsecLocked H cfg p x else x)
      in x\<lparr>ag := traceMovesLocked p (ag x)\<rparr>)"

lemma apply_plan_split:
  "apply_plan H cfg p a h =
     (let x = before_gate H cfg p \<lparr>ag = a, hs = h, errs = []\<rparr>
      in after_rules H cfg p (set_forward H p (x\<lparr>ag := gate_plan p (ag x)\<rparr>)))"
  by (simp add: apply_plan_def before_gate_def set_forward_def after_rules_def Let_def)

lemma before_gate_quiet: "keeps_rules H hr \<Longrightarrow> quiet hr x (before_gate H cfg p x)"
  unfolding before_gate_def Let_def
  by (intro quiet_then_foldl quiet_trans [OF _ probe_step_quiet] quiet_refl drop_backbone_quiet want_backbone_quiet drop_peer_quiet want_peer_quiet)

lemma after_rules_quiet: "keeps_rules H hr \<Longrightarrow> quiet hr x (after_rules H cfg p x)"
proof -
  assume H: "keeps_rules H hr"
  have trace: "quiet hr y (y\<lparr>ag := traceMovesLocked p (ag y)\<rparr>)" for y by (simp add: quiet_def traceMovesLocked_def)
  have ret: "quiet hr y (foldl (want_return H) (foldl (drop_return H p) y (ret (ag y))) (Return_via p))" for y
    by (intro quiet_then_foldl quiet_refl drop_return_quiet want_return_quiet H)
  have rem: "quiet hr y (if b then removeIPsecLocked H p y else y)" for b y using ipsec_quiet [OF H] by simp
  have add: "quiet hr y (if b then addIPsecLocked H cfg p y else y)" for b y using ipsec_quiet [OF H] by simp
  show ?thesis unfolding after_rules_def Let_def by (rule quiet_trans [OF quiet_trans [OF quiet_trans [OF rem ret] add] trace])
qed

text \<open>Plans applied one after the other, with the errors each returned.\<close>

fun apply_all :: "'h host \<Rightarrow> AgentConfig \<Rightarrow> Plan list \<Rightarrow> Agent \<Rightarrow> 'h \<Rightarrow> Agent \<times> 'h \<times> string list list" where
  "apply_all H cfg [] a h = (a, h, [])"
| "apply_all H cfg (p # ps) a h =
     (let x = apply_plan H cfg p a h in
      case apply_all H cfg ps (ag x) (hs x) of (a', h', lg) \<Rightarrow> (a', h', errs x # lg))"

section \<open>A simulated host\<close>

text \<open>A host whose rules are the commands' arguments, and whose next \<open>k\<close> deletions of a rule fail.\<close>

definition sim_ip :: "string list \<Rightarrow> string list list \<times> nat \<Rightarrow> ipRes \<times> (string list list \<times> nat)" where
  "sim_ip args h = (case h of (rs, k) \<Rightarrow>
     if take 2 args = [''rule'', ''add''] then (IpOk, (drop 2 args # rs, k))
     else if take 2 args = [''rule'', ''del''] then (if k = 0 then (IpOk, (removeAll (drop 2 args) rs, 0)) else (IpErr, (rs, k - 1)))
     else (IpOk, h))"

definition sim_host :: "(string list list \<times> nat) host" where
  "sim_host = \<lparr>hostIP = sim_ip, rpFilter = \<lambda>_ h. (True, h), newReal = \<lambda>_ h. (True, h), closeDev = \<lambda>_ h. h,
     addPeer = \<lambda>_ _ _ _ _ h. (True, h), removePeer = \<lambda>_ _ h. (True, h), listenPort = \<lambda>_ _. None, handshaked = \<lambda>_ _ _. False,
     setTargets = \<lambda>_ h. (True, h), LoadConn = \<lambda>_ h. (IkeOk, h), UnloadConn = \<lambda>_ h. (IkeOk, h), LoadShared = \<lambda>_ h. (IkeOk, h),
     UnloadShared = \<lambda>_ h. (IkeOk, h), TerminateIKE = \<lambda>_ h. (IkeOk, h)\<rparr>"

definition sim_cfg :: AgentConfig where
  "sim_cfg = \<lparr>acID = ''a'', acRoles = RoleAccess, acMTU = 1380, acNodeIP = Addr4 0x0A000001, acProbePort = 7000, acIPsec = False\<rparr>"

end
