(* ===== verification/GatewayFence.thy ===== *)
theory GatewayFence
  imports GatewayAgent
begin

text \<open>
  The fence map the packet path of \<^verbatim>\<open>internal/gateway/agent.go\<close> reads (\<^verbatim>\<open>admit\<close>, \<^verbatim>\<open>updateFenceLocked\<close>) against
  the epoch gate it is copied from.
\<close>

section \<open>The fence is the gate\<close>

text \<open>The session names the controller gives out: an identifier in decimal.\<close>

definition session_name :: "string \<Rightarrow> bool" where
  "session_name s = (case ParseUint s of Some i \<Rightarrow> FormatUint i = s | None \<Rightarrow> False)"

definition fence_part :: "Agent \<Rightarrow> EpochGate \<times> (u64, u64) gomap \<times> (string, u64) gomap" where
  "fence_part a = (gate a, fence a, fenced a)"

lemma quiet_fence_part: "quiet hr x y \<Longrightarrow> fence_part (ag y) = fence_part (ag x)"
  by (simp add: quiet_def fence_part_def)

lemma keeps_nothing: "keeps_rules H (\<lambda>_. ())"
  by (simp add: keeps_rules_def keeps_def)

lemma indexLocked_fence_part:
  assumes "indexLocked H i a h = (n, ok, a', h')"
  shows "fence_part a' = fence_part a"
proof -
  note q = indexLocked_quiet(2) [OF keeps_nothing assms]
  have "gate a' = gate a" "fence a' = fence a" "fenced a' = fenced a" by (subst q, simp)+
  then show ?thesis by (simp add: fence_part_def)
qed

lemma set_forward_fence_part: "fence_part (ag (set_forward H p x)) = fence_part (ag x)"
proof -
  have drop: "fence_part (ag (drop_forward H p x e)) = fence_part (ag x)" for x e
    by (auto simp: drop_forward_def Let_def note_err_def fence_part_def case_prod_beta)
  have want: "fence_part (ag (want_forward H x e)) = fence_part (ag x)" for x e
  proof -
    obtain n ok a h where i: "indexLocked H (snd e) (ag x) (hs x) = (n, ok, a, h)" by (metis prod_cases4)
    obtain ok2 h2 where r: "addRule H (ruleFrom (fst e) (egressTableBase + n)) h = (ok2, h2)" by (metis surj_pair)
    show ?thesis using indexLocked_fence_part [OF i]
      by (cases ok2) (simp_all add: want_forward_def note_err_def case_prod_beta i r fence_part_def)
  qed
  have "fence_part (ag (foldl (drop_forward H p) x es)) = fence_part (ag x)" for es by (induction es arbitrary: x) (simp_all add: drop)
  moreover have "fence_part (ag (foldl (want_forward H) x es)) = fence_part (ag x)" for x es by (induction es arbitrary: x) (simp_all add: want)
  ultimately show ?thesis by (simp add: set_forward_def)
qed

lemma before_gate_fence_part: "fence_part (ag (before_gate H cfg p x)) = fence_part (ag x)"
  by (rule quiet_fence_part [OF before_gate_quiet [OF keeps_nothing]])

lemma after_rules_fence_part: "fence_part (ag (after_rules H cfg p x)) = fence_part (ag x)"
  by (rule quiet_fence_part [OF after_rules_quiet [OF keeps_nothing]])

lemma apply_plan_fence_part: "\<exists>a'. fence_part (ag (apply_plan H cfg p a h)) = fence_part (gate_plan p a') \<and> fence_part a' = fence_part a"
  by (intro exI [of _ "ag (before_gate H cfg p \<lparr>ag = a, hs = h, errs = []\<rparr>)"])
    (simp add: apply_plan_split Let_def after_rules_fence_part set_forward_fence_part before_gate_fence_part)

lemma fence_session_fold:
  "gate (foldl fence_session a ss) = gate a"
  "mget (fenced (foldl fence_session a ss)) s =
     (case mget (fenced a) s of Some i \<Rightarrow> Some i | None \<Rightarrow> if s \<in> set ss then ParseUint s else None)"
  by (induction ss arbitrary: a) (auto simp: fence_session_def split: option.splits)

lemma fence_entry_fold:
  "\<forall>(s, i) \<in> set es. s = FormatUint i \<Longrightarrow>
     mget (foldl (fence_entry g) m es) i =
       (if (FormatUint i, i) \<in> set es \<and> Known (FormatUint i) g \<noteq> None then Known (FormatUint i) g else mget m i)"
  by (induction es arbitrary: m) (auto simp: fence_entry_def FormatUint_inject split: option.splits if_splits)

lemma gate_fold: "foldl (\<lambda>g (s, e). Update s e g) g es = gate.raise_all es g"
  by (induction es arbitrary: g) auto

lemma Known_raise_all: "Known s (gate.raise_all es g) = None \<longleftrightarrow> Known s g = None \<and> s \<notin> fst ` set es"
  by (induction es arbitrary: g) (force simp: Known_Update split: if_splits)+

text \<open>Every session the gate knows is fenced under its number, and the fence holds the gate's epoch.\<close>

definition fence_ok :: "Agent \<Rightarrow> bool" where
  "fence_ok a \<longleftrightarrow> mwf (fenced a)
     \<and> (\<forall>s i. mget (fenced a) s = Some i \<longrightarrow> s = FormatUint i)
     \<and> (\<forall>s. Known s (gate a) \<noteq> None \<longrightarrow> mget (fenced a) s \<noteq> None)
     \<and> (\<forall>i. mget (fence a) i = Known (FormatUint i) (gate a))"

lemma fence_ok_cong: "fence_part a = fence_part b \<Longrightarrow> fence_ok a = fence_ok b"
  by (simp add: fence_part_def fence_ok_def)

lemma session_name_iff: "session_name s \<longleftrightarrow> (\<exists>i. s = FormatUint i)"
  by (auto simp: session_name_def split: option.splits)

lemma mwf_fence_session: "mwf (fenced a) \<Longrightarrow> mwf (fenced (foldl fence_session a ss))"
  by (induction ss arbitrary: a) (auto simp: fence_session_def split: option.splits)

lemma gate_plan_gate: "gate (gate_plan p a) = gate.raise_all (Epochs p) (gate a)"
  by (simp add: gate_plan_def updateFenceLocked_def Let_def fence_session_fold gate_fold)

lemma gate_plan_fence_ok:
  assumes ok: "fence_ok a" and names: "list_all session_name (mkeys (Epochs p))"
  shows "fence_ok (gate_plan p a)"
proof -
  let ?g = "gate.raise_all (Epochs p) (gate a)"
  let ?b = "foldl fence_session (a\<lparr>gate := ?g\<rparr>) (mkeys (Epochs p))"
  have eq: "gate (gate_plan p a) = ?g" "fenced (gate_plan p a) = fenced ?b" "fence (gate_plan p a) = foldl (fence_entry ?g) [] (fenced ?b)"
    by (simp_all add: gate_plan_def updateFenceLocked_def Let_def fence_session_fold gate_fold)
  have canon: "\<exists>i. s = FormatUint i" if "s \<in> set (mkeys (Epochs p))" for s
    using names that by (auto simp: list_all_iff session_name_iff)
  have wf: "mwf (fenced ?b)" using ok by (simp add: fence_ok_def mwf_fence_session)
  have b: "mget (fenced ?b) s = (case mget (fenced a) s of Some i \<Rightarrow> Some i | None \<Rightarrow> if s \<in> set (mkeys (Epochs p)) then ParseUint s else None)" for s
    by (simp add: fence_session_fold)
  have f: "s = FormatUint i" if "mget (fenced ?b) s = Some i" for s i
  proof (cases "mget (fenced a) s")
    case None
    with that b [of s] canon [of s] show ?thesis by (auto split: if_splits)
  next
    case (Some i')
    with that b [of s] ok show ?thesis by (simp add: fence_ok_def)
  qed
  have all: "mget (fenced ?b) s \<noteq> None" if "Known s ?g \<noteq> None" for s
  proof (cases "mget (fenced a) s")
    case None
    then have "Known s (gate a) = None" using ok by (auto simp: fence_ok_def)
    with that have "s \<in> set (mkeys (Epochs p))" by (simp add: Known_raise_all)
    with None b [of s] canon [of s] show ?thesis by auto
  qed (use b [of s] in simp)
  have es: "\<forall>(s, i) \<in> set (fenced ?b). s = FormatUint i" using f wf by (auto simp: mget_iff_mem)
  have mem: "(FormatUint i, i) \<in> set (fenced ?b) \<longleftrightarrow> mget (fenced ?b) (FormatUint i) \<noteq> None" for i
    using f [of "FormatUint i"] wf by (auto simp: mget_iff_mem FormatUint_inject)
  have "mget (foldl (fence_entry ?g) [] (fenced ?b)) i = Known (FormatUint i) ?g" for i
    using all [of "FormatUint i"] by (cases "Known (FormatUint i) ?g") (simp_all add: fence_entry_fold [OF es] mem)
  with wf f all show ?thesis unfolding fence_ok_def eq by blast
qed

lemma apply_all_gate:
  "apply_all H cfg ps a h = (a', h', lg) \<Longrightarrow> fence_ok a \<Longrightarrow> \<forall>p\<in>set ps. list_all session_name (mkeys (Epochs p)) \<Longrightarrow>
     fence_ok a' \<and> gate a' = gate.raise_all (concat (map Epochs ps)) (gate a)"
proof (induction ps arbitrary: a h lg)
  case (Cons p ps)
  let ?x = "apply_plan H cfg p a h"
  obtain b where b: "fence_part (ag ?x) = fence_part (gate_plan p b)" "fence_part b = fence_part a" using apply_plan_fence_part [of H cfg p a h] by blast
  have "fence_ok b" using Cons.prems(2) fence_ok_cong [OF b(2)] by simp
  then have ok: "fence_ok (ag ?x)" using gate_plan_fence_ok [of b p] fence_ok_cong [OF b(1)] Cons.prems(3) by simp
  have g: "gate (ag ?x) = gate.raise_all (Epochs p) (gate a)" using b by (simp add: fence_part_def gate_plan_gate)
  obtain lg' where "apply_all H cfg ps (ag ?x) (hs ?x) = (a', h', lg')" using Cons.prems(1) by (auto simp: Let_def split: prod.splits)
  from Cons.IH [OF this ok] Cons.prems(3) show ?case by (simp add: g gate.raise_all_def)
qed (simp add: gate.raise_all_def)

text \<open>
  The packet path's fence is the epoch gate: after any sequence of plans whose sessions carry decimal
  identifiers, on any host and whatever fails on it, a packet is let through exactly when the gate admits
  its session and epoch, which is when it carries no session or its 32-bit epoch is not below any epoch
  an applied plan gave that session. (C24)
\<close>

theorem fence_refines_gate:
  assumes "apply_all H cfg ps NewAgent h = (a, h', lg)" and "\<forall>p\<in>set ps. list_all session_name (mkeys (Epochs p))"
  shows "admit a pkt = (SessionID pkt = 0 \<or> Admit (FormatUint (SessionID pkt)) (ucast (Epoch pkt)) (gate a))
    \<and> admit a pkt = (SessionID pkt = 0 \<or>
      (\<forall>p\<in>set ps. \<forall>(s, e)\<in>set (Epochs p). s = FormatUint (SessionID pkt) \<longrightarrow> e \<le> ucast (Epoch pkt)))"
proof (intro conjI)
  have "fence_ok NewAgent" by (simp add: fence_ok_def NewAgent_def NewEpochGate_def Known_def)
  then have ok: "fence_ok a" and g: "gate a = gate.raise_all (concat (map Epochs ps)) NewEpochGate"
    using apply_all_gate [OF assms(1) _ assms(2)] by (simp_all add: NewAgent_def)
  show 1: "admit a pkt = (SessionID pkt = 0 \<or> Admit (FormatUint (SessionID pkt)) (ucast (Epoch pkt)) (gate a))"
    using ok by (auto simp: fence_ok_def admit_def Admit_def Known_def not_less split: option.splits)
  show "admit a pkt = (SessionID pkt = 0 \<or>
      (\<forall>p\<in>set ps. \<forall>(s, e)\<in>set (Epochs p). s = FormatUint (SessionID pkt) \<longrightarrow> e \<le> ucast (Epoch pkt)))"
    unfolding 1 g gate.admit_raise_all by (auto simp: Admit_def NewEpochGate_def)
qed

definition sim_packet :: "u64 \<Rightarrow> u32 \<Rightarrow> SessionHeader" where
  "sim_packet s e = \<lparr>Version = Version1, Type = PacketTypeData, hDirection = DirUpstream, SessionID = s, Epoch = e, SessionSeq = 1\<rparr>"

theorem fence_refines_gate_witness:
  "\<exists>a h' lg. apply_all sim_host sim_cfg [emptyPlan\<lparr>Epochs := [(FormatUint 7, 3)]\<rparr>] NewAgent ([], 0) = (a, h', lg)
     \<and> \<not> admit a (sim_packet 7 2) \<and> admit a (sim_packet 7 3)
     \<and> admit a (sim_packet 8 0)"
proof -
  let ?p = "emptyPlan\<lparr>Epochs := [(FormatUint 7, 3)]\<rparr>"
  obtain a h' lg where r: "apply_all sim_host sim_cfg [?p] NewAgent ([], 0) = (a, h', lg)" by (metis prod_cases3)
  have "\<forall>p\<in>set [?p]. list_all session_name (mkeys (Epochs p))" by (simp add: session_name_def)
  note f = fence_refines_gate [OF r this, THEN conjunct2]
  show ?thesis using r by (intro exI [of _ a] exI [of _ h'] exI [of _ lg]) (simp add: f sim_packet_def FormatUint_inject)
qed

end
