(* ===== verification/GatewayForward.thy ===== *)
theory GatewayForward
  imports GatewayAgent
begin

text \<open>
  The forwarding rules \<^verbatim>\<open>apply\<close> of \<^verbatim>\<open>internal/gateway/agent.go\<close> keeps on the host against those of the plan.
\<close>

section \<open>The forwarding rules\<close>

definition rules_of :: "Agent \<Rightarrow> (Addr \<times> nat) set" where
  "rules_of a = {(vip, egressTableBase + n) | vip eg n. mget (forward a) vip = Some eg \<and> mget (index a) eg = Some n}"

text \<open>
  The agent's record of the rules is sound: each goes to a named gateway that has a table, and as long
  as no deletion has failed (\<open>b\<close>: none in an earlier plan) the host has exactly the recorded rules.
\<close>

definition sound :: "Agent \<Rightarrow> bool" where
  "sound a \<longleftrightarrow> mwf (forward a) \<and> (\<forall>vip eg. mget (forward a) vip = Some eg \<longrightarrow> Is4 vip \<and> eg \<noteq> [] \<and> mget (index a) eg \<noteq> None)"

definition fwd_ok :: "('h \<Rightarrow> (Addr \<times> nat) set) \<Rightarrow> bool \<Rightarrow> 'h run \<Rightarrow> bool" where
  "fwd_ok hr b x \<longleftrightarrow> sound (ag x) \<and> (b \<and> ''delete rule'' \<notin> set (errs x) \<longrightarrow> hr (hs x) = rules_of (ag x))"

lemma map_le_get: "map_of m \<subseteq>\<^sub>m map_of m' \<Longrightarrow> mget m k = Some v \<Longrightarrow> mget m' k = Some v"
  by (force simp: map_le_def)

lemma rules_of_ext:
  assumes "forward b = forward a" "map_of (index a) \<subseteq>\<^sub>m map_of (index b)"
    "\<forall>vip eg. mget (forward a) vip = Some eg \<longrightarrow> mget (index a) eg \<noteq> None"
  shows "rules_of b = rules_of a"
proof -
  have k: "mget (forward a) vip = Some eg \<and> mget (index b) eg = Some n \<longleftrightarrow> mget (forward a) vip = Some eg \<and> mget (index a) eg = Some n" for vip eg n
    using map_le_get [OF assms(2), of eg] assms(3) [rule_format, of vip eg] by (cases "mget (index a) eg") auto
  show ?thesis unfolding rules_of_def assms(1) k ..
qed

lemma soundD:
  assumes "sound a" "mget (forward a) vip = Some eg"
  shows "Is4 vip" "eg \<noteq> []" "\<exists>n. mget (index a) eg = Some n"
proof -
  have "Is4 vip \<and> eg \<noteq> [] \<and> mget (index a) eg \<noteq> None" using assms unfolding sound_def by blast
  then show "Is4 vip" "eg \<noteq> []" "\<exists>n. mget (index a) eg = Some n" by auto
qed

lemma soundI: "mwf (forward a) \<Longrightarrow> (\<And>vip eg. mget (forward a) vip = Some eg \<Longrightarrow> Is4 vip \<and> eg \<noteq> [] \<and> (\<exists>n. mget (index a) eg = Some n)) \<Longrightarrow> sound a"
  unfolding sound_def by blast

lemma sound_ext: "forward b = forward a \<Longrightarrow> map_of (index a) \<subseteq>\<^sub>m map_of (index b) \<Longrightarrow> sound a \<Longrightarrow> sound b"
proof (intro soundI)
  fix vip eg
  assume a: "forward b = forward a" "map_of (index a) \<subseteq>\<^sub>m map_of (index b)" "sound a" "mget (forward b) vip = Some eg"
  then have e: "mget (forward a) vip = Some eg" by simp
  obtain n where "mget (index a) eg = Some n" using soundD(3) [OF a(3) e] ..
  then show "Is4 vip \<and> eg \<noteq> [] \<and> (\<exists>n. mget (index b) eg = Some n)"
    using soundD(1,2) [OF a(3) e] map_le_get [OF a(2)] by blast
qed (simp add: sound_def)

lemma sound_del: "sound a \<Longrightarrow> sound (a\<lparr>forward := mdel vip (forward a)\<rparr>)"
  by (intro soundI) (simp add: sound_def, use soundD [of a] in \<open>simp split: if_splits\<close>)

lemma sound_put: "sound a \<Longrightarrow> Is4 vip \<Longrightarrow> eg \<noteq> [] \<Longrightarrow> mget (index a) eg = Some n \<Longrightarrow> sound (a\<lparr>forward := mput vip eg (forward a)\<rparr>)"
  by (intro soundI) (simp add: sound_def, use soundD [of a] in \<open>auto split: if_splits\<close>)

lemma quiet_fwd_ok:
  assumes "quiet hr x y" "fwd_ok hr b x"
  shows "fwd_ok hr b y"
proof -
  have q: "forward (ag y) = forward (ag x)" "map_of (index (ag x)) \<subseteq>\<^sub>m map_of (index (ag y))" "hr (hs y) = hr (hs x)"
    "''delete rule'' \<in> set (errs x) \<longrightarrow> ''delete rule'' \<in> set (errs y)"
    using assms(1) by (auto simp: quiet_def)
  have s: "sound (ag x)" using assms(2) by (simp add: fwd_ok_def)
  have "rules_of (ag y) = rules_of (ag x)" using soundD [OF s] by (intro rules_of_ext q) blast
  then show ?thesis using assms(2) sound_ext [OF q(1,2) s] q(3,4) by (auto simp: fwd_ok_def)
qed

lemma delRule_effect:
  assumes "rule_cmds H hr" "Is4 vip" "delRule H (ruleFrom vip t) h = (ok, h')"
  shows "hr h' = (if ok then hr h - {(vip, t)} else hr h)"
proof -
  obtain r h1 where "hostIP H (''rule'' # ''del'' # ruleFrom vip t) h = (r, h1)" by (metis surj_pair)
  with assms(3) assms(1) [unfolded rule_cmds_def, rule_format, OF assms(2), of t h] show ?thesis
    by (auto simp: delRule_def ipIgnore_def)
qed

lemma addRule_effect:
  assumes "rule_cmds H hr" "Is4 vip" "addRule H (ruleFrom vip t) h = (ok, h')"
  shows "hr h' = (if ok then insert (vip, t) (hr h) else hr h)"
proof -
  obtain r h1 where "hostIP H (''rule'' # ''add'' # ruleFrom vip t) h = (r, h1)" by (metis surj_pair)
  with assms(3) assms(1) [unfolded rule_cmds_def, rule_format, OF assms(2), of t h] show ?thesis
    by (auto simp: addRule_def ipIgnore_def)
qed

lemma drop_forward_step:
  assumes H: "rule_cmds H hr" and ok: "fwd_ok hr b x" and e: "mget (forward (ag x)) vip = Some eg"
  shows "fwd_ok hr b (drop_forward H p x (vip, eg))"
    "mget (forward (ag (drop_forward H p x (vip, eg)))) =
       (if mget (Forward_to p) vip = Some eg then mget (forward (ag x)) else (mget (forward (ag x)))(vip := None))"
    "\<exists>es. errs (drop_forward H p x (vip, eg)) = errs x @ es"
proof -
  have s: "sound (ag x)" using ok by (simp add: fwd_ok_def)
  note eg = soundD(2,1) [OF s e]
  then have same: "(case mget (Forward_to p) vip of None \<Rightarrow> [] | Some g \<Rightarrow> g) = eg \<longleftrightarrow> mget (Forward_to p) vip = Some eg"
    by (auto split: option.split)
  obtain n where n: "mget (index (ag x)) eg = Some n" using soundD(3) [OF s e] ..
  obtain d h' where d: "delRule H (ruleFrom vip (egressTableBase + n)) (hs x) = (d, h')" by (metis surj_pair)
  let ?y = "drop_forward H p x (vip, eg)"
  have y: "?y = (if mget (Forward_to p) vip = Some eg then x
     else (note_err ''delete rule'' d (x\<lparr>hs := h'\<rparr>))\<lparr>ag := (ag x)\<lparr>forward := mdel vip (forward (ag x))\<rparr>\<rparr>)"
    by (simp add: drop_forward_def same n d Let_def note_err_def)
  have r: "rules_of ((ag x)\<lparr>forward := mdel vip (forward (ag x))\<rparr>) = rules_of (ag x) - {(vip, egressTableBase + n)}"
    using e n by (auto simp: rules_of_def) (metis option.inject)
  show "mget (forward (ag ?y)) = (if mget (Forward_to p) vip = Some eg then mget (forward (ag x)) else (mget (forward (ag x)))(vip := None))"
    by (auto simp: y)
  show "\<exists>es. errs ?y = errs x @ es" by (simp add: y note_err_def)
  show "fwd_ok hr b ?y"
    using ok delRule_effect [OF H eg(2) d] r sound_del [OF s] unfolding y by (cases d) (auto simp: fwd_ok_def note_err_def)
qed

lemma want_forward_step:
  assumes H: "keeps_rules H hr" "rule_cmds H hr" and ok: "fwd_ok hr b x" and eg: "eg \<noteq> []" "Is4 vip"
  shows "fwd_ok hr b (want_forward H x (vip, eg))"
    "errs (want_forward H x (vip, eg)) = [] \<Longrightarrow> mget (forward (ag (want_forward H x (vip, eg)))) =
       (mget (forward (ag x)))(vip \<mapsto> (case mget (forward (ag x)) vip of None \<Rightarrow> eg | Some g \<Rightarrow> g))"
    "\<exists>es. errs (want_forward H x (vip, eg)) = errs x @ es"
proof -
  let ?y = "want_forward H x (vip, eg)"
  obtain n i a h where i: "indexLocked H eg (ag x) (hs x) = (n, i, a, h)" by (metis prod_cases4)
  note q = indexLocked_quiet [OF H(1) i]
  have f: "forward a = forward (ag x)" by (subst q(2), simp)
  obtain d h' where d: "addRule H (ruleFrom vip (egressTableBase + n)) h = (d, h')" by (metis surj_pair)
  have y: "?y = (if mget (forward (ag x)) vip \<noteq> None then x
     else if \<not> i then note_err ''table'' False (x\<lparr>ag := a, hs := h\<rparr>)
     else if \<not> d then note_err ''add rule'' False (x\<lparr>ag := a, hs := h'\<rparr>)
     else x\<lparr>ag := a\<lparr>forward := mput vip eg (forward a)\<rparr>, hs := h'\<rparr>)"
    by (auto simp: want_forward_def i d)
  show "errs ?y = [] \<Longrightarrow> mget (forward (ag ?y)) = (mget (forward (ag x)))(vip \<mapsto> (case mget (forward (ag x)) vip of None \<Rightarrow> eg | Some g \<Rightarrow> g))"
    by (auto simp: y note_err_def f split: if_splits)
  show "\<exists>es. errs ?y = errs x @ es" by (simp add: y note_err_def)
  have s: "sound (ag x)" using ok by (simp add: fwd_ok_def)
  have sa: "sound a" by (rule sound_ext [OF f q(3) s])
  have r: "rules_of a = rules_of (ag x)" using soundD [OF s] by (intro rules_of_ext [OF f q(3)]) blast
  have r2: "rules_of (a\<lparr>forward := mput vip eg (forward a)\<rparr>) = insert (vip, egressTableBase + n) (rules_of a)"
    if "mget (forward (ag x)) vip = None" using that q(4) by (auto simp: rules_of_def f)
  note add = addRule_effect [OF H(2) eg(2) d]
  show "fwd_ok hr b ?y"
  proof (cases "mget (forward (ag x)) vip = None \<and> i \<and> d")
    case True
    then have "?y = x\<lparr>ag := a\<lparr>forward := mput vip eg (forward a)\<rparr>, hs := h'\<rparr>" by (simp add: y)
    moreover have "hr h' = insert (vip, egressTableBase + n) (hr (hs x))" using add q(1) True by simp
    ultimately show ?thesis using ok sound_put [OF sa eg(2,1) q(4)] r r2 True by (simp add: fwd_ok_def)
  next
    case False
    then show ?thesis using ok sa r q(1) add unfolding y by (auto simp: fwd_ok_def note_err_def)
  qed
qed

lemma drop_forward_fold:
  assumes H: "rule_cmds H hr"
  shows "fwd_ok hr b x \<Longrightarrow> mwf es \<Longrightarrow> \<forall>(vip, eg)\<in>set es. mget (forward (ag x)) vip = Some eg \<Longrightarrow>
     fwd_ok hr b (foldl (drop_forward H p) x es) \<and> (\<exists>l. errs (foldl (drop_forward H p) x es) = errs x @ l)
     \<and> (\<forall>vip. mget (forward (ag (foldl (drop_forward H p) x es))) vip =
         (if vip \<in> fst ` set es \<and> mget (Forward_to p) vip \<noteq> mget (forward (ag x)) vip then None else mget (forward (ag x)) vip))"
proof (induction es arbitrary: x)
  case (Cons e es)
  obtain vip eg where e: "e = (vip, eg)" by (cases e)
  let ?y = "drop_forward H p x (vip, eg)"
  have m: "mget (forward (ag x)) vip = Some eg" using Cons.prems(3) by (simp add: e)
  note st = drop_forward_step [OF H Cons.prems(1) m, of p]
  have "\<forall>(v, g)\<in>set es. mget (forward (ag ?y)) v = Some g"
  proof clarify
    fix v g assume v: "(v, g) \<in> set es"
    then have "v \<noteq> vip" using Cons.prems(2) by (force simp: e)
    with v Cons.prems(3) show "mget (forward (ag ?y)) v = Some g" by (auto simp: st(2))
  qed
  with Cons.IH [OF st(1)] Cons.prems(2) st(3) show ?case
    by (auto simp: e st(2) m image_iff)
qed simp

lemma want_forward_fold:
  assumes H: "keeps_rules H hr" "rule_cmds H hr"
  shows "fwd_ok hr b x \<Longrightarrow> \<forall>(vip, eg)\<in>set es. eg \<noteq> [] \<and> Is4 vip \<and> w vip = Some eg \<Longrightarrow>
     fwd_ok hr b (foldl (want_forward H) x es) \<and> (\<exists>l. errs (foldl (want_forward H) x es) = errs x @ l)
     \<and> (errs (foldl (want_forward H) x es) = [] \<longrightarrow> mget (forward (ag x)) \<subseteq>\<^sub>m w \<longrightarrow>
          mget (forward (ag (foldl (want_forward H) x es))) = (\<lambda>vip. if vip \<in> fst ` set es then w vip else mget (forward (ag x)) vip))"
proof (induction es arbitrary: x)
  case (Cons e es)
  obtain vip eg where e: "e = (vip, eg)" by (cases e)
  let ?y = "want_forward H x (vip, eg)"
  have p: "eg \<noteq> []" "Is4 vip" "w vip = Some eg" using Cons.prems(2) by (simp_all add: e)
  note st = want_forward_step [OF H Cons.prems(1) p(1,2)]
  have IH: "fwd_ok hr b (foldl (want_forward H) ?y es)" "\<exists>l. errs (foldl (want_forward H) ?y es) = errs ?y @ l"
    "errs (foldl (want_forward H) ?y es) = [] \<longrightarrow> mget (forward (ag ?y)) \<subseteq>\<^sub>m w \<longrightarrow>
       mget (forward (ag (foldl (want_forward H) ?y es))) = (\<lambda>vip. if vip \<in> fst ` set es then w vip else mget (forward (ag ?y)) vip)"
    using Cons.IH [OF st(1)] Cons.prems(2) by auto
  have y: "mget (forward (ag ?y)) = (mget (forward (ag x)))(vip \<mapsto> eg)" if "errs ?y = []" "mget (forward (ag x)) \<subseteq>\<^sub>m w"
  proof -
    have "mget (forward (ag x)) vip = Some g \<Longrightarrow> g = eg" for g using that(2) p(3) by (force simp: map_le_def)
    then show ?thesis by (auto simp: st(2) [OF that(1)] split: option.split)
  qed
  have "mget (forward (ag (foldl (want_forward H) x (e # es)))) =
      (\<lambda>v. if v \<in> fst ` set (e # es) then w v else mget (forward (ag x)) v)"
    if z: "errs (foldl (want_forward H) x (e # es)) = []" and le: "mget (forward (ag x)) \<subseteq>\<^sub>m w"
  proof -
    have z': "errs (foldl (want_forward H) ?y es) = []" "errs ?y = []" using z IH(2) by (auto simp: e)
    note y' = y [OF z'(2) le]
    have "mget (forward (ag ?y)) \<subseteq>\<^sub>m w" unfolding y' using le p(3) by (auto simp: map_le_def dom_def split: if_splits)
    then have "mget (forward (ag (foldl (want_forward H) ?y es))) = (\<lambda>v. if v \<in> fst ` set es then w v else mget (forward (ag ?y)) v)"
      using IH(3) z'(1) by blast
    then show ?thesis unfolding y' by (simp add: e p(3) fun_eq_iff)
  qed
  moreover have "\<exists>l. errs (foldl (want_forward H) x (e # es)) = errs x @ l" using IH(2) st(3) by (auto simp: e)
  ultimately show ?case using IH(1) by (simp add: e)
qed (auto simp: fun_eq_iff)

text \<open>Plans the controller can cause: one egress per virtual address, an IPv4 one, and named.\<close>

definition forward_plan :: "Plan \<Rightarrow> bool" where
  "forward_plan p \<longleftrightarrow> mwf (Forward_to p) \<and> list_all (\<lambda>(vip, eg). Is4 vip \<and> eg \<noteq> []) (Forward_to p)"

lemma set_forward_step:
  assumes H: "keeps_rules H hr" "rule_cmds H hr" and ok: "fwd_ok hr b x" and p: "forward_plan p"
  shows "fwd_ok hr b (set_forward H p x)" "errs (set_forward H p x) = [] \<Longrightarrow> mget (forward (ag (set_forward H p x))) = mget (Forward_to p)"
proof -
  let ?y = "foldl (drop_forward H p) x (forward (ag x))"
  have wf: "mwf (forward (ag x))" using ok by (simp add: fwd_ok_def sound_def)
  then have "\<forall>(vip, eg)\<in>set (forward (ag x)). mget (forward (ag x)) vip = Some eg" by auto
  from drop_forward_fold [OF H(2) ok wf this, of p]
  have y: "fwd_ok hr b ?y" "\<And>vip. mget (forward (ag ?y)) vip =
      (if vip \<in> fst ` set (forward (ag x)) \<and> mget (Forward_to p) vip \<noteq> mget (forward (ag x)) vip then None else mget (forward (ag x)) vip)"
    by blast+
  have le: "mget (forward (ag ?y)) \<subseteq>\<^sub>m mget (Forward_to p)"
    unfolding map_le_def
  proof
    fix v assume "v \<in> dom (mget (forward (ag ?y)))"
    then obtain g where g: "mget (forward (ag ?y)) v = Some g" by blast
    then have "mget (forward (ag x)) v = Some g" by (simp add: y(2) split: if_splits)
    then have "v \<in> fst ` set (forward (ag x))" by (rule mget_in [simplified])
    with g show "mget (forward (ag ?y)) v = mget (Forward_to p) v" by (simp add: y(2) split: if_splits)
  qed
  have ps: "\<forall>(vip, eg)\<in>set (Forward_to p). eg \<noteq> [] \<and> Is4 vip \<and> mget (Forward_to p) vip = Some eg"
    using p by (auto simp: forward_plan_def list_all_iff)
  note z = want_forward_fold [OF H y(1), of "Forward_to p" "mget (Forward_to p)", OF ps]
  show "fwd_ok hr b (set_forward H p x)" using z by (simp add: set_forward_def)
  assume "errs (set_forward H p x) = []"
  with z le have "mget (forward (ag (set_forward H p x))) = (\<lambda>v. if v \<in> fst ` set (Forward_to p) then mget (Forward_to p) v else mget (forward (ag ?y)) v)"
    by (simp add: set_forward_def)
  moreover have "mget (forward (ag ?y)) v = None" if "v \<notin> fst ` set (Forward_to p)" for v
    using that le by (metis domIff dom_map_of_conv_image_fst map_le_implies_dom_le subsetD)
  ultimately show "mget (forward (ag (set_forward H p x))) = mget (Forward_to p)"
    by (auto simp: fun_eq_iff map_of_eq_None_iff [symmetric] simp del: map_of_eq_None_iff)
qed

lemma gate_plan_sel: "forward (gate_plan p a) = forward a" "index (gate_plan p a) = index a"
proof -
  have "forward (foldl fence_session a ss) = forward a \<and> index (foldl fence_session a ss) = index a" for a ss
    by (induction ss arbitrary: a) (auto simp: fence_session_def split: option.split)
  then show "forward (gate_plan p a) = forward a" "index (gate_plan p a) = index a"
    by (simp_all add: gate_plan_def updateFenceLocked_def Let_def)
qed

lemma apply_plan_step:
  assumes H: "keeps_rules H hr" "rule_cmds H hr" and ok: "fwd_ok hr b \<lparr>ag = a, hs = h, errs = []\<rparr>" and p: "forward_plan p"
  shows "fwd_ok hr b (apply_plan H cfg p a h)"
    "errs (apply_plan H cfg p a h) = [] \<Longrightarrow> mget (forward (ag (apply_plan H cfg p a h))) = mget (Forward_to p)"
proof -
  let ?x = "before_gate H cfg p \<lparr>ag = a, hs = h, errs = []\<rparr>"
  let ?y = "?x\<lparr>ag := gate_plan p (ag ?x)\<rparr>" let ?z = "set_forward H p ?y"
  have "fwd_ok hr b ?x" by (rule quiet_fwd_ok [OF before_gate_quiet [OF H(1)] ok])
  then have y: "fwd_ok hr b ?y" by (simp add: fwd_ok_def sound_def rules_of_def gate_plan_sel)
  note z = set_forward_step [OF H y p]
  have e: "apply_plan H cfg p a h = after_rules H cfg p ?z" by (simp add: apply_plan_split Let_def)
  note q = after_rules_quiet [OF H(1), of ?z cfg p]
  show "fwd_ok hr b (apply_plan H cfg p a h)" unfolding e by (rule quiet_fwd_ok [OF q z(1)])
  assume "errs (apply_plan H cfg p a h) = []"
  with q have "errs ?z = []" "forward (ag (after_rules H cfg p ?z)) = forward (ag ?z)" by (auto simp: quiet_def e)
  with z(2) show "mget (forward (ag (apply_plan H cfg p a h))) = mget (Forward_to p)" by (simp add: e)
qed

lemma apply_all_snoc:
  "apply_all H cfg (ps @ [p]) a h =
     (case apply_all H cfg ps a h of (a1, h1, lg) \<Rightarrow> let x = apply_plan H cfg p a1 h1 in (ag x, hs x, lg @ [errs x]))"
  by (induction ps arbitrary: a h) (auto simp: Let_def split: prod.split)

lemma apply_all_fwd_ok:
  assumes H: "keeps_rules H hr" "rule_cmds H hr"
  shows "apply_all H cfg ps a h = (a', h', lg) \<Longrightarrow> \<forall>p\<in>set ps. forward_plan p \<Longrightarrow> fwd_ok hr b \<lparr>ag = a, hs = h, errs = []\<rparr> \<Longrightarrow>
     fwd_ok hr (b \<and> ''delete rule'' \<notin> set (concat lg)) \<lparr>ag = a', hs = h', errs = []\<rparr>"
proof (induction ps arbitrary: a' h' lg rule: rev_induct)
  case (snoc p ps)
  obtain a1 h1 l1 where 1: "apply_all H cfg ps a h = (a1, h1, l1)" by (metis prod_cases3)
  let ?x = "apply_plan H cfg p a1 h1"
  have ok: "fwd_ok hr (b \<and> ''delete rule'' \<notin> set (concat l1)) \<lparr>ag = a1, hs = h1, errs = []\<rparr>"
    by (rule snoc.IH [OF 1]) (use snoc.prems in auto)
  from apply_plan_step(1) [OF H ok, of p cfg] snoc.prems(1,2) show ?case
    by (auto simp: apply_all_snoc 1 Let_def fwd_ok_def)
qed simp

text \<open>
  Forwarding follows the plan: start with no rules and apply plans one after the other, on a host where
  anything may fail but a rule command that fails changes nothing. If no deletion of a rule ever failed
  and the last plan was applied without error, then the rules on the host are exactly one per virtual
  address the last plan forwards, into the table of the egress it names, and each such egress has a
  table. (C25)
\<close>

theorem forwarding_follows_plan:
  assumes "keeps_rules H hr" "rule_cmds H hr" "hr h = {}" "\<forall>q\<in>set (ps @ [p]). forward_plan q"
    and "apply_all H cfg (ps @ [p]) NewAgent h = (a, h', lg)" "''delete rule'' \<notin> set (concat lg)" "last lg = []"
  shows "hr h' = {(vip, egressTableBase + n) | vip eg n. mget (Forward_to p) vip = Some eg \<and> mget (index a) eg = Some n}
    \<and> (\<forall>vip eg. mget (Forward_to p) vip = Some eg \<longrightarrow> mget (index a) eg \<noteq> None)"
proof -
  have "fwd_ok hr True \<lparr>ag = NewAgent, hs = h, errs = []\<rparr>" using assms(3) by (simp add: fwd_ok_def sound_def rules_of_def NewAgent_def)
  note new = this
  from apply_all_fwd_ok [OF assms(1,2,5,4) new] assms(6)
  have ok: "sound a" "hr h' = rules_of a" by (simp_all add: fwd_ok_def)
  obtain a1 h1 l1 where 1: "apply_all H cfg ps NewAgent h = (a1, h1, l1)" by (metis prod_cases3)
  let ?x = "apply_plan H cfg p a1 h1"
  have x: "a = ag ?x" "errs ?x = []" using assms(5,7) by (auto simp: apply_all_snoc 1 Let_def)
  have ok1: "fwd_ok hr (True \<and> ''delete rule'' \<notin> set (concat l1)) \<lparr>ag = a1, hs = h1, errs = []\<rparr>"
    by (rule apply_all_fwd_ok [OF assms(1,2) 1 _ new]) (use assms(4) in auto)
  have f: "mget (forward a) = mget (Forward_to p)"
    using apply_plan_step(2) [OF assms(1,2) ok1, of p cfg] x assms(4) by simp
  show ?thesis unfolding ok(2) rules_of_def f using ok(1) unfolding sound_def f by blast
qed

text \<open>The simulated host, and a plan that forwards one address.\<close>

definition sim_rules :: "string list list \<times> nat \<Rightarrow> (Addr \<times> nat) set" where
  "sim_rules h = {(vip, t). Is4 vip \<and> ruleFrom vip t \<in> set (fst h)}"

definition sim_plan :: "string \<Rightarrow> Plan" where
  "sim_plan eg = emptyPlan\<lparr>Forward_to := [(Addr4 0x0A640002, eg)]\<rparr>"

lemma sim_keeps: "keeps_rules sim_host sim_rules"
  by (auto simp: keeps_rules_def keeps_def sim_host_def sim_ip_def split: prod.split)

lemma host_prefix4: "host_prefix (Addr4 w) = text4 w @ ''/32''"
proof -
  have "dec 32 = ''32''" by code_simp
  then show ?thesis by (simp add: host_prefix_def Prefix_String_def Prefix_IsValid_def BitLen_def addr_text_def)
qed

lemma text4_inject: "text4 v = text4 w \<longleftrightarrow> v = w"
  by (metis parse4_text4 option.inject)

lemma ruleFrom_inject: "Is4 v \<Longrightarrow> Is4 w \<Longrightarrow> ruleFrom v t = ruleFrom w u \<longleftrightarrow> v = w \<and> t = u"
  by (cases v; cases w) (auto simp: ruleFrom_def Is4_def host_prefix4 text4_inject dec_inject)

lemma sim_cmds: "rule_cmds sim_host sim_rules"
  unfolding rule_cmds_def sim_host_def sim_ip_def sim_rules_def
  by (auto simp: ruleFrom_inject split: prod.splits)

text \<open>One plan on this host: a rule for the address it had is deleted, or not, and one added.\<close>

lemma gate_plan_rest: "backbones (gate_plan p a) = backbones a" "peers (gate_plan p a) = peers a" "ret (gate_plan p a) = ret a"
  "nextIndex (gate_plan p a) = nextIndex a"
proof -
  have "backbones (foldl fence_session a ss) = backbones a \<and> peers (foldl fence_session a ss) = peers a
      \<and> ret (foldl fence_session a ss) = ret a \<and> nextIndex (foldl fence_session a ss) = nextIndex a" for a ss
    by (induction ss arbitrary: a) (auto simp: fence_session_def split: option.split)
  then show "backbones (gate_plan p a) = backbones a" "peers (gate_plan p a) = peers a" "ret (gate_plan p a) = ret a"
    "nextIndex (gate_plan p a) = nextIndex a" by (simp_all add: gate_plan_def updateFenceLocked_def Let_def)
qed

definition sim_idle :: "Agent \<Rightarrow> bool" where
  "sim_idle a \<longleftrightarrow> backbones a = [] \<and> peers a = [] \<and> ret a = []"

lemma sim_before:
  assumes "sim_idle a"
  shows "before_gate sim_host sim_cfg (sim_plan eg) \<lparr>ag = a, hs = h, errs = []\<rparr> = \<lparr>ag = a, hs = h, errs = []\<rparr>"
proof -
  have "a\<lparr>backbones := []\<rparr> = a" using assms by (cases a) (simp add: sim_idle_def)
  then show ?thesis using assms
    by (simp add: before_gate_def sim_idle_def sim_plan_def emptyPlan_def BackboneIDs_def probe_step_def setProbeTargetsLocked_def
        sim_host_def note_err_def)
qed

lemma sim_after: "sim_idle (ag x) \<Longrightarrow> after_rules sim_host sim_cfg (sim_plan eg) x = x"
  by (simp add: after_rules_def sim_idle_def sim_plan_def emptyPlan_def sim_cfg_def traceMovesLocked_def)

lemma sim_add: "addRule sim_host args (rs, k) = (True, (args # rs, k))"
  by (simp add: addRule_def ipIgnore_def sim_host_def sim_ip_def)

lemma sim_del: "delRule sim_host args (rs, k) = (k = 0, (if k = 0 then removeAll args rs else rs, k - 1))"
  by (simp add: delRule_def ipIgnore_def sim_host_def sim_ip_def)

lemma sim_index: "indexLocked sim_host i a h = (case mget (index a) i of Some n \<Rightarrow> (n, True, a, h)
    | None \<Rightarrow> (nextIndex a, True, a\<lparr>nextIndex := nextIndex a + 1, index := mput i (nextIndex a) (index a)\<rparr>, h))"
  by (cases h) (simp add: indexLocked_def Let_def flushTable_def ipIgnore_def ip_def sim_host_def sim_ip_def split: option.split)

lemma sim_plan_forward: "Forward_to (sim_plan eg) = [(Addr4 0x0A640002, eg)]"
  by (simp add: sim_plan_def)

lemmas sim_eval = apply_plan_split Let_def sim_before sim_after set_forward_def gate_plan_sel gate_plan_rest sim_idle_def
  sim_plan_forward want_forward_def drop_forward_def note_err_def sim_index sim_add sim_del

text \<open>
  Three plans, the second moving the address from one egress to another and the third the same again, on
  a host where the first deletion of a rule fails, or none does.
\<close>

abbreviation sim_addr :: Addr where "sim_addr \<equiv> Addr4 0x0A640002"

lemma sim_first:
  assumes "sim_idle a" "forward a = []" "index a = []" "nextIndex a = 0"
  shows "\<exists>a'. apply_plan sim_host sim_cfg (sim_plan ''b'') a ([], k) = \<lparr>ag = a', hs = ([ruleFrom sim_addr egressTableBase], k), errs = []\<rparr>
    \<and> sim_idle a' \<and> forward a' = [(sim_addr, ''b'')] \<and> index a' = [(''b'', 0)] \<and> nextIndex a' = 1"
  using assms by (simp add: sim_eval)

lemma sim_second:
  assumes "sim_idle a" "forward a = [(sim_addr, ''b'')]" "index a = [(''b'', 0)]" "nextIndex a = 1"
  shows "\<exists>a'. apply_plan sim_host sim_cfg (sim_plan ''c'') a ([ruleFrom sim_addr egressTableBase], k)
      = \<lparr>ag = a', hs = (ruleFrom sim_addr (egressTableBase + 1) # (if k = 0 then [] else [ruleFrom sim_addr egressTableBase]), k - 1),
         errs = (if k = 0 then [] else [''delete rule''])\<rparr>
    \<and> sim_idle a' \<and> forward a' = [(sim_addr, ''c'')] \<and> index a' = [(''b'', 0), (''c'', 1)] \<and> nextIndex a' = 2"
  using assms by (simp add: sim_eval)

lemma sim_third:
  assumes "sim_idle a" "forward a = [(sim_addr, ''c'')]"
  shows "\<exists>a'. apply_plan sim_host sim_cfg (sim_plan ''c'') a h = \<lparr>ag = a', hs = h, errs = []\<rparr> \<and> index a' = index a"
  using assms by (simp add: sim_eval)

lemma sim_run:
  "\<exists>a. apply_all sim_host sim_cfg [sim_plan ''b'', sim_plan ''c'', sim_plan ''c''] NewAgent ([], k)
     = (a, (ruleFrom sim_addr (egressTableBase + 1) # (if k = 0 then [] else [ruleFrom sim_addr egressTableBase]), k - 1),
        [[], if k = 0 then [] else [''delete rule''], []]) \<and> index a = [(''b'', 0), (''c'', 1)]"
proof -
  have "sim_idle NewAgent" "forward NewAgent = []" "index NewAgent = []" "nextIndex NewAgent = 0" by (simp_all add: sim_idle_def NewAgent_def)
  from sim_first [OF this, of k] obtain a1 where 1: "apply_plan sim_host sim_cfg (sim_plan ''b'') NewAgent ([], k) =
      \<lparr>ag = a1, hs = ([ruleFrom sim_addr egressTableBase], k), errs = []\<rparr>"
    and a1: "sim_idle a1" "forward a1 = [(sim_addr, ''b'')]" "index a1 = [(''b'', 0)]" "nextIndex a1 = 1" by blast
  from sim_second [OF a1, of k] obtain a2 where 2: "apply_plan sim_host sim_cfg (sim_plan ''c'') a1 ([ruleFrom sim_addr egressTableBase], k)
      = \<lparr>ag = a2, hs = (ruleFrom sim_addr (egressTableBase + 1) # (if k = 0 then [] else [ruleFrom sim_addr egressTableBase]), k - 1),
         errs = (if k = 0 then [] else [''delete rule''])\<rparr>"
    and a2: "sim_idle a2" "forward a2 = [(sim_addr, ''c'')]" "index a2 = [(''b'', 0), (''c'', 1)]" by blast
  let ?h = "(ruleFrom sim_addr (egressTableBase + 1) # (if k = 0 then [] else [ruleFrom sim_addr egressTableBase]), k - 1)"
  obtain a3 where 3: "apply_plan sim_host sim_cfg (sim_plan ''c'') a2 ?h = \<lparr>ag = a3, hs = ?h, errs = []\<rparr>" "index a3 = index a2"
    using sim_third [OF a2(1,2), of ?h] by blast
  have "apply_all sim_host sim_cfg [sim_plan ''b'', sim_plan ''c'', sim_plan ''c''] NewAgent ([], k)
      = (a3, ?h, [[], if k = 0 then [] else [''delete rule''], []])" unfolding apply_all.simps Let_def 1 2 3 run.select_convs prod.case ..
  with 3(2) a2(3) show ?thesis by simp
qed

lemma sim_forward_plan: "eg \<noteq> [] \<Longrightarrow> forward_plan (sim_plan eg)"
  by (simp add: forward_plan_def sim_plan_forward Is4_def)

theorem forwarding_follows_plan_witness:
  "\<exists>a h'. apply_all sim_host sim_cfg ([sim_plan ''b'', sim_plan ''c''] @ [sim_plan ''c'']) NewAgent ([], 0) = (a, h', [[], [], []])
     \<and> sim_rules h' = {(sim_addr, 1001)}"
proof -
  obtain a h' where r: "apply_all sim_host sim_cfg ([sim_plan ''b'', sim_plan ''c''] @ [sim_plan ''c'']) NewAgent ([], 0) = (a, h', [[], [], []])"
    and i: "index a = [(''b'', 0), (''c'', 1)]" using sim_run [of 0] by auto
  have "sim_rules ([], 0) = {}" by (simp add: sim_rules_def)
  from forwarding_follows_plan [OF sim_keeps sim_cmds this _ r] i
  have "sim_rules h' = {(sim_addr, 1001)}" by (simp add: sim_forward_plan sim_plan_forward egressTableBase_def split: if_splits)
  with r show ?thesis by blast
qed

text \<open>
  A deletion that fails is forgotten. On a host where one \<^verbatim>\<open>ip rule del\<close> fails while a session moves from
  egress \<open>b\<close> to egress \<open>c\<close>, the plan reports the error, but the next plan is applied without any, and the
  host keeps both rules at the same preference: nothing deletes the old one later.
\<close>

theorem failed_rule_delete_forgotten:
  "\<exists>a h'. apply_all sim_host sim_cfg [sim_plan ''b'', sim_plan ''c'', sim_plan ''c''] NewAgent ([], 1) = (a, h', [[], [''delete rule''], []])
     \<and> sim_rules h' = {(sim_addr, 1000), (sim_addr, 1001)}"
proof -
  have "sim_rules (ruleFrom sim_addr (egressTableBase + 1) # [ruleFrom sim_addr egressTableBase], 0) = {(sim_addr, 1000), (sim_addr, 1001)}"
  proof (intro set_eqI)
    fix e :: "Addr \<times> nat"
    obtain v t where e: "e = (v, t)" by (cases e)
    have "Is4 v \<and> (ruleFrom v t = ruleFrom sim_addr 1001 \<or> ruleFrom v t = ruleFrom sim_addr 1000) \<longleftrightarrow> v = sim_addr \<and> (t = 1001 \<or> t = 1000)"
      using ruleFrom_inject [of v sim_addr t] by (auto simp: Is4_def)
    then show "e \<in> sim_rules (ruleFrom sim_addr (egressTableBase + 1) # [ruleFrom sim_addr egressTableBase], 0) \<longleftrightarrow> e \<in> {(sim_addr, 1000), (sim_addr, 1001)}"
      by (auto simp: e sim_rules_def egressTableBase_def)
  qed
  then show ?thesis using sim_run [of 1] by auto
qed

section \<open>The blackhole\<close>

text \<open>
  \<^verbatim>\<open>indexLocked\<close> makes sure a table holds at least the blackhole only once: it records the index before it
  flushes the table and installs the blackhole, so when either fails the error is returned that time, and
  every later call returns the same table as ready without running a command.
\<close>

theorem blackhole_not_retried:
  "mget (index a) i = None \<Longrightarrow> indexLocked H i a h = (n, ok, a', h') \<Longrightarrow> indexLocked H i a' h'' = (n, True, a', h'')"
  by (auto simp: indexLocked_def Let_def split: prod.splits)

definition bad_host :: "(string list list \<times> nat) host" where
  "bad_host = sim_host\<lparr>hostIP := \<lambda>_ h. (IpErr, h)\<rparr>"

theorem blackhole_not_retried_witness:
  "\<exists>a'. indexLocked bad_host ''b'' NewAgent ([], 0) = (0, False, a', ([], 0)) \<and> indexLocked bad_host ''b'' a' ([], 0) = (0, True, a', ([], 0))"
proof -
  obtain a' where 1: "indexLocked bad_host ''b'' NewAgent ([], 0) = (0, False, a', ([], 0))"
    by (simp add: indexLocked_def NewAgent_def flushTable_def ipIgnore_def bad_host_def)
  have "mget (index NewAgent) ''b'' = None" by (simp add: NewAgent_def)
  from blackhole_not_retried [OF this 1] 1 show ?thesis by blast
qed

end
