(* ===== verification/RouteSet.thy ===== *)
theory RouteSet
  imports Netip
begin

text \<open>
  \<^verbatim>\<open>internal/ipsec/routes.go\<close>: the tunnel routes one client or gateway installed, moved all or none. The
  kernel is a parameter: replacing and deleting a route, each returning an error or none and the kernel
  afterwards.
\<close>

section \<open>Model\<close>

datatype Family = FamilyV4 | FamilyV6

definition familyOf :: "Addr \<Rightarrow> Family" where
  "familyOf a = (if Is4 a then FamilyV4 else FamilyV6)"

definition MainTable :: int where "MainTable = 254"

record Route =
  rDst :: Prefix
  rGw :: Addr
  rDev :: string
  rSrc :: Addr
  rTable :: int

definition route_table :: "Route \<Rightarrow> int" where
  "route_table r = (if rTable r = 0 then MainTable else rTable r)"

datatype netErr = ErrNotExist | ErrExist | NetErr string

record 'n routing =
  RouteReplace :: "Route \<Rightarrow> 'n \<Rightarrow> netErr option \<times> 'n"
  RouteDel :: "Route \<Rightarrow> 'n \<Rightarrow> netErr option \<times> 'n"

definition ignoreNotExist :: "netErr option \<Rightarrow> netErr option" where
  "ignoreNotExist e = (if e = Some ErrNotExist then None else e)"

type_synonym routeSet = "(Prefix, Route) gomap"

definition newRouteSet :: routeSet where "newRouteSet = []"

text \<open>A change done: the route set, and what was tracked for its prefix before.\<close>

type_synonym change = "Route \<times> Route option"

text \<open>The replace that failed with the errors of undoing, or the withdrawals that failed.\<close>

datatype routesErr = ReplaceFailed netErr "netErr list" | WithdrawFailed "netErr list"

definition undo_one :: "'n routing \<Rightarrow> change \<Rightarrow> 'n \<Rightarrow> netErr option \<times> 'n" where
  "undo_one N c n = (case c of
     (r, Some prev) \<Rightarrow> RouteReplace N prev n
   | (r, None) \<Rightarrow> (case RouteDel N r n of (e, n') \<Rightarrow> (ignoreNotExist e, n')))"

text \<open>The changes, last one first.\<close>

fun undo_all :: "'n routing \<Rightarrow> change list \<Rightarrow> 'n \<Rightarrow> netErr list \<times> 'n" where
  "undo_all N [] n = ([], n)"
| "undo_all N (c # cs) n =
     (case undo_one N c n of (e, n') \<Rightarrow>
      case undo_all N cs n' of (es, n'') \<Rightarrow> ((case e of None \<Rightarrow> es | Some e \<Rightarrow> e # es), n''))"

text \<open>The loop over the wanted routes; \<open>done\<close> holds the changes so far, last one first.\<close>

fun replace_loop :: "'n routing \<Rightarrow> routeSet \<Rightarrow> change list \<Rightarrow> Route list \<Rightarrow> 'n \<Rightarrow> routesErr option \<times> 'n" where
  "replace_loop N installed changed [] n = (None, n)"
| "replace_loop N installed changed (r # rs) n =
     (case RouteReplace N r n of
        (Some e, n') \<Rightarrow> (case undo_all N changed n' of (es, n'') \<Rightarrow> (Some (ReplaceFailed e es), n''))
      | (None, n') \<Rightarrow> replace_loop N installed ((r, mget installed (rDst r)) # changed) rs n')"

definition keep_of :: "Route list \<Rightarrow> routeSet" where
  "keep_of want = foldl (\<lambda>m r. mput (rDst r) r m) [] want"

text \<open>Withdrawing what is installed and not kept; a route that stays is tracked on.\<close>

fun withdraw_loop :: "'n routing \<Rightarrow> (Prefix \<times> Route) list \<Rightarrow> routeSet \<Rightarrow> 'n \<Rightarrow> netErr list \<times> routeSet \<times> 'n" where
  "withdraw_loop N [] keep n = ([], keep, n)"
| "withdraw_loop N ((dst, r) # es) keep n =
     (if mget keep dst \<noteq> None then withdraw_loop N es keep n
      else case RouteDel N r n of (e, n') \<Rightarrow>
        (case ignoreNotExist e of
           None \<Rightarrow> withdraw_loop N es keep n'
         | Some e \<Rightarrow> (case withdraw_loop N es (mput dst r keep) n' of (errs, keep', n'') \<Rightarrow> (e # errs, keep', n''))))"

definition routes_apply :: "'n routing \<Rightarrow> Route list \<Rightarrow> routeSet \<Rightarrow> 'n \<Rightarrow> routesErr option \<times> routeSet \<times> 'n" where
  "routes_apply N want installed n =
     (case replace_loop N installed [] want n of
        (Some e, n') \<Rightarrow> (Some e, installed, n')
      | (None, n') \<Rightarrow>
          (case withdraw_loop N installed (keep_of want) n' of (errs, keep, n'') \<Rightarrow>
             (if errs = [] then None else Some (WithdrawFailed errs), keep, n'')))"

definition routes_clear :: "'n routing \<Rightarrow> routeSet \<Rightarrow> 'n \<Rightarrow> routesErr option \<times> routeSet \<times> 'n" where
  "routes_clear N installed n = routes_apply N [] installed n"

definition fullTunnelPrefixes :: "Family \<Rightarrow> Prefix list" where
  "fullTunnelPrefixes f = (case f of
     FamilyV6 \<Rightarrow> [\<lparr>pfxAddr = Addr6 0, pfxBits = 1\<rparr>, \<lparr>pfxAddr = Addr6 (push_bit 127 1), pfxBits = 1\<rparr>]
   | FamilyV4 \<Rightarrow> [\<lparr>pfxAddr = Addr4 0, pfxBits = 1\<rparr>, \<lparr>pfxAddr = Addr4 0x80000000, pfxBits = 1\<rparr>])"

definition allAddresses :: "Family \<Rightarrow> Prefix" where
  "allAddresses f = (case f of FamilyV6 \<Rightarrow> \<lparr>pfxAddr = Addr6 0, pfxBits = 0\<rparr> | FamilyV4 \<Rightarrow> \<lparr>pfxAddr = Addr4 0, pfxBits = 0\<rparr>)"

definition hostPrefix :: "Addr \<Rightarrow> Prefix" where
  "hostPrefix a = \<lparr>pfxAddr = a, pfxBits = int (BitLen a)\<rparr>"

definition ifaceName :: "string \<Rightarrow> u32 \<Rightarrow> string" where
  "ifaceName pre ifID = pre @ FormatUint (ucast ifID)"

text \<open>\<open>True\<close> when the check passes.\<close>

definition checkAddr :: "Addr \<Rightarrow> bool" where
  "checkAddr a \<longleftrightarrow> a \<noteq> NoAddr"

definition checkSameFamily :: "Addr \<Rightarrow> Addr \<Rightarrow> bool" where
  "checkSameFamily a b \<longleftrightarrow> \<not> (a \<noteq> NoAddr \<and> b \<noteq> NoAddr \<and> Is4 a \<noteq> Is4 b)"

definition checkPrefixes :: "Family \<Rightarrow> Prefix list \<Rightarrow> bool" where
  "checkPrefixes f ps \<longleftrightarrow> list_all (\<lambda>p. Prefix_IsValid p \<and> familyOf (pfxAddr p) = f) ps"

section \<open>All or none\<close>

text \<open>
  What is relied on of the kernel, for what \<open>rt\<close> reads of its tables by destination and table number: a
  replace or a delete that works changes that one route, and one that fails changes nothing.
\<close>

definition rkey :: "Route \<Rightarrow> Prefix \<times> int" where
  "rkey r = (rDst r, route_table r)"

definition kernel_routes :: "'n routing \<Rightarrow> ('n \<Rightarrow> Prefix \<times> int \<Rightarrow> Route option) \<Rightarrow> bool" where
  "kernel_routes N rt \<longleftrightarrow> (\<forall>r n.
     rt (snd (RouteReplace N r n)) = (if fst (RouteReplace N r n) = None then (rt n)(rkey r \<mapsto> r) else rt n) \<and>
     rt (snd (RouteDel N r n)) = (if fst (RouteDel N r n) = None then (rt n)(rkey r := None) else rt n) \<and>
     (fst (RouteDel N r n) = Some ErrNotExist \<longrightarrow> rt n (rkey r) = None))"

text \<open>Every tracked route is in the kernel, in table \<open>t\<close> under its destination.\<close>

definition tracked :: "('n \<Rightarrow> Prefix \<times> int \<Rightarrow> Route option) \<Rightarrow> int \<Rightarrow> routeSet \<Rightarrow> 'n \<Rightarrow> bool" where
  "tracked rt t s n \<longleftrightarrow> mwf s \<and> (\<forall>dst r. mget s dst = Some r \<longrightarrow> rDst r = dst \<and> route_table r = t \<and> rt n (dst, t) = Some r)"

lemma replace_effect:
  "kernel_routes N rt \<Longrightarrow> RouteReplace N r n = (e, n') \<Longrightarrow> rt n' = (if e = None then (rt n)(rkey r \<mapsto> r) else rt n)"
  unfolding kernel_routes_def by (metis fst_conv snd_conv)

lemma del_effect:
  "kernel_routes N rt \<Longrightarrow> RouteDel N r n = (e, n') \<Longrightarrow> ignoreNotExist e = None \<Longrightarrow> rt n' = (rt n)(rkey r := None)"
  "kernel_routes N rt \<Longrightarrow> RouteDel N r n = (e, n') \<Longrightarrow> ignoreNotExist e \<noteq> None \<Longrightarrow> rt n' = rt n"
  unfolding kernel_routes_def ignoreNotExist_def by (metis fst_conv snd_conv fun_upd_idem)+

text \<open>The kernel before a list of changes, from the kernel after them.\<close>

definition before :: "int \<Rightarrow> change list \<Rightarrow> (Prefix \<times> int \<Rightarrow> Route option) \<Rightarrow> Prefix \<times> int \<Rightarrow> Route option" where
  "before t cs m = foldl (\<lambda>m (r, prev). m((rDst r, t) := prev)) m cs"

lemma before_Cons: "before t ((r, prev) # cs) m = before t cs (m((rDst r, t) := prev))"
  by (simp add: before_def)

lemma undo_all_restores:
  "kernel_routes N rt \<Longrightarrow> \<forall>(r, prev)\<in>set cs. route_table r = t \<and> (\<forall>q. prev = Some q \<longrightarrow> rDst q = rDst r \<and> route_table q = t) \<Longrightarrow>
     undo_all N cs n = ([], n') \<Longrightarrow> rt n' = before t cs (rt n)"
proof (induction cs arbitrary: n)
  case (Cons c cs)
  obtain r prev where c: "c = (r, prev)" by (cases c)
  obtain e n1 where u: "undo_one N c n = (e, n1)" by (metis surj_pair)
  then have e: "e = None" and rest: "undo_all N cs n1 = ([], n')" using Cons.prems(3) by (auto split: prod.splits option.splits)
  have "rt n1 = (rt n)((rDst r, t) := prev)"
  proof (cases prev)
    case None
    then obtain d where "RouteDel N r n = (d, n1)" "ignoreNotExist d = None" using u e by (auto simp: undo_one_def c split: prod.splits)
    from del_effect(1) [OF Cons.prems(1) this] show ?thesis using Cons.prems(2) None by (simp add: c rkey_def)
  next
    case (Some q)
    then have "RouteReplace N q n = (None, n1)" using u e by (simp add: undo_one_def c)
    from replace_effect [OF Cons.prems(1) this] show ?thesis using Cons.prems(2) Some by (simp add: c rkey_def)
  qed
  moreover have "rt n' = before t cs (rt n1)" by (rule Cons.IH [OF Cons.prems(1) _ rest]) (use Cons.prems(2) in auto)
  ultimately show ?case unfolding c before_Cons by (simp only:)
qed (simp add: before_def)

lemma before_eq:
  "\<forall>(r, prev)\<in>set cs. prev = mget inst (rDst r) \<Longrightarrow>
     before t cs m (d, u) = (if u = t \<and> d \<in> (rDst \<circ> fst) ` set cs then mget inst d else m (d, u))"
  unfolding before_def by (induction cs arbitrary: m) auto

text \<open>What the loop has changed so far can be undone to the kernel \<open>m0\<close> it started from.\<close>

lemma replace_loop_spec:
  assumes K: "kernel_routes N rt" and inst: "\<forall>d q. mget inst d = Some q \<longrightarrow> rDst q = d \<and> route_table q = t"
  shows "\<forall>(r, prev)\<in>set cs. prev = mget inst (rDst r) \<and> route_table r = t \<Longrightarrow> before t cs (rt n) = m0 \<Longrightarrow>
     \<forall>r\<in>set want. route_table r = t \<and> m0 (rDst r, t) = mget inst (rDst r) \<Longrightarrow>
     replace_loop N inst cs want n = (res, n') \<Longrightarrow>
     (\<forall>e. res = Some (ReplaceFailed e []) \<longrightarrow> rt n' = m0) \<and>
     (res = None \<longrightarrow> rt n' = foldl (\<lambda>m r. m((rDst r, t) \<mapsto> r)) (rt n) want) \<and> (\<forall>es. res \<noteq> Some (WithdrawFailed es))"
proof (induction want arbitrary: cs n)
  case (Cons r want)
  obtain e n1 where r: "RouteReplace N r n = (e, n1)" by (metis surj_pair)
  note eff = replace_effect [OF K r]
  show ?case
  proof (cases e)
    case None
    let ?cs = "(r, mget inst (rDst r)) # cs"
    have cs: "\<forall>(r, prev)\<in>set cs. prev = mget inst (rDst r)" "\<forall>(r, prev)\<in>set ?cs. prev = mget inst (rDst r)" using Cons.prems(1) by auto
    have n1: "rt n1 = (rt n)((rDst r, t) \<mapsto> r)" using eff None Cons.prems(3) by (simp add: rkey_def)
    have "before t ?cs (rt n1) k = m0 k" for k
    proof (cases k)
      case (Pair d u)
      have "before t cs (rt n) (d, u) = m0 (d, u)" using Cons.prems(2) by simp
      then show ?thesis using Cons.prems(3)
        by (auto simp: Pair n1 before_eq [OF cs(1)] before_eq [OF cs(2)] split: if_splits)
    qed
    then have b: "before t ?cs (rt n1) = m0" by blast
    have "replace_loop N inst ?cs want n1 = (res, n')" using Cons.prems(4) by (simp add: r None)
    from Cons.IH [OF _ b _ this] Cons.prems(1,3) show ?thesis by (simp add: n1)
  next
    case (Some e')
    obtain es n2 where u: "undo_all N cs n1 = (es, n2)" by (metis surj_pair)
    have res: "res = Some (ReplaceFailed e' es)" "n' = n2" using Cons.prems(4) by (simp_all add: r Some u)
    have "rt n1 = rt n" using eff Some by simp
    moreover have "\<forall>(r, prev)\<in>set cs. route_table r = t \<and> (\<forall>q. prev = Some q \<longrightarrow> rDst q = rDst r \<and> route_table q = t)"
      using Cons.prems(1) inst by fastforce
    ultimately show ?thesis using undo_all_restores [OF K, of cs t n1 n2] u Cons.prems(2) by (auto simp: res)
  qed
qed simp

lemma withdraw_loop_spec:
  assumes K: "kernel_routes N rt"
  shows "mwf es \<Longrightarrow> \<forall>(dst, r)\<in>set es. rDst r = dst \<and> route_table r = t \<Longrightarrow> mwf keep \<Longrightarrow>
     withdraw_loop N es keep n = (errs, keep', n') \<Longrightarrow>
     mget keep \<subseteq>\<^sub>m mget keep' \<and> mwf keep' \<and> (errs = [] \<longrightarrow> keep' = keep) \<and>
     (\<forall>d r. mget keep' d = Some r \<longrightarrow> mget keep d = Some r \<or> (d, r) \<in> set es) \<and>
     (\<forall>d u. rt n' (d, u) = (if u = t \<and> d \<in> fst ` set es \<and> mget keep' d = None then None else rt n (d, u)))"
proof (induction es arbitrary: keep n errs)
  case (Cons e es)
  obtain dst r where e: "e = (dst, r)" by (cases e)
  have es: "mwf es" "\<forall>(dst, r)\<in>set es. rDst r = dst \<and> route_table r = t" "dst \<notin> fst ` set es" using Cons.prems(1,2) by (auto simp: e)
  have rk: "rkey r = (dst, t)" using Cons.prems(2) by (simp add: e rkey_def)
  show ?case
  proof (cases "mget keep dst")
    case (Some q)
    then have "withdraw_loop N es keep n = (errs, keep', n')" using Cons.prems(4) by (simp add: e)
    from Cons.IH [OF es(1,2) Cons.prems(3) this] have IH: "mget keep \<subseteq>\<^sub>m mget keep'" "mwf keep'" "errs = [] \<longrightarrow> keep' = keep"
      "\<forall>d r. mget keep' d = Some r \<longrightarrow> mget keep d = Some r \<or> (d, r) \<in> set es"
      "\<forall>d u. rt n' (d, u) = (if u = t \<and> d \<in> fst ` set es \<and> mget keep' d = None then None else rt n (d, u))" by blast+
    have "mget keep' dst = Some q" using IH(1) Some by (force simp: map_le_def)
    with IH show ?thesis by (auto simp: e)
  next
    case None
    obtain d n1 where d: "RouteDel N r n = (d, n1)" by (metis surj_pair)
    show ?thesis
    proof (cases "ignoreNotExist d")
      case None': None
      have "withdraw_loop N es keep n1 = (errs, keep', n')" using Cons.prems(4) None by (simp add: e d None')
      from Cons.IH [OF es(1,2) Cons.prems(3) this] have IH: "mget keep \<subseteq>\<^sub>m mget keep'" "mwf keep'" "errs = [] \<longrightarrow> keep' = keep"
        "\<forall>d r. mget keep' d = Some r \<longrightarrow> mget keep d = Some r \<or> (d, r) \<in> set es"
        "\<forall>d u. rt n' (d, u) = (if u = t \<and> d \<in> fst ` set es \<and> mget keep' d = None then None else rt n1 (d, u))" by blast+
      have "mget keep' dst = None"
      proof (rule ccontr)
        assume "mget keep' dst \<noteq> None"
        then obtain q where "mget keep' dst = Some q" by blast
        from IH(4) [rule_format, OF this] None have "(dst, q) \<in> set es" by simp
        with es(3) show False by force
      qed
      with IH del_effect(1) [OF K d None'] show ?thesis by (auto simp: e rk)
    next
      case (Some e')
      obtain errs' where w: "withdraw_loop N es (mput dst r keep) n1 = (errs', keep', n')" "errs = e' # errs'"
        using Cons.prems(4) None by (auto simp: e d Some split: prod.splits)
      have "mwf (mput dst r keep)" using Cons.prems(3) by simp
      from Cons.IH [OF es(1,2) this w(1)] have IH: "mget (mput dst r keep) \<subseteq>\<^sub>m mget keep'" "mwf keep'"
        "\<forall>d q. mget keep' d = Some q \<longrightarrow> mget (mput dst r keep) d = Some q \<or> (d, q) \<in> set es"
        "\<forall>d u. rt n' (d, u) = (if u = t \<and> d \<in> fst ` set es \<and> mget keep' d = None then None else rt n1 (d, u))" by blast+
      have k: "mget keep' dst = Some r" using IH(1) by (force simp: map_le_def)
      have le: "mget keep \<subseteq>\<^sub>m mget keep'" using IH(1) None by (auto simp: map_le_def dom_def split: if_splits)
      have "rt n1 = rt n" using del_effect(2) [OF K d] Some by simp
      with IH k le w(2) show ?thesis by (auto simp: e split: if_splits)
    qed
  qed
qed simp

lemma keep_of_snoc: "keep_of (want @ [r]) = mput (rDst r) r (keep_of want)"
  by (simp add: keep_of_def)

lemma mwf_keep_of: "mwf (keep_of want)"
  by (induction want rule: rev_induct) (simp_all add: keep_of_snoc, simp add: keep_of_def)

lemma keep_of_mem: "mget (keep_of want) d = Some r \<Longrightarrow> r \<in> set want \<and> rDst r = d"
  by (induction want rule: rev_induct) (auto simp: keep_of_snoc split: if_splits, simp add: keep_of_def)

lemma keep_of_None: "mget (keep_of want) d = None \<longleftrightarrow> d \<notin> rDst ` set want"
  by (induction want rule: rev_induct) (auto simp: keep_of_snoc, auto simp: keep_of_def)

lemma after_want:
  "foldl (\<lambda>m r. m((rDst r, t) \<mapsto> r)) m want (d, u) =
     (if u = t \<and> mget (keep_of want) d \<noteq> None then mget (keep_of want) d else m (d, u))"
  by (induction want rule: rev_induct) (auto simp: keep_of_snoc, auto simp: keep_of_def)


text \<open>A kernel that refuses routes through one device.\<close>

definition sim_routing :: "(Prefix \<times> int, Route) gomap routing" where
  "sim_routing = \<lparr>RouteReplace = \<lambda>r n. if rDev r = ''down'' then (Some (NetErr ''down''), n) else (None, mput (rkey r) r n),
     RouteDel = \<lambda>r n. if mget n (rkey r) = None then (Some ErrNotExist, n) else (None, mdel (rkey r) n)\<rparr>"

lemma sim_kernel: "kernel_routes sim_routing (\<lambda>n k. mget n k)"
  by (auto simp: kernel_routes_def sim_routing_def fun_eq_iff)

definition demo_route :: "u32 \<Rightarrow> string \<Rightarrow> Route" where
  "demo_route w dev = \<lparr>rDst = \<lparr>pfxAddr = Addr4 w, pfxBits = 1\<rparr>, rGw = NoAddr, rDev = dev, rSrc = NoAddr, rTable = 0\<rparr>"


end
