(* ===== verification/Flow.thy ===== *)
theory Flow
  imports Netip Wire
begin

text \<open>
  \<^verbatim>\<open>internal/tunnel/flow.go\<close> and \<^verbatim>\<open>shard.go\<close>: flow keys read from packets, the table that pins a flow to the
  egress it was first given, its sharded form, and the worker pool over the shards. A clock reading is an
  argument of the operation that makes it, and so is what the egress policy answers at that call, since
  the policy may read state that changes.
\<close>

section \<open>Flow keys\<close>

type_synonym FlowProto = u8

definition ProtoICMP :: FlowProto where "ProtoICMP = 1"
definition ProtoTCP :: FlowProto where "ProtoTCP = 6"
definition ProtoUDP :: FlowProto where "ProtoUDP = 17"
definition ProtoICMPv6 :: FlowProto where "ProtoICMPv6 = 58"

record FlowKey =
  fkProto :: FlowProto
  fkSrcAddr :: Addr
  fkSrcPort :: u16
  fkDstAddr :: Addr
  fkDstPort :: u16

definition Reverse :: "FlowKey \<Rightarrow> FlowKey" where
  "Reverse k = \<lparr>fkProto = fkProto k, fkSrcAddr = fkDstAddr k, fkSrcPort = fkDstPort k, fkDstAddr = fkSrcAddr k, fkDstPort = fkSrcPort k\<rparr>"

text \<open>Big-endian bytes as a number.\<close>

definition be_nat :: "bytes \<Rightarrow> nat" where
  "be_nat bs = foldl (\<lambda>a b. a * 256 + unat b) 0 bs"

definition slice :: "nat \<Rightarrow> nat \<Rightarrow> bytes \<Rightarrow> bytes" where
  "slice i j bs = take (j - i) (drop i bs)"

definition AddrFrom4 :: "bytes \<Rightarrow> Addr" where "AddrFrom4 bs = Addr4 (of_nat (be_nat bs))"
definition AddrFrom16 :: "bytes \<Rightarrow> Addr" where "AddrFrom16 bs = Addr6 (of_nat (be_nat bs))"

datatype flowErr = EmptyPacket | UnknownVersion | TooShort | BadHeaderLength | Unsupported | TransportShort

definition setPorts :: "FlowKey \<Rightarrow> bytes \<Rightarrow> flowErr + FlowKey" where
  "setPorts key transport =
     (if length transport < 4 then Inl TransportShort
      else Inr (key\<lparr>fkSrcPort := of_nat (be_nat (slice 0 2 transport)), fkDstPort := of_nat (be_nat (slice 2 4 transport))\<rparr>))"

definition parseFlowKeyIPv4 :: "bytes \<Rightarrow> flowErr + FlowKey" where
  "parseFlowKeyIPv4 packet =
     (if length packet < 20 then Inl TooShort
      else let ihl = unat (packet ! 0 AND 0x0f) * 4 in
      if ihl < 20 \<or> length packet < ihl then Inl BadHeaderLength
      else let proto = packet ! 9;
               key = \<lparr>fkProto = proto, fkSrcAddr = AddrFrom4 (slice 12 16 packet), fkSrcPort = 0,
                      fkDstAddr = AddrFrom4 (slice 16 20 packet), fkDstPort = 0\<rparr> in
      if proto = ProtoTCP \<or> proto = ProtoUDP then setPorts key (drop ihl packet)
      else if proto = ProtoICMP then Inr key
      else Inl Unsupported)"

definition parseFlowKeyIPv6 :: "bytes \<Rightarrow> flowErr + FlowKey" where
  "parseFlowKeyIPv6 packet =
     (if length packet < 40 then Inl TooShort
      else let proto = packet ! 6;
               key = \<lparr>fkProto = proto, fkSrcAddr = AddrFrom16 (slice 8 24 packet), fkSrcPort = 0,
                      fkDstAddr = AddrFrom16 (slice 24 40 packet), fkDstPort = 0\<rparr> in
      if proto = ProtoTCP \<or> proto = ProtoUDP then setPorts key (drop 40 packet)
      else if proto = ProtoICMPv6 then Inr key
      else Inl Unsupported)"

definition ParseFlowKey :: "bytes \<Rightarrow> flowErr + FlowKey" where
  "ParseFlowKey packet =
     (if length packet < 1 then Inl EmptyPacket
      else let v = drop_bit 4 (packet ! 0) in
      if v = 4 then parseFlowKeyIPv4 packet
      else if v = 6 then parseFlowKeyIPv6 packet
      else Inl UnknownVersion)"

section \<open>The flow table\<close>

type_synonym FlowPolicy = "FlowKey \<Rightarrow> string"

definition StaticEgressPolicy :: "string \<Rightarrow> FlowPolicy" where
  "StaticEgressPolicy egressID = (\<lambda>_. egressID)"

record FlowEntry =
  feEgressID :: string
  feCreatedAt :: time
  feLastSeen :: time

record FlowTable =
  flows :: "(FlowKey, FlowEntry) gomap"
  idleTTL :: duration

definition NewFlowTable :: "duration \<Rightarrow> FlowTable" where
  "NewFlowTable ttl = \<lparr>flows = [], idleTTL = ttl\<rparr>"

definition Egress :: "FlowPolicy \<Rightarrow> time \<Rightarrow> FlowKey \<Rightarrow> FlowTable \<Rightarrow> string \<times> FlowTable" where
  "Egress policy now key t =
     (let entry = (case mget (flows t) key of
            Some e \<Rightarrow> e
          | None \<Rightarrow> \<lparr>feEgressID = policy key, feCreatedAt = now, feLastSeen = 0\<rparr>);
          entry = entry\<lparr>feLastSeen := now\<rparr>
      in (feEgressID entry, t\<lparr>flows := mput key entry (flows t)\<rparr>))"

definition Lookup :: "FlowKey \<Rightarrow> FlowTable \<Rightarrow> string option" where
  "Lookup key t = map_option feEgressID (mget (flows t) key)"

definition Snapshot :: "FlowKey \<Rightarrow> FlowTable \<Rightarrow> FlowEntry option" where
  "Snapshot key t = mget (flows t) key"

definition Len :: "FlowTable \<Rightarrow> nat" where
  "Len t = length (flows t)"

definition EvictIdle :: "time \<Rightarrow> FlowTable \<Rightarrow> nat \<times> FlowTable" where
  "EvictIdle now t =
     (if idleTTL t \<le> 0 then (0, t)
      else let cutoff = now - idleTTL t; idle = (\<lambda>(_, e). feLastSeen e < cutoff)
           in (length (filter idle (flows t)), t\<lparr>flows := filter (Not \<circ> idle) (flows t)\<rparr>))"

section \<open>Shards\<close>

definition bytes_be :: "nat \<Rightarrow> 'a::len word \<Rightarrow> bytes" where
  "bytes_be n w = map (\<lambda>i. ucast (drop_bit (8 * i) w)) (rev [0..<n])"

definition As16 :: "Addr \<Rightarrow> bytes" where
  "As16 a = (case a of
     NoAddr \<Rightarrow> replicate 16 0
   | Addr4 w \<Rightarrow> replicate 10 0 @ [0xff, 0xff] @ bytes_be 4 w
   | Addr6 w \<Rightarrow> bytes_be 16 w)"

definition offset64 :: u64 where "offset64 = 14695981039346656037"
definition prime64 :: u64 where "prime64 = 1099511628211"

definition fnv :: "u64 \<Rightarrow> u64 \<Rightarrow> u64" where
  "fnv h x = (h XOR x) * prime64"

definition hashFlowKey :: "FlowKey \<Rightarrow> u64" where
  "hashFlowKey key =
     (let h = fnv offset64 (ucast (fkProto key));
          h = foldl (\<lambda>h b. fnv h (ucast b)) h (As16 (fkSrcAddr key));
          h = fnv h (ucast (fkSrcPort key));
          h = foldl (\<lambda>h b. fnv h (ucast b)) h (As16 (fkDstAddr key))
      in fnv h (ucast (fkDstPort key)))"

type_synonym ShardedFlowTable = "FlowTable list"

text \<open>\<open>cpus\<close> is \<^verbatim>\<open>runtime.NumCPU()\<close>.\<close>

definition NewShardedFlowTable :: "nat \<Rightarrow> int \<Rightarrow> duration \<Rightarrow> ShardedFlowTable" where
  "NewShardedFlowTable cpus shardCount ttl =
     (let shardCount = (if shardCount \<le> 0 then int cpus else shardCount) in replicate (nat shardCount) (NewFlowTable ttl))"

definition shard_index :: "nat \<Rightarrow> FlowKey \<Rightarrow> nat" where
  "shard_index n key = unat (hashFlowKey key) mod n"

definition ShardIndex :: "ShardedFlowTable \<Rightarrow> FlowKey \<Rightarrow> nat" where
  "ShardIndex s key = shard_index (length s) key"

definition sh_Egress :: "FlowPolicy \<Rightarrow> time \<Rightarrow> FlowKey \<Rightarrow> ShardedFlowTable \<Rightarrow> string \<times> ShardedFlowTable" where
  "sh_Egress policy now key s =
     (let i = ShardIndex s key; (e, t) = Egress policy now key (s ! i) in (e, s[i := t]))"

definition sh_Lookup :: "FlowKey \<Rightarrow> ShardedFlowTable \<Rightarrow> string option" where
  "sh_Lookup key s = Lookup key (s ! ShardIndex s key)"

definition sh_Snapshot :: "FlowKey \<Rightarrow> ShardedFlowTable \<Rightarrow> FlowEntry option" where
  "sh_Snapshot key s = Snapshot key (s ! ShardIndex s key)"

definition sh_Len :: "ShardedFlowTable \<Rightarrow> nat" where
  "sh_Len s = sum_list (map Len s)"

text \<open>Every shard reads the clock itself: \<open>clock i\<close> is what shard \<open>i\<close> reads.\<close>

definition sh_EvictIdle :: "(nat \<Rightarrow> time) \<Rightarrow> ShardedFlowTable \<Rightarrow> nat \<times> ShardedFlowTable" where
  "sh_EvictIdle clock s =
     (let rs = map (\<lambda>i. EvictIdle (clock i) (s ! i)) [0..<length s] in (sum_list (map fst rs), map snd rs))"

definition FastPathDecide :: "FlowPolicy \<Rightarrow> time \<Rightarrow> ShardedFlowTable \<Rightarrow> bytes \<Rightarrow> (flowErr + FlowKey \<times> string) \<times> ShardedFlowTable" where
  "FastPathDecide policy now table packet =
     (case ParseFlowKey packet of
        Inl e \<Rightarrow> (Inl e, table)
      | Inr key \<Rightarrow> (case sh_Egress policy now key table of (e, table) \<Rightarrow> (Inr (key, e), table)))"

section \<open>The worker pool\<close>

text \<open>A batch of packets with room for \<open>cap\<close>.\<close>

record PacketBatch =
  packets :: "bytes list"
  cap :: nat

definition NewPacketBatch :: "nat \<Rightarrow> PacketBatch" where "NewPacketBatch capacity = \<lparr>packets = [], cap = capacity\<rparr>"
definition Batch_Reset :: "PacketBatch \<Rightarrow> PacketBatch" where "Batch_Reset b = b\<lparr>packets := []\<rparr>"

definition Batch_Add :: "bytes \<Rightarrow> PacketBatch \<Rightarrow> bool \<times> PacketBatch" where
  "Batch_Add pkt b = (if length (packets b) \<ge> cap b then (False, b) else (True, b\<lparr>packets := packets b @ [pkt]\<rparr>))"

text \<open>What \<^verbatim>\<open>runWorker\<close> hands to the handler for a batch on its shard; \<open>clock j\<close> is read for packet \<open>j\<close>.\<close>

fun worker :: "FlowPolicy \<Rightarrow> (nat \<Rightarrow> time) \<Rightarrow> nat \<Rightarrow> bytes list \<Rightarrow> FlowTable \<Rightarrow> (FlowKey \<times> string \<times> bytes) list \<times> FlowTable" where
  "worker policy clock j [] shard = ([], shard)"
| "worker policy clock j (pkt # pkts) shard =
     (case ParseFlowKey pkt of
        Inl _ \<Rightarrow> worker policy clock (j + 1) pkts shard
      | Inr key \<Rightarrow>
          (let (egress, shard) = Egress policy (clock j) key shard; (out, shard) = worker policy clock (j + 1) pkts shard
           in ((key, egress, pkt) # out, shard)))"

definition distribute :: "nat \<Rightarrow> PacketBatch list \<Rightarrow> bytes \<Rightarrow> PacketBatch list" where
  "distribute n scratch pkt =
     (case ParseFlowKey pkt of
        Inl _ \<Rightarrow> scratch
      | Inr key \<Rightarrow> scratch[shard_index n key := snd (Batch_Add pkt (scratch ! shard_index n key))])"

text \<open>
  \<^verbatim>\<open>Submit\<close>: the packets go into one scratch batch per shard, and each worker with a packet runs its batch
  on its own shard; the caller waits for all. Entry \<open>i\<close> of the result is what worker \<open>i\<close> handed on.
\<close>

definition Submit :: "FlowPolicy \<Rightarrow> (nat \<Rightarrow> nat \<Rightarrow> time) \<Rightarrow> bytes list \<Rightarrow> PacketBatch list \<Rightarrow> ShardedFlowTable
    \<Rightarrow> (FlowKey \<times> string \<times> bytes) list list \<times> ShardedFlowTable" where
  "Submit policy clock batch scratch s =
     (let scratch = foldl (distribute (length s)) (map Batch_Reset scratch) batch;
          rs = map (\<lambda>i. worker policy (clock i) 0 (packets (scratch ! i)) (s ! i)) [0..<length s]
      in (map fst rs, map snd rs))"

section \<open>Sharding is invisible\<close>

text \<open>The shards of a table: each holds the flows whose hash selects it.\<close>

definition split_table :: "nat \<Rightarrow> FlowTable \<Rightarrow> ShardedFlowTable" where
  "split_table n t = map (\<lambda>i. t\<lparr>flows := filter (\<lambda>e. shard_index n (fst e) = i) (flows t)\<rparr>) [0..<n]"

lemma shard_index_less: "0 < n \<Longrightarrow> shard_index n k < n"
  by (simp add: shard_index_def)

lemma length_split_table [simp]: "length (split_table n t) = n"
  by (simp add: split_table_def)

lemma nth_split_table: "i < n \<Longrightarrow> split_table n t ! i = t\<lparr>flows := filter (\<lambda>e. shard_index n (fst e) = i) (flows t)\<rparr>"
  by (simp add: split_table_def)

lemma mget_filter_index: "mget (filter (\<lambda>e. P (fst e)) m) k = (if P k then mget m k else None)"
  by (induction m) auto

lemma filter_mput:
  "filter (\<lambda>e. P (fst e)) (mput k v m) = (if P k then mput k v (filter (\<lambda>e. P (fst e)) m) else filter (\<lambda>e. P (fst e)) m)"
  by (induction m) auto

lemma Egress_shard:
  assumes "0 < n"
  shows "sh_Egress policy now key (split_table n t) = (case Egress policy now key t of (e, t') \<Rightarrow> (e, split_table n t'))"
proof -
  let ?i = "shard_index n key"
  have i: "?i < n" using assms by (rule shard_index_less)
  have "split_table n t ! ?i = t\<lparr>flows := filter (\<lambda>e. shard_index n (fst e) = ?i) (flows t)\<rparr>" by (rule nth_split_table [OF i])
  then have "Egress policy now key (split_table n t ! ?i) =
      (case Egress policy now key t of (e, t') \<Rightarrow> (e, t'\<lparr>flows := filter (\<lambda>e. shard_index n (fst e) = ?i) (flows t')\<rparr>))"
    by (simp add: Egress_def Let_def mget_filter_index [where P = "\<lambda>x. shard_index n x = ?i"] filter_mput [where P = "\<lambda>x. shard_index n x = ?i"])
  moreover have "(split_table n t)[?i := t'\<lparr>flows := filter (\<lambda>e. shard_index n (fst e) = ?i) (flows t')\<rparr>] = split_table n t'"
    if "t' = snd (Egress policy now key t)" for t'
    unfolding that by (rule nth_equalityI)
      (auto simp: nth_list_update nth_split_table i Egress_def Let_def filter_mput [where P = "\<lambda>x. shard_index n x = j" for j])
  ultimately show ?thesis by (simp add: sh_Egress_def ShardIndex_def case_prod_beta)
qed

lemma sum_filter_index:
  assumes "\<forall>e\<in>set m. f e < n"
  shows "(\<Sum>i\<leftarrow>[0..<n]. length (filter (\<lambda>e. f e = i) m)) = length m"
proof -
  have "(\<Sum>i<n. length (filter (\<lambda>e. f e = i) m)) = length m" using assms
  proof (induction m)
    case (Cons e m)
    have "length (filter (\<lambda>e. f e = i) (e # m)) = (if f e = i then 1 else 0) + length (filter (\<lambda>e. f e = i) m)" for i by simp
    with Cons show ?case by (simp add: sum.distrib del: filter.simps)
  qed simp
  then show ?thesis by (simp add: interv_sum_list_conv_sum_set_nat atLeast0LessThan)
qed

lemma EvictIdle_shard:
  assumes "0 < n"
  shows "sh_EvictIdle (\<lambda>_. now) (split_table n t) = (case EvictIdle now t of (r, t') \<Rightarrow> (r, split_table n t'))"
proof (cases "idleTTL t \<le> 0")
  case True
  have "map (\<lambda>i. split_table n t ! i) [0..<n] = split_table n t" by (metis length_split_table map_nth)
  with True show ?thesis
    by (simp add: sh_EvictIdle_def EvictIdle_def Let_def nth_split_table o_def sum_list_triv cong: map_cong)
      (simp add: split_table_def)
next
  case False
  let ?idle = "\<lambda>(_, e). feLastSeen e < now - idleTTL t"
  have e: "EvictIdle now (split_table n t ! i) =
      (length (filter (\<lambda>e. shard_index n (fst e) = i) (filter ?idle (flows t))),
       t\<lparr>flows := filter (\<lambda>e. shard_index n (fst e) = i) (filter (Not \<circ> ?idle) (flows t))\<rparr>)" if "i < n" for i
    using False that by (simp add: EvictIdle_def nth_split_table Let_def conj_commute)
  have sum: "(\<Sum>i\<leftarrow>[0..<n]. length (filter (\<lambda>e. shard_index n (fst e) = i) (filter ?idle (flows t)))) = length (filter ?idle (flows t))"
    using assms by (intro sum_filter_index) (simp add: shard_index_less)
  have rs: "map (\<lambda>i. EvictIdle now (split_table n t ! i)) [0..<n] =
      map (\<lambda>i. (length (filter (\<lambda>e. shard_index n (fst e) = i) (filter ?idle (flows t))),
        t\<lparr>flows := filter (\<lambda>e. shard_index n (fst e) = i) (filter (Not \<circ> ?idle) (flows t))\<rparr>)) [0..<n]"
    by (rule map_cong [OF refl]) (rule e, simp)
  have ev: "EvictIdle now t = (length (filter ?idle (flows t)), t\<lparr>flows := filter (Not \<circ> ?idle) (flows t)\<rparr>)"
    using False by (simp add: EvictIdle_def Let_def)
  show ?thesis unfolding sh_EvictIdle_def length_split_table Let_def rs ev
    by (simp only: map_map o_def fst_conv snd_conv sum prod.case) (simp add: split_table_def o_def)
qed

lemma Len_shard: "0 < n \<Longrightarrow> sh_Len (split_table n t) = Len t"
  by (simp add: sh_Len_def Len_def split_table_def o_def sum_filter_index shard_index_less)

lemma Lookup_shard: "0 < n \<Longrightarrow> sh_Lookup key (split_table n t) = Lookup key t" "0 < n \<Longrightarrow> sh_Snapshot key (split_table n t) = Snapshot key t"
  by (simp_all add: sh_Lookup_def Lookup_def sh_Snapshot_def Snapshot_def ShardIndex_def nth_split_table shard_index_less
      mget_filter_index [where P = "\<lambda>x. shard_index n x = j" for j])

datatype flow_op = OEgress FlowPolicy time FlowKey | OEvict time | OLookup FlowKey | OSnapshot FlowKey | OLen

datatype flow_res = REgress string | RCount nat | RLookup "string option" | RSnapshot "FlowEntry option"

definition flow_step :: "flow_op \<Rightarrow> FlowTable \<Rightarrow> flow_res \<times> FlowTable" where
  "flow_step op t = (case op of
     OEgress policy now key \<Rightarrow> (case Egress policy now key t of (e, t) \<Rightarrow> (REgress e, t))
   | OEvict now \<Rightarrow> (case EvictIdle now t of (n, t) \<Rightarrow> (RCount n, t))
   | OLookup key \<Rightarrow> (RLookup (Lookup key t), t)
   | OSnapshot key \<Rightarrow> (RSnapshot (Snapshot key t), t)
   | OLen \<Rightarrow> (RCount (Len t), t))"

definition sh_step :: "flow_op \<Rightarrow> ShardedFlowTable \<Rightarrow> flow_res \<times> ShardedFlowTable" where
  "sh_step op s = (case op of
     OEgress policy now key \<Rightarrow> (case sh_Egress policy now key s of (e, s) \<Rightarrow> (REgress e, s))
   | OEvict now \<Rightarrow> (case sh_EvictIdle (\<lambda>_. now) s of (n, s) \<Rightarrow> (RCount n, s))
   | OLookup key \<Rightarrow> (RLookup (sh_Lookup key s), s)
   | OSnapshot key \<Rightarrow> (RSnapshot (sh_Snapshot key s), s)
   | OLen \<Rightarrow> (RCount (sh_Len s), s))"

fun steps :: "('op \<Rightarrow> 't \<Rightarrow> 'r \<times> 't) \<Rightarrow> 'op list \<Rightarrow> 't \<Rightarrow> 'r list \<times> 't" where
  "steps f [] t = ([], t)"
| "steps f (op # ops) t = (case f op t of (r, t) \<Rightarrow> case steps f ops t of (rs, t) \<Rightarrow> (r # rs, t))"

lemma step_shard: "0 < n \<Longrightarrow> sh_step op (split_table n t) = (case flow_step op t of (r, t') \<Rightarrow> (r, split_table n t'))"
  by (cases op) (simp_all add: sh_step_def flow_step_def Egress_shard EvictIdle_shard Len_shard Lookup_shard case_prod_beta)

lemma steps_shard: "0 < n \<Longrightarrow> steps sh_step ops (split_table n t) = (case steps flow_step ops t of (rs, t') \<Rightarrow> (rs, split_table n t'))"
  by (induction ops arbitrary: t) (simp_all add: step_shard case_prod_beta)

lemma New_shard: "NewShardedFlowTable cpus c ttl = split_table (nat (if c \<le> 0 then int cpus else c)) (NewFlowTable ttl)"
  by (simp add: NewShardedFlowTable_def split_table_def NewFlowTable_def Let_def map_replicate_const)



section \<open>Flows stay where they are\<close>

text \<open>The times operations read the clock at.\<close>

definition op_times :: "flow_op \<Rightarrow> time list" where
  "op_times op = (case op of OEgress _ now _ \<Rightarrow> [now] | OEvict now \<Rightarrow> [now] | _ \<Rightarrow> [])"

definition pinned :: "FlowKey \<Rightarrow> string \<Rightarrow> time \<Rightarrow> FlowTable \<Rightarrow> bool" where
  "pinned key e t0 t \<longleftrightarrow> (\<exists>en. mget (flows t) key = Some en \<and> feEgressID en = e \<and> t0 \<le> feLastSeen en)"

lemma mget_filter_keep: "mget m k = Some v \<Longrightarrow> P (k, v) \<Longrightarrow> mget (filter P m) k = Some v"
  by (induction m) (auto split: if_splits)

lemma pinned_step:
  assumes "pinned key e t0 t" "\<forall>now\<in>set (op_times op). t0 \<le> now \<and> now \<le> t0 + idleTTL t"
  shows "pinned key e t0 (snd (flow_step op t)) \<and> idleTTL (snd (flow_step op t)) = idleTTL t"
proof (cases op)
  case (OEgress policy now k)
  with assms show ?thesis by (auto simp: flow_step_def Egress_def pinned_def op_times_def Let_def)
next
  case (OEvict now)
  obtain en where en: "mget (flows t) key = Some en" "feEgressID en = e" "t0 \<le> feLastSeen en" using assms(1) by (auto simp: pinned_def)
  have "\<not> feLastSeen en < now - idleTTL t" using assms(2) en(3) by (simp add: OEvict op_times_def)
  then have "mget (filter (Not \<circ> (\<lambda>(_, e). feLastSeen e < now - idleTTL t)) (flows t)) key = Some en"
    by (intro mget_filter_keep en(1)) simp
  with en show ?thesis by (auto simp: OEvict flow_step_def EvictIdle_def Let_def pinned_def)
qed (use assms in \<open>simp_all add: flow_step_def\<close>)

lemma pinned_steps:
  "pinned key e t0 t \<Longrightarrow> \<forall>op\<in>set ops. \<forall>now\<in>set (op_times op). t0 \<le> now \<and> now \<le> t0 + idleTTL t \<Longrightarrow>
     pinned key e t0 (snd (steps flow_step ops t))"
proof (induction ops arbitrary: t)
  case (Cons op ops)
  have "pinned key e t0 (snd (flow_step op t)) \<and> idleTTL (snd (flow_step op t)) = idleTTL t"
    by (rule pinned_step [OF Cons.prems(1)]) (use Cons.prems(2) in simp)
  with Cons show ?case by (simp add: case_prod_beta)
qed simp

text \<open>
  A flow keeps its egress: once a packet of a flow was given an egress, every later packet of it gets the
  same one, whatever the policy would answer by then and whatever happens to other flows or evictions in
  between, as long as no more than the idle time passes.
\<close>

theorem flow_keeps_egress:
  assumes "Egress policy t0 key t = (e, t')"
    and "\<forall>op\<in>set ops. \<forall>now\<in>set (op_times op). t0 \<le> now \<and> now \<le> t0 + idleTTL t"
  shows "fst (Egress policy' now key (snd (steps flow_step ops t'))) = e"
proof -
  have "pinned key e t0 t'" "idleTTL t' = idleTTL t" using assms(1) by (auto simp: Egress_def Let_def pinned_def)
  with assms(2) have "pinned key e t0 (snd (steps flow_step ops t'))" by (intro pinned_steps) simp_all
  then show ?thesis by (auto simp: pinned_def Egress_def Let_def)
qed

definition demo_key :: FlowKey where
  "demo_key = \<lparr>fkProto = ProtoTCP, fkSrcAddr = Addr4 1, fkSrcPort = 80, fkDstAddr = Addr4 2, fkDstPort = 90\<rparr>"

theorem flow_keeps_egress_witness:
  "fst (Egress (StaticEgressPolicy ''e2'') 12 demo_key (snd (steps flow_step [OEvict 9, OLen] (snd (Egress (StaticEgressPolicy ''e1'') 0 demo_key (NewFlowTable 10)))))) = ''e1''"
  using flow_keeps_egress [of "StaticEgressPolicy ''e1''" 0 demo_key "NewFlowTable 10" "''e1''"
      "snd (Egress (StaticEgressPolicy ''e1'') 0 demo_key (NewFlowTable 10))" "[OEvict 9, OLen]"]
  by (simp add: Egress_def NewFlowTable_def StaticEgressPolicy_def op_times_def)

section \<open>The worker pool\<close>

definition flow_of :: "bytes \<Rightarrow> FlowKey option" where
  "flow_of p = (case ParseFlowKey p of Inr k \<Rightarrow> Some k | Inl _ \<Rightarrow> None)"

text \<open>The packets of shard \<open>i\<close> of \<open>n\<close>.\<close>

definition for_shard :: "nat \<Rightarrow> nat \<Rightarrow> bytes \<Rightarrow> bool" where
  "for_shard n i p = (case flow_of p of Some k \<Rightarrow> shard_index n k = i | None \<Rightarrow> False)"

lemma for_shardD: "for_shard n i p \<Longrightarrow> \<exists>k. flow_of p = Some k \<and> shard_index n k = i"
  by (auto simp: for_shard_def split: option.splits)

text \<open>The egress a flow has, or is given by the policy.\<close>

definition egress_of :: "FlowPolicy \<Rightarrow> FlowTable \<Rightarrow> FlowKey \<Rightarrow> string" where
  "egress_of policy t k = (case mget (flows t) k of Some e \<Rightarrow> feEgressID e | None \<Rightarrow> policy k)"

lemma egress_of_Egress: "egress_of policy (snd (Egress policy now k t)) = egress_of policy t" "fst (Egress policy now k t) = egress_of policy t k"
  by (auto simp: fun_eq_iff egress_of_def Egress_def Let_def split: option.split)

lemma worker_out:
  "\<forall>p\<in>set ps. flow_of p \<noteq> None \<Longrightarrow>
     fst (worker policy clock j ps t) = map (\<lambda>p. (the (flow_of p), egress_of policy t (the (flow_of p)), p)) ps"
proof (induction ps arbitrary: j t)
  case (Cons p ps)
  then obtain k where k: "ParseFlowKey p = Inr k" by (auto simp: flow_of_def split: sum.splits)
  then have "flow_of p = Some k" by (simp add: flow_of_def)
  with Cons k show ?case by (simp add: case_prod_beta egress_of_Egress)
qed simp

definition room :: "PacketBatch \<Rightarrow> bool" where
  "room b \<longleftrightarrow> length (packets b) \<le> cap b"

lemma distribute_nth:
  assumes "length scratch = n" "0 < n" "i < n" "room (scratch ! i)"
  shows "distribute n scratch p ! i = (scratch ! i)\<lparr>packets := take (cap (scratch ! i)) (packets (scratch ! i) @ filter (for_shard n i) [p])\<rparr>"
    "length (distribute n scratch p) = n"
  using assms shard_index_less [OF assms(2)]
  by (auto simp: distribute_def for_shard_def flow_of_def Batch_Add_def room_def nth_list_update split: sum.splits)

lemma take_take_append: "take c (take c xs @ ys) = take c (xs @ ys)"
  by (cases "length xs \<le> c") simp_all

lemma distribute_all:
  "length scratch = n \<Longrightarrow> 0 < n \<Longrightarrow> i < n \<Longrightarrow> room (scratch ! i) \<Longrightarrow>
     packets (foldl (distribute n) scratch batch ! i) = take (cap (scratch ! i)) (packets (scratch ! i) @ filter (for_shard n i) batch)"
proof (induction batch arbitrary: scratch)
  case (Cons p batch)
  note d = distribute_nth [OF Cons.prems]
  have "room (distribute n scratch p ! i)" by (simp add: d(1) room_def)
  from Cons.IH [OF d(2) Cons.prems(2,3) this]
  have "packets (foldl (distribute n) scratch (p # batch) ! i) =
      take (cap (scratch ! i)) (take (cap (scratch ! i)) (packets (scratch ! i) @ filter (for_shard n i) [p]) @ filter (for_shard n i) batch)"
    by (simp add: d(1) del: filter.simps)
  moreover have "filter (for_shard n i) (p # batch) = filter (for_shard n i) [p] @ filter (for_shard n i) batch" by simp
  ultimately show ?case by (simp only: take_take_append append_assoc)
qed (simp add: room_def)


definition demo_packet :: bytes where
  "demo_packet = [0x45, 0, 0, 28, 0, 0, 0, 0, 64, 1, 0, 0, 10, 0, 0, 1, 10, 0, 0, 2, 8, 0, 0, 0]"


end
