(* ===== verification/BucketRoute.thy ===== *)
theory BucketRoute
  imports Netip "HOL-Library.Sublist"
begin

text \<open>
  \<^verbatim>\<open>internal/tunnel/bucketroute.go\<close> and \<^verbatim>\<open>routing.go\<close>: firewall marks and routing tables per egress, buckets of
  flows assigned to egresses, and sending all traffic of a host into a tunnel and back. The command \<^verbatim>\<open>ip\<close>
  is a parameter: whether a command worked and the host after it, and the text \<^verbatim>\<open>ip rule show\<close> or \<^verbatim>\<open>ip route get\<close>
  prints.
\<close>

section \<open>Model\<close>

record RouteInfo =
  riGateway :: Addr
  riInterface :: string

type_synonym 'h cmd = "string list \<Rightarrow> 'h \<Rightarrow> bool \<times> 'h"

record egressEntry =
  eeMark :: u32
  eeTableID :: nat
  eeRoute :: RouteInfo

record EgressRouteTable =
  nextMark :: u32
  nextTableID :: nat
  egresses :: "(string, egressEntry) gomap"

definition NewEgressRouteTable :: "nat \<Rightarrow> EgressRouteTable" where
  "NewEgressRouteTable baseTableID = \<lparr>nextMark = 1, nextTableID = baseTableID, egresses = []\<rparr>"

definition RegisterEgress :: "string \<Rightarrow> RouteInfo \<Rightarrow> EgressRouteTable \<Rightarrow> u32 \<times> EgressRouteTable" where
  "RegisterEgress i route t =
     (case mget (egresses t) i of
        Some e \<Rightarrow> (eeMark e, t)
      | None \<Rightarrow>
          (let e = \<lparr>eeMark = nextMark t, eeTableID = nextTableID t, eeRoute = route\<rparr>
           in (eeMark e, t\<lparr>nextMark := nextMark t + 1, nextTableID := nextTableID t + 1, egresses := mput i e (egresses t)\<rparr>)))"

definition Mark :: "string \<Rightarrow> EgressRouteTable \<Rightarrow> u32 option" where
  "Mark i t = map_option eeMark (mget (egresses t) i)"

definition TableID :: "string \<Rightarrow> EgressRouteTable \<Rightarrow> nat option" where
  "TableID i t = map_option eeTableID (mget (egresses t) i)"

definition Route_of :: "string \<Rightarrow> EgressRouteTable \<Rightarrow> RouteInfo option" where
  "Route_of i t = map_option eeRoute (mget (egresses t) i)"

definition Egresses :: "EgressRouteTable \<Rightarrow> string list" where
  "Egresses t = mkeys (egresses t)"

definition markHex :: "u32 \<Rightarrow> string" where
  "markHex mark = ''0x'' @ hex (unat mark)"

definition ruleArgs :: "u32 \<Rightarrow> nat \<Rightarrow> string list" where
  "ruleArgs mark tableID = [''rule'', ''add'', ''fwmark'', markHex mark, ''table'', dec tableID]"

definition ruleDelArgs :: "u32 \<Rightarrow> nat \<Rightarrow> string list" where
  "ruleDelArgs mark tableID = [''rule'', ''del'', ''fwmark'', markHex mark, ''table'', dec tableID]"

definition via_args :: "RouteInfo \<Rightarrow> string list" where
  "via_args r = (if riGateway r \<noteq> NoAddr then [''via'', Addr_String (riGateway r)] else [])"

definition routeArgs :: "nat \<Rightarrow> RouteInfo \<Rightarrow> string list" where
  "routeArgs tableID route = [''route'', ''replace'', ''default''] @ via_args route @ [''dev'', riInterface route, ''table'', dec tableID]"

text \<open>\<^verbatim>\<open>hasRule\<close> on what \<^verbatim>\<open>ip rule show\<close> printed: some line contains both texts.\<close>

definition newline :: char where "newline = char_of (10 :: nat)"

definition hasRule :: "u32 \<Rightarrow> nat \<Rightarrow> string \<Rightarrow> bool" where
  "hasRule mark tableID out =
     list_ex (\<lambda>line. sublist (''fwmark '' @ markHex mark) line \<and> sublist (''lookup '' @ dec tableID) line) (split_on newline out)"

datatype routeErr = NeverRegistered | ShowFailed | RuleFailed | RouteFailed

definition Apply :: "'h cmd \<Rightarrow> ('h \<Rightarrow> string option) \<Rightarrow> string \<Rightarrow> EgressRouteTable \<Rightarrow> 'h \<Rightarrow> routeErr option \<times> 'h" where
  "Apply ip rules i t h =
     (case mget (egresses t) i of
        None \<Rightarrow> (Some NeverRegistered, h)
      | Some e \<Rightarrow>
          (case rules h of
             None \<Rightarrow> (Some ShowFailed, h)
           | Some out \<Rightarrow>
               (case (if hasRule (eeMark e) (eeTableID e) out then (True, h) else ip (ruleArgs (eeMark e) (eeTableID e)) h) of
                  (False, h) \<Rightarrow> (Some RuleFailed, h)
                | (True, h) \<Rightarrow>
                    (case ip (routeArgs (eeTableID e) (eeRoute e)) h of
                       (False, h) \<Rightarrow> (Some RouteFailed, h)
                     | (True, h) \<Rightarrow> (None, h)))))"

definition Teardown :: "'h cmd \<Rightarrow> string \<Rightarrow> EgressRouteTable \<Rightarrow> 'h \<Rightarrow> routeErr list \<times> 'h" where
  "Teardown ip i t h =
     (case mget (egresses t) i of
        None \<Rightarrow> ([NeverRegistered], h)
      | Some e \<Rightarrow>
          (let (ok1, h) = ip (ruleDelArgs (eeMark e) (eeTableID e)) h;
               (ok2, h) = ip [''route'', ''flush'', ''table'', dec (eeTableID e)] h
           in ((if ok1 then [] else [RuleFailed]) @ (if ok2 then [] else [RouteFailed]), h)))"

record BucketEgressMap =
  routes :: EgressRouteTable
  assignments :: "(string, string) gomap"

definition NewBucketEgressMap :: "EgressRouteTable \<Rightarrow> BucketEgressMap" where
  "NewBucketEgressMap r = \<lparr>routes = r, assignments = []\<rparr>"

definition Assign :: "string \<Rightarrow> string \<Rightarrow> BucketEgressMap \<Rightarrow> BucketEgressMap" where
  "Assign bucket egress b = b\<lparr>assignments := mput bucket egress (assignments b)\<rparr>"

definition EgressFor :: "string \<Rightarrow> BucketEgressMap \<Rightarrow> string option" where
  "EgressFor bucket b = mget (assignments b) bucket"

definition LabelNewFlow :: "string \<Rightarrow> BucketEgressMap \<Rightarrow> u32 option" where
  "LabelNewFlow bucket b = (case mget (assignments b) bucket of None \<Rightarrow> None | Some egress \<Rightarrow> Mark egress (routes b))"

text \<open>\<^verbatim>\<open>strings.Fields\<close>: the runs of characters that are not white space.\<close>

definition is_space :: "char \<Rightarrow> bool" where
  "is_space c \<longleftrightarrow> (of_char c :: nat) \<in> {9, 10, 11, 12, 13, 32}"

fun fields_from :: "string \<Rightarrow> string \<Rightarrow> string list" where
  "fields_from w [] = (if w = [] then [] else [w])"
| "fields_from w (c # s) = (if is_space c then (if w = [] then fields_from [] s else w # fields_from [] s) else fields_from (w @ [c]) s)"

definition Fields :: "string \<Rightarrow> string list" where
  "Fields s = fields_from [] s"

fun route_fields :: "RouteInfo \<Rightarrow> string list \<Rightarrow> RouteInfo option" where
  "route_fields info [] = Some info"
| "route_fields info (f # fs) =
     (if f = ''via'' then
        (case fs of
           [] \<Rightarrow> None
         | g # _ \<Rightarrow> (case ParseAddr g of None \<Rightarrow> None | Some a \<Rightarrow> route_fields (info\<lparr>riGateway := a\<rparr>) fs))
      else if f = ''dev'' then
        (case fs of [] \<Rightarrow> None | g # _ \<Rightarrow> route_fields (info\<lparr>riInterface := g\<rparr>) fs)
      else route_fields info fs)"

definition parseRouteGet :: "string \<Rightarrow> RouteInfo option" where
  "parseRouteGet output =
     (case route_fields \<lparr>riGateway = NoAddr, riInterface = []\<rparr> (Fields output) of
        None \<Rightarrow> None
      | Some info \<Rightarrow> if riInterface info = [] then None else Some info)"

definition AddBypassRoute :: "'h cmd \<Rightarrow> Addr \<Rightarrow> RouteInfo \<Rightarrow> 'h \<Rightarrow> bool \<times> 'h" where
  "AddBypassRoute ip gatewayIP via h = ip ([''route'', ''add'', Addr_String gatewayIP @ ''/32''] @ via_args via @ [''dev'', riInterface via]) h"

definition RemoveBypassRoute :: "'h cmd \<Rightarrow> Addr \<Rightarrow> 'h \<Rightarrow> bool \<times> 'h" where
  "RemoveBypassRoute ip gatewayIP h = ip [''route'', ''del'', Addr_String gatewayIP @ ''/32''] h"

definition SetFullTunnelDefault :: "'h cmd \<Rightarrow> string \<Rightarrow> 'h \<Rightarrow> bool \<times> 'h" where
  "SetFullTunnelDefault ip tunInterface h = ip [''route'', ''replace'', ''default'', ''dev'', tunInterface] h"

definition RestoreDefaultRoute :: "'h cmd \<Rightarrow> RouteInfo \<Rightarrow> 'h \<Rightarrow> bool \<times> 'h" where
  "RestoreDefaultRoute ip original h = ip ([''route'', ''replace'', ''default''] @ via_args original @ [''dev'', riInterface original]) h"

text \<open>
  \<^verbatim>\<open>EnableFullTunnel\<close>: the route found before, for the closure it returns, or \<open>None\<close> on an error.
  \<open>route_get\<close> is what \<^verbatim>\<open>ip route get\<close> prints for the gateway.
\<close>

definition EnableFullTunnel :: "'h cmd \<Rightarrow> ('h \<Rightarrow> string option) \<Rightarrow> string \<Rightarrow> Addr \<Rightarrow> 'h \<Rightarrow> RouteInfo option \<times> 'h" where
  "EnableFullTunnel ip route_get tunInterface gatewayEndpoint h =
     (case (case route_get h of None \<Rightarrow> None | Some out \<Rightarrow> parseRouteGet out) of
        None \<Rightarrow> (None, h)
      | Some original \<Rightarrow>
          (case AddBypassRoute ip gatewayEndpoint original h of
             (False, h) \<Rightarrow> (None, h)
           | (True, h) \<Rightarrow>
               (case SetFullTunnelDefault ip tunInterface h of
                  (False, h) \<Rightarrow> (None, snd (RemoveBypassRoute ip gatewayEndpoint h))
                | (True, h) \<Rightarrow> (Some original, h))))"

definition restore :: "'h cmd \<Rightarrow> Addr \<Rightarrow> RouteInfo \<Rightarrow> 'h \<Rightarrow> bool \<times> 'h" where
  "restore ip gatewayEndpoint original h =
     (let (ok1, h) = RestoreDefaultRoute ip original h; (ok2, h) = RemoveBypassRoute ip gatewayEndpoint h in (ok1 \<and> ok2, h))"

section \<open>Marks\<close>

fun register_all :: "(string \<times> RouteInfo) list \<Rightarrow> EgressRouteTable \<Rightarrow> EgressRouteTable" where
  "register_all [] t = t"
| "register_all ((i, r) # rs) t = register_all rs (snd (RegisterEgress i r t))"

text \<open>Below the wrap of the mark, the \<open>k\<close>-th egress registered has mark \<open>k + 1\<close> and table \<open>base + k\<close>.\<close>

definition marks_ok :: "nat \<Rightarrow> EgressRouteTable \<Rightarrow> bool" where
  "marks_ok base t \<longleftrightarrow> mwf (egresses t) \<and> unat (nextMark t) = length (egresses t) + 1 \<and> nextTableID t = base + length (egresses t)
     \<and> (\<forall>k < length (egresses t). unat (eeMark (snd (egresses t ! k))) = k + 1 \<and> eeTableID (snd (egresses t ! k)) = base + k)"

lemma marks_ok_New: "marks_ok base (NewEgressRouteTable base)"
  by (simp add: marks_ok_def NewEgressRouteTable_def)

lemma unat_Suc: "unat w + 1 < 2 ^ 32 \<Longrightarrow> unat (w + 1 :: u32) = unat w + 1"
  by (subst unat_add_lem [THEN iffD1]) simp_all

lemma Register_known: "mget (egresses t) i = Some e \<Longrightarrow> RegisterEgress i r t = (eeMark e, t)"
  by (simp add: RegisterEgress_def)

lemma Register_new:
  "mget (egresses t) i = None \<Longrightarrow> RegisterEgress i r t =
    (nextMark t, t\<lparr>nextMark := nextMark t + 1, nextTableID := nextTableID t + 1,
      egresses := egresses t @ [(i, \<lparr>eeMark = nextMark t, eeTableID = nextTableID t, eeRoute = r\<rparr>)]\<rparr>)"
  by (simp add: RegisterEgress_def Let_def mput_new)

lemma marks_ok_Register:
  assumes "marks_ok base t" "length (egresses t) + 2 < 2 ^ 32"
  shows "marks_ok base (snd (RegisterEgress i r t))" "length (egresses (snd (RegisterEgress i r t))) \<le> length (egresses t) + 1"
proof -
  have w: "unat (nextMark t + 1) = length (egresses t) + 2"
    using assms by (subst unat_Suc) (simp_all add: marks_ok_def)
  show "marks_ok base (snd (RegisterEgress i r t))"
  proof (cases "mget (egresses t) i")
    case None
    have "i \<notin> fst ` set (egresses t)" using None by (simp add: mget_None_iff)
    then show ?thesis using assms(1) w by (auto simp: Register_new [OF None] marks_ok_def nth_append less_Suc_eq)
  qed (use assms(1) in \<open>simp add: Register_known\<close>)
  show "length (egresses (snd (RegisterEgress i r t))) \<le> length (egresses t) + 1"
    by (cases "mget (egresses t) i") (simp_all add: Register_known Register_new)
qed

lemma register_all_ok:
  "marks_ok base t \<Longrightarrow> length (egresses t) + length rs + 2 < 2 ^ 32 \<Longrightarrow> marks_ok base (register_all rs t)"
proof (induction rs arbitrary: t)
  case (Cons e rs)
  obtain i r where e: "e = (i, r)" by (cases e)
  have l: "length (egresses t) + 2 < 2 ^ 32" using Cons.prems(2) by simp
  note s = marks_ok_Register [OF Cons.prems(1) l, of i r]
  show ?case unfolding e register_all.simps by (rule Cons.IH [OF s(1)]) (use s(2) Cons.prems(2) in simp)
qed simp

text \<open>Registering keeps what is registered.\<close>

lemma register_keeps: "mget (egresses t) i = Some e \<Longrightarrow> mget (egresses (register_all rs t)) i = Some e"
proof (induction rs arbitrary: t)
  case (Cons f rs)
  obtain j r where f: "f = (j, r)" by (cases f)
  have "mget (egresses (snd (RegisterEgress j r t))) i = Some e"
    using Cons.prems by (cases "mget (egresses t) j") (auto simp: RegisterEgress_def Let_def)
  then show ?case unfolding f register_all.simps by (rule Cons.IH)
qed simp

text \<open>
  Marks and tables tell egresses apart and never change: after registering fewer than 2^32 - 2 egresses in
  any order, with repetitions, no mark is zero, two egresses never share a mark or a table, and an egress
  registered before keeps both.
\<close>

theorem egress_marks_unique:
  assumes "length (rs @ qs) + 2 < 2 ^ 32"
    and "Mark i (register_all (rs @ qs) (NewEgressRouteTable base)) = Some m" "Mark j (register_all (rs @ qs) (NewEgressRouteTable base)) = Some m'"
  shows "m \<noteq> 0 \<and> (m = m' \<longleftrightarrow> i = j)
    \<and> (TableID i (register_all (rs @ qs) (NewEgressRouteTable base)) = TableID j (register_all (rs @ qs) (NewEgressRouteTable base)) \<longleftrightarrow> i = j)
    \<and> (\<forall>m0. Mark i (register_all rs (NewEgressRouteTable base)) = Some m0 \<longrightarrow> m0 = m)"
proof -
  let ?t = "register_all (rs @ qs) (NewEgressRouteTable base)"
  have ok: "marks_ok base ?t" by (rule register_all_ok [OF marks_ok_New]) (use assms(1) in \<open>simp add: NewEgressRouteTable_def\<close>)
  obtain e f where e: "mget (egresses ?t) i = Some e" "eeMark e = m" and f: "mget (egresses ?t) j = Some f" "eeMark f = m'"
    using assms(2,3) by (auto simp: Mark_def)
  have wf: "mwf (egresses ?t)" using ok by (simp add: marks_ok_def)
  obtain k l where k: "k < length (egresses ?t)" "egresses ?t ! k = (i, e)" and l: "l < length (egresses ?t)" "egresses ?t ! l = (j, f)"
    using e(1) f(1) by (metis in_set_conv_nth map_of_SomeD)
  have mk: "unat m = k + 1" "eeTableID e = base + k" "unat m' = l + 1" "eeTableID f = base + l"
    using ok k l e f by (auto simp: marks_ok_def)
  have ij: "i = j \<longleftrightarrow> k = l"
    using nth_eq_iff_index_eq [OF wf, of k l] k l by auto
  have split: "register_all (rs @ qs) t = register_all qs (register_all rs t)" for t by (induction rs arbitrary: t) auto
  have "m0 = m" if m0: "Mark i (register_all rs (NewEgressRouteTable base)) = Some m0" for m0
  proof -
    obtain e0 where "mget (egresses (register_all rs (NewEgressRouteTable base))) i = Some e0" "eeMark e0 = m0" using m0 by (auto simp: Mark_def)
    with register_keeps [of "register_all rs (NewEgressRouteTable base)" i e0 qs] e show ?thesis by (simp add: split)
  qed
  moreover have "m = m' \<longleftrightarrow> k = l" using mk(1,3) by (auto simp: word_unat_eq_iff)
  moreover have "m \<noteq> 0" using mk(1) by auto
  ultimately show ?thesis using ij mk e f by (simp add: TableID_def)
qed

definition demo_route :: RouteInfo where
  "demo_route = \<lparr>riGateway = Addr4 1, riInterface = ''eth0''\<rparr>"

lemma egress_marks_unique_witness:
  "Mark ''b'' (register_all ([(''a'', demo_route)] @ [(''b'', demo_route), (''a'', demo_route)]) (NewEgressRouteTable 100)) = Some 2
    \<and> TableID ''b'' (register_all ([(''a'', demo_route)] @ [(''b'', demo_route), (''a'', demo_route)]) (NewEgressRouteTable 100)) = Some 101
    \<and> (1 :: u32) \<noteq> 0"
  using egress_marks_unique [of "[(''a'', demo_route)]" "[(''b'', demo_route), (''a'', demo_route)]" "''a''" 100 1 "''b''" 2]
  by (simp add: Mark_def TableID_def RegisterEgress_def NewEgressRouteTable_def Let_def)

text \<open>A new flow is marked for the egress its bucket is assigned to; assigning another bucket changes nothing for it.\<close>

lemma LabelNewFlow_Assign:
  "LabelNewFlow bucket (Assign bucket' e b) = (if bucket' = bucket then Mark e (routes b) else LabelNewFlow bucket b)"
  by (simp add: LabelNewFlow_def Assign_def split: option.split)

text \<open>
  \<^verbatim>\<open>hasRule\<close> looks for texts, not for numbers: the rule of mark 0x10 and table 16 counts as the rule of mark
  0x1 and table 1, so applying the first egress of a table starting at 1 installs no rule for it and only
  the route.
\<close>

lemma Apply_skips_rule:
  "Apply ip (\<lambda>_. Some ''32765: from all fwmark 0x10 lookup 16'') ''a'' (register_all [(''a'', demo_route)] (NewEgressRouteTable 1)) h
    = (case ip (routeArgs 1 demo_route) h of (ok, h) \<Rightarrow> (if ok then None else Some RouteFailed, h))"
proof -
  have "hasRule 1 1 ''32765: from all fwmark 0x10 lookup 16''" by code_simp
  then show ?thesis
    by (simp add: Apply_def RegisterEgress_def NewEgressRouteTable_def Let_def split: prod.split bool.split)
qed

section \<open>Full tunnel\<close>

text \<open>
  What the routes of the host do under the commands used here: \<open>view\<close> gives the rest of the route to each
  destination. A failed command changes nothing; adding fails on a destination present and deleting works
  on one.
\<close>

definition main_routes :: "'h cmd \<Rightarrow> ('h \<Rightarrow> (string, string list) map) \<Rightarrow> bool" where
  "main_routes ip view \<longleftrightarrow>
     (\<forall>h d a. (let (ok, h') = ip ([''route'', ''replace'', d] @ a) h in view h' = (if ok then (view h)(d \<mapsto> a) else view h))
        \<and> (let (ok, h') = ip ([''route'', ''add'', d] @ a) h in view h' = (if ok then (view h)(d \<mapsto> a) else view h) \<and> (ok \<longrightarrow> view h d = None))
        \<and> (let (ok, h') = ip [''route'', ''del'', d] h in view h' = (if ok then (view h)(d := None) else view h) \<and> (view h d \<noteq> None \<longrightarrow> ok)))"

lemma main_routesD:
  assumes "main_routes ip view"
  shows "ip (''route'' # ''replace'' # d # a) h = (ok, h') \<Longrightarrow> view h' = (if ok then (view h)(d \<mapsto> a) else view h)"
    and "ip (''route'' # ''add'' # d # a) h = (ok, h') \<Longrightarrow> view h' = (if ok then (view h)(d \<mapsto> a) else view h) \<and> (ok \<longrightarrow> view h d = None)"
    and "ip [''route'', ''del'', d] h = (ok, h') \<Longrightarrow> view h' = (if ok then (view h)(d := None) else view h) \<and> (view h d \<noteq> None \<longrightarrow> ok)"
  using assms unfolding main_routes_def Let_def by (auto dest!: spec [of _ h] spec [of _ d] spec [of _ a])

lemma bypass_not_default: "Addr_String gw @ ''/32'' \<noteq> ''default''"
proof
  assume "Addr_String gw @ ''/32'' = ''default''"
  then have "last (Addr_String gw @ ''/32'') = last ''default''" by simp
  then show False by simp
qed

definition default_via :: "RouteInfo \<Rightarrow> string list" where
  "default_via r = via_args r @ [''dev'', riInterface r]"


text \<open>A host with the routes as its state, on which no command fails for another reason.\<close>

fun sim_ip :: "((string, string list) map) cmd" where
  "sim_ip (r # op # d # a) v =
     (if op = ''replace'' then (True, v(d \<mapsto> a))
      else if op = ''add'' then (if v d = None then (True, v(d \<mapsto> a)) else (False, v))
      else if op = ''del'' then (if v d = None then (False, v) else (True, v(d := None)))
      else (False, v))"
| "sim_ip _ v = (False, v)"

definition sim_view :: "(string, string list) map" where
  "sim_view = Map.empty(''default'' \<mapsto> [''dev'', ''eth0''])"


end
