(* ===== verification/PeerManager.thy ===== *)
theory PeerManager
  imports Keys Netip
begin

text \<open>
  \<^verbatim>\<open>internal/tunnel/peermanager.go\<close> and \<^verbatim>\<open>standby.go\<close>: the texts a WireGuard device is configured with and what is
  read back from it, and the standby paths kept warm. The device is a parameter: setting a text, which may
  fail, and the text it reports.
\<close>

section \<open>Model\<close>

record 'd wgdev =
  IpcSet :: "string \<Rightarrow> 'd \<Rightarrow> bool \<times> 'd"
  IpcGet :: "'d \<Rightarrow> string option"

definition nl :: char where "nl = char_of (10 :: nat)"

text \<open>\<^verbatim>\<open>time.Duration.Round(time.Second) / time.Second\<close> of a positive duration.\<close>

definition maxInt64 :: int where "maxInt64 = 2 ^ 63 - 1"

definition round_seconds :: "int \<Rightarrow> int" where
  "round_seconds d =
     (let m = 1000000000; r = d mod m
      in (if r + r < m then d - r else if d + m - r \<le> maxInt64 then d + m - r else maxInt64) div m)"

definition kv_line :: "string \<Rightarrow> string \<Rightarrow> string" where
  "kv_line k v = k @ ''='' @ v @ [nl]"

definition keepalive_seconds :: "int \<Rightarrow> int" where
  "keepalive_seconds d = (let s = round_seconds d in if s < 1 then 1 else s)"

definition AddPeer_text :: "bytes \<Rightarrow> Prefix list \<Rightarrow> string \<Rightarrow> int \<Rightarrow> string" where
  "AddPeer_text publicKey allowedIPs endpoint keepaliveInterval =
     kv_line ''public_key'' (Hex publicKey)
     @ (if endpoint \<noteq> [] then kv_line ''endpoint'' endpoint else [])
     @ concat (map (\<lambda>ip. kv_line ''allowed_ip'' (Prefix_String ip)) allowedIPs)
     @ (if keepaliveInterval > 0 then kv_line ''persistent_keepalive_interval'' (dec (nat (keepalive_seconds keepaliveInterval))) else [])"

definition AddPeer :: "'d wgdev \<Rightarrow> bytes \<Rightarrow> Prefix list \<Rightarrow> string \<Rightarrow> int \<Rightarrow> 'd \<Rightarrow> bool \<times> 'd" where
  "AddPeer W publicKey allowedIPs endpoint keepaliveInterval d = IpcSet W (AddPeer_text publicKey allowedIPs endpoint keepaliveInterval) d"

definition RemovePeer_text :: "bytes \<Rightarrow> string" where
  "RemovePeer_text publicKey = kv_line ''public_key'' (Hex publicKey) @ kv_line ''remove'' ''true''"

definition RemovePeer :: "'d wgdev \<Rightarrow> bytes \<Rightarrow> 'd \<Rightarrow> bool \<times> 'd" where
  "RemovePeer W publicKey d = IpcSet W (RemovePeer_text publicKey) d"

text \<open>\<^verbatim>\<open>strings.Cut(line, "=")\<close> and \<^verbatim>\<open>strconv.ParseInt(s, 10, 64)\<close>\<close>

definition Cut :: "string \<Rightarrow> (string \<times> string) option" where
  "Cut line = (if CHR ''='' \<in> set line then Some (takeWhile (\<lambda>c. c \<noteq> CHR ''='') line, tl (dropWhile (\<lambda>c. c \<noteq> CHR ''='') line)) else None)"

definition ParseInt :: "string \<Rightarrow> int option" where
  "ParseInt s =
     (let neg = (s \<noteq> [] \<and> hd s = CHR ''-''); ds = (if s \<noteq> [] \<and> (hd s = CHR ''-'' \<or> hd s = CHR ''+'') then tl s else s) in
      if ds = [] \<or> \<not> list_all is_digit ds then None
      else if neg then (if dec_value ds \<le> 2 ^ 63 then Some (- int (dec_value ds)) else None)
      else (if dec_value ds < 2 ^ 63 then Some (int (dec_value ds)) else None))"

text \<open>A loop over the lines that may stop with an error.\<close>

fun scan :: "(string \<Rightarrow> string \<Rightarrow> 's \<Rightarrow> 's option) \<Rightarrow> string list \<Rightarrow> 's \<Rightarrow> 's option" where
  "scan f [] s = Some s"
| "scan f (line # lines) s =
     (case Cut line of
        None \<Rightarrow> scan f lines s
      | Some (k, v) \<Rightarrow> (case f k v s of None \<Rightarrow> None | Some s \<Rightarrow> scan f lines s))"

fun find_port :: "string list \<Rightarrow> u16 option" where
  "find_port [] = None"
| "find_port (line # lines) =
     (case Cut line of
        None \<Rightarrow> find_port lines
      | Some (k, v) \<Rightarrow> (if k \<noteq> ''listen_port'' then find_port lines else ParseUint16 v))"

definition ListenPort :: "'d wgdev \<Rightarrow> 'd \<Rightarrow> u16 option" where
  "ListenPort W d = (case IpcGet W d of None \<Rightarrow> None | Some cfg \<Rightarrow> find_port (split_on nl cfg))"

text \<open>The two values of a peer, under the names they have in the text.\<close>

definition peer_line :: "(string \<Rightarrow> 'n option) \<Rightarrow> string \<Rightarrow> string \<Rightarrow> string \<Rightarrow> string \<Rightarrow> string \<Rightarrow> bool \<times> 'n \<times> 'n \<Rightarrow> (bool \<times> 'n \<times> 'n) option" where
  "peer_line parse want ka kb k v st =
     (let (inPeer, a, b) = st in
      if k = ''public_key'' then Some (v = want, a, b)
      else if k = ka then (if inPeer then map_option (\<lambda>n. (inPeer, n, b)) (parse v) else Some st)
      else if k = kb then (if inPeer then map_option (\<lambda>n. (inPeer, a, n)) (parse v) else Some st)
      else Some st)"

text \<open>Instants are nanoseconds since 1970; the zero time is the start of the year 1.\<close>

definition zeroTime :: int where "zeroTime = -62135596800000000000"

definition Unix :: "int \<Rightarrow> int \<Rightarrow> int" where
  "Unix sec nsec = sec * 1000000000 + nsec"

definition LastHandshake :: "'d wgdev \<Rightarrow> bytes \<Rightarrow> 'd \<Rightarrow> int option" where
  "LastHandshake W publicKey d =
     (case IpcGet W d of
        None \<Rightarrow> None
      | Some cfg \<Rightarrow>
          (case scan (peer_line ParseInt (Hex publicKey) ''last_handshake_time_sec'' ''last_handshake_time_nsec'') (split_on nl cfg) (False, 0, 0) of
             None \<Rightarrow> None
           | Some (_, sec, nsec) \<Rightarrow> Some (if sec = 0 \<and> nsec = 0 then zeroTime else Unix sec nsec)))"

definition PeerStats :: "'d wgdev \<Rightarrow> bytes \<Rightarrow> 'd \<Rightarrow> (u64 \<times> u64) option" where
  "PeerStats W publicKey d =
     (case IpcGet W d of
        None \<Rightarrow> None
      | Some cfg \<Rightarrow> map_option snd (scan (peer_line ParseUint (Hex publicKey) ''tx_bytes'' ''rx_bytes'') (split_on nl cfg) (False, 0, 0)))"

section \<open>Standby paths\<close>

record StandbyCandidate =
  scID :: string
  scPublicKey :: bytes
  scEndpoint :: string

record StandbyManager =
  keepalive :: int
  byID :: "(string, StandbyCandidate) gomap"

definition NewStandbyManager :: "int \<Rightarrow> StandbyManager option" where
  "NewStandbyManager ka = (if ka \<le> 0 then None else Some \<lparr>keepalive = ka, byID = []\<rparr>)"

text \<open>The part of \<^verbatim>\<open>Add\<close> that replaces the key of a known candidate.\<close>

definition replace_peer :: "'d wgdev \<Rightarrow> StandbyCandidate \<Rightarrow> StandbyManager \<Rightarrow> 'd \<Rightarrow> bool \<times> 'd" where
  "replace_peer W candidate m d =
     (case mget (byID m) (scID candidate) of
        Some existing \<Rightarrow> (if scPublicKey existing \<noteq> scPublicKey candidate then RemovePeer W (scPublicKey existing) d else (True, d))
      | None \<Rightarrow> (True, d))"

definition Add :: "'d wgdev \<Rightarrow> StandbyCandidate \<Rightarrow> StandbyManager \<Rightarrow> 'd \<Rightarrow> bool \<times> StandbyManager \<times> 'd" where
  "Add W candidate m d =
     (case replace_peer W candidate m d of
        (False, d) \<Rightarrow> (False, m, d)
      | (True, d) \<Rightarrow>
          (case AddPeer W (scPublicKey candidate) [] (scEndpoint candidate) (keepalive m) d of
             (False, d) \<Rightarrow> (False, m, d)
           | (True, d) \<Rightarrow> (True, m\<lparr>byID := mput (scID candidate) candidate (byID m)\<rparr>, d)))"

definition Remove :: "'d wgdev \<Rightarrow> string \<Rightarrow> StandbyManager \<Rightarrow> 'd \<Rightarrow> bool \<times> StandbyManager \<times> 'd" where
  "Remove W i m d =
     (case mget (byID m) i of
        None \<Rightarrow> (True, m, d)
      | Some candidate \<Rightarrow>
          (case RemovePeer W (scPublicKey candidate) d of
             (False, d) \<Rightarrow> (False, m, d)
           | (True, d) \<Rightarrow> (True, m\<lparr>byID := mdel i (byID m)\<rparr>, d)))"

text \<open>\<^verbatim>\<open>time.Since\<close> saturates at the ends of the durations.\<close>

definition Since :: "int \<Rightarrow> int \<Rightarrow> int" where
  "Since now t = max (- maxInt64 - 1) (min maxInt64 (now - t))"

definition IsWarm :: "'d wgdev \<Rightarrow> string \<Rightarrow> int \<Rightarrow> int \<Rightarrow> StandbyManager \<Rightarrow> 'd \<Rightarrow> bool option" where
  "IsWarm W i maxAge now m d =
     (case mget (byID m) i of
        None \<Rightarrow> None
      | Some candidate \<Rightarrow>
          (case LastHandshake W (scPublicKey candidate) d of
             None \<Rightarrow> None
           | Some t \<Rightarrow> Some (t \<noteq> zeroTime \<and> Since now t \<le> maxAge)))"

definition Candidates :: "StandbyManager \<Rightarrow> string list" where
  "Candidates m = mkeys (byID m)"

section \<open>Reading a peer back\<close>

text \<open>A report of the device: one line for each name and value, and an empty line at the end.\<close>

definition report :: "(string \<times> string) list \<Rightarrow> string" where
  "report kvs = concat (map (\<lambda>(k, v). kv_line k v) kvs) @ [nl]"

definition plain_kv :: "string \<times> string \<Rightarrow> bool" where
  "plain_kv e \<longleftrightarrow> CHR ''='' \<notin> set (fst e) \<and> nl \<notin> set (fst e) \<and> nl \<notin> set (snd e)"

fun fold_kv :: "(string \<Rightarrow> string \<Rightarrow> 's \<Rightarrow> 's option) \<Rightarrow> (string \<times> string) list \<Rightarrow> 's \<Rightarrow> 's option" where
  "fold_kv f [] s = Some s"
| "fold_kv f ((k, v) # kvs) s = (case f k v s of None \<Rightarrow> None | Some s \<Rightarrow> fold_kv f kvs s)"

lemma ParseInt_dec: "n < 2 ^ 63 \<Longrightarrow> ParseInt (dec n) = Some (int n)"
proof -
  have "is_digit (hd (dec n))" using dec_digits [of n] by (cases "dec n") (simp_all add: dec_nonempty)
  then have "hd (dec n) \<noteq> CHR ''-''" "hd (dec n) \<noteq> CHR ''+''" by (auto simp: is_digit_def)
  then show "n < 2 ^ 63 \<Longrightarrow> ?thesis" by (simp add: ParseInt_def Let_def dec_digits)
qed

lemma Cut_kv: "CHR ''='' \<notin> set k \<Longrightarrow> Cut (k @ CHR ''='' # v) = Some (k, v)"
  by (induction k) (auto simp: Cut_def)

lemma Cut_empty: "Cut [] = None"
  by (simp add: Cut_def)

lemma split_lines:
  "list_all plain_kv kvs \<Longrightarrow> split_on nl (concat (map (\<lambda>(k, v). kv_line k v) kvs) @ s) = map (\<lambda>(k, v). k @ CHR ''='' # v) kvs @ split_on nl s"
proof (induction kvs)
  case (Cons e kvs)
  obtain k v where e: "e = (k, v)" by (cases e)
  have "nl \<noteq> CHR ''=''" by code_simp
  then have "nl \<notin> set (k @ CHR ''='' # v)" using Cons.prems e by (auto simp: plain_kv_def)
  from split_on_app [OF this, of "concat (map (\<lambda>(k, v). kv_line k v) kvs) @ s"] show ?case using Cons e by (simp add: kv_line_def)
qed simp

lemma split_report:
  "list_all plain_kv kvs \<Longrightarrow> split_on nl (report kvs) = map (\<lambda>(k, v). k @ CHR ''='' # v) kvs @ [[], []]"
  by (simp add: report_def split_lines)

lemma scan_report: "list_all plain_kv kvs \<Longrightarrow> scan f (split_on nl (report kvs)) s = fold_kv f kvs s"
proof -
  have "scan f (map (\<lambda>(k, v). k @ CHR ''='' # v) kvs @ [[], []]) s = fold_kv f kvs s" if "list_all plain_kv kvs"
    using that by (induction kvs arbitrary: s) (auto simp: Cut_kv Cut_empty plain_kv_def split: option.split)
  then show "list_all plain_kv kvs \<Longrightarrow> ?thesis" by (simp add: split_report)
qed

lemma fold_kv_append: "fold_kv f (xs @ ys) s = (case fold_kv f xs s of None \<Rightarrow> None | Some s \<Rightarrow> fold_kv f ys s)"
  by (induction xs arbitrary: s) (auto split: option.split)

definition values_of :: "string \<Rightarrow> (string \<times> string) list \<Rightarrow> string list" where
  "values_of k kvs = map snd (filter (\<lambda>e. fst e = k) kvs)"

lemma values_of_simps [simp]:
  "values_of k [] = []" "values_of k ((k', v) # kvs) = (if k' = k then v # values_of k kvs else values_of k kvs)"
  by (simp_all add: values_of_def)

text \<open>Other peers leave what was read as it is; the peer itself sets both values.\<close>

lemma fold_other: "want \<notin> set (values_of ''public_key'' kvs) \<Longrightarrow> fold_kv (peer_line p want ka kb) kvs (False, a, b) = Some (False, a, b)"
  by (induction kvs) (auto simp: peer_line_def split: if_splits)

lemma fold_after:
  "post = [] \<or> fst (hd post) = ''public_key'' \<Longrightarrow> want \<notin> set (values_of ''public_key'' post)
    \<Longrightarrow> map_option snd (fold_kv (peer_line p want ka kb) post (True, a, b)) = Some (a, b)"
  using fold_other [of want "tl post" p ka kb a b] by (cases post) (auto simp: peer_line_def split: if_splits, blast)

lemma fold_own:
  assumes "values_of ''public_key'' body = []" "ka \<noteq> kb" "ka \<noteq> ''public_key''" "kb \<noteq> ''public_key''"
    and "list_all (\<lambda>v. p v \<noteq> None) (values_of ka body @ values_of kb body)"
  shows "fold_kv (peer_line p want ka kb) body (True, a, b) =
    Some (True, last (a # map (the \<circ> p) (values_of ka body)), last (b # map (the \<circ> p) (values_of kb body)))"
  using assms
proof (induction body arbitrary: a b)
  case (Cons e body)
  obtain k v where e: "e = (k, v)" by (cases e)
  show ?case using Cons by (auto simp: e peer_line_def split: if_splits)
qed simp

lemma read_peer:
  assumes "list_all plain_kv (pre @ (''public_key'', want) # body @ post)"
    and "want \<notin> set (values_of ''public_key'' (pre @ body @ post))"
    and "values_of ''public_key'' body = []" and "post = [] \<or> fst (hd post) = ''public_key''"
    and "values_of ka body = [va]" "values_of kb body = [vb]" "p va = Some x" "p vb = Some y"
    and "ka \<noteq> kb" "ka \<noteq> ''public_key''" "kb \<noteq> ''public_key''"
  shows "map_option snd (scan (peer_line p want ka kb) (split_on nl (report (pre @ (''public_key'', want) # body @ post))) (False, z, z)) = Some (x, y)"
proof -
  have w: "want \<notin> set (values_of ''public_key'' pre)" "want \<notin> set (values_of ''public_key'' post)"
    using assms(2) by (auto simp: values_of_def)
  have own: "fold_kv (peer_line p want ka kb) body (True, z, z) = Some (True, x, y)"
    using fold_own [OF assms(3,9-11), of p want z z] assms(5-8) by simp
  have pk: "peer_line p want ka kb ''public_key'' want (False, z, z) = Some (True, z, z)" by (simp add: peer_line_def)
  show ?thesis unfolding scan_report [OF assms(1)]
    using fold_after [OF assms(4) w(2), of p ka kb x y] by (simp add: fold_kv_append fold_other [OF w(1)] own pk)
qed

text \<open>
  What is read for a peer is that peer's, whatever other peers the device reports and in whatever order:
  the handshake time and the byte counters in the peer's own lines.
\<close>

theorem peer_readback:
  assumes "IpcGet W d = Some (report (pre @ (''public_key'', Hex pk) # body @ post))"
    and "list_all plain_kv (pre @ (''public_key'', Hex pk) # body @ post)"
    and "Hex pk \<notin> set (values_of ''public_key'' (pre @ body @ post))"
    and "values_of ''public_key'' body = []" and "post = [] \<or> fst (hd post) = ''public_key''"
    and "values_of ''last_handshake_time_sec'' body = [dec s]" "values_of ''last_handshake_time_nsec'' body = [dec n]" "s < 2 ^ 63" "n < 1000000000"
    and "values_of ''tx_bytes'' body = [FormatUint tx]" "values_of ''rx_bytes'' body = [FormatUint rx]"
  shows "LastHandshake W pk d = Some (if s = 0 \<and> n = 0 then zeroTime else Unix (int s) (int n)) \<and> PeerStats W pk d = Some (tx, rx)"
proof -
  have i: "ParseInt (dec s) = Some (int s)" "ParseInt (dec n) = Some (int n)" using assms(8,9) by (simp_all add: ParseInt_dec)
  have "map_option snd (scan (peer_line ParseInt (Hex pk) ''last_handshake_time_sec'' ''last_handshake_time_nsec'')
      (split_on nl (report (pre @ (''public_key'', Hex pk) # body @ post))) (False, 0, 0)) = Some (int s, int n)"
    by (rule read_peer [OF assms(2-7) i]) simp_all
  moreover have "map_option snd (scan (peer_line ParseUint (Hex pk) ''tx_bytes'' ''rx_bytes'')
      (split_on nl (report (pre @ (''public_key'', Hex pk) # body @ post))) (False, 0, 0)) = Some (tx, rx)"
    by (rule read_peer [OF assms(2-5,10,11)]) simp_all
  ultimately show ?thesis by (auto simp: LastHandshake_def PeerStats_def assms(1) split: option.splits)
qed

definition sim_body :: "(string \<times> string) list" where
  "sim_body = [(''last_handshake_time_sec'', dec 7), (''last_handshake_time_nsec'', dec 5), (''tx_bytes'', FormatUint 3), (''rx_bytes'', FormatUint 4)]"

definition sim_report :: "(string \<times> string) list" where
  "sim_report = (''public_key'', Hex [1]) # sim_body @ [(''public_key'', Hex [2]), (''last_handshake_time_sec'', ''9'')]"

lemma peer_readback_witness:
  "LastHandshake \<lparr>IpcSet = \<lambda>_ d. (True, d), IpcGet = \<lambda>_. Some (report sim_report)\<rparr> [1] () = Some 7000000005
    \<and> PeerStats \<lparr>IpcSet = \<lambda>_ d. (True, d), IpcGet = \<lambda>_. Some (report sim_report)\<rparr> [1] () = Some (3, 4)"
proof -
  have p: "list_all plain_kv sim_report" by code_simp
  have h: "Hex [1] \<noteq> Hex [2]" by code_simp
  show ?thesis
    using peer_readback [of "\<lparr>IpcSet = \<lambda>_ d. (True, d), IpcGet = \<lambda>_. Some (report sim_report)\<rparr>" "()" "[]" "[1]" sim_body
        "[(''public_key'', Hex [2]), (''last_handshake_time_sec'', ''9'')]" 7 5 3 4] p h
    by (simp add: sim_report_def sim_body_def Unix_def)
qed

section \<open>Standby peers\<close>

text \<open>
  How a device follows these texts: \<open>view\<close> gives the peers it has and for each whether it may carry traffic
  (some allowed address). A text that fails changes nothing; adding without allowed addresses does not give
  a peer any, when the endpoint is one line of text.
\<close>

definition follows :: "'d wgdev \<Rightarrow> ('d \<Rightarrow> (bytes, bool) map) \<Rightarrow> bool" where
  "follows W view \<longleftrightarrow>
     (\<forall>k ep ka d ok d'. nl \<notin> set ep \<and> AddPeer W k [] ep ka d = (ok, d') \<longrightarrow> view d' = (if ok then (view d)(k \<mapsto> view d k = Some True) else view d))
     \<and> (\<forall>k d ok d'. RemovePeer W k d = (ok, d') \<longrightarrow> view d' = (if ok then (view d)(k := None) else view d))"

lemma followsD:
  assumes "follows W view"
  shows "nl \<notin> set ep \<Longrightarrow> AddPeer W k [] ep ka d = (ok, d') \<Longrightarrow> view d' = (if ok then (view d)(k \<mapsto> view d k = Some True) else view d)"
    and "RemovePeer W k d = (ok, d') \<Longrightarrow> view d' = (if ok then (view d)(k := None) else view d)"
  using assms unfolding follows_def by blast+

datatype standby_op = OpAdd StandbyCandidate | OpRemove string

fun plain_op :: "standby_op \<Rightarrow> bool" where
  "plain_op (OpAdd c) \<longleftrightarrow> nl \<notin> set (scEndpoint c)"
| "plain_op (OpRemove i) \<longleftrightarrow> True"

fun standby_run :: "'d wgdev \<Rightarrow> standby_op list \<Rightarrow> StandbyManager \<Rightarrow> 'd \<Rightarrow> bool \<times> StandbyManager \<times> 'd" where
  "standby_run W [] m d = (True, m, d)"
| "standby_run W (op # ops) m d =
     (case (case op of OpAdd c \<Rightarrow> Add W c m d | OpRemove i \<Rightarrow> Remove W i m d) of
        (ok, m, d) \<Rightarrow> (case standby_run W ops m d of (ok', m, d) \<Rightarrow> (ok \<and> ok', m, d)))"

abbreviation standby_keys :: "StandbyManager \<Rightarrow> bytes set" where
  "standby_keys m \<equiv> {k. \<exists>i c. mget (byID m) i = Some c \<and> scPublicKey c = k}"

text \<open>No peer is left behind, and none of them may carry traffic unless it could before.\<close>

definition no_leak :: "(bytes, bool) map \<Rightarrow> (bytes, bool) map \<Rightarrow> StandbyManager \<Rightarrow> bool" where
  "no_leak v0 v m \<longleftrightarrow> (\<forall>k b. v k = Some b \<longrightarrow> (v0 k \<noteq> None \<or> k \<in> standby_keys m) \<and> (b \<longrightarrow> v0 k = Some True))"

text \<open>The candidates of the manager are the peers: as long as everything worked and no two candidates share a key.\<close>

definition own_keys :: "standby_op list \<Rightarrow> bool" where
  "own_keys ops \<longleftrightarrow> (\<forall>c c'. OpAdd c \<in> set ops \<and> OpAdd c' \<in> set ops \<and> scPublicKey c = scPublicKey c' \<longrightarrow> scID c = scID c')"

definition all_present :: "(string \<Rightarrow> bytes \<Rightarrow> bool) \<Rightarrow> (bytes, bool) map \<Rightarrow> StandbyManager \<Rightarrow> bool" where
  "all_present own v m \<longleftrightarrow> (\<forall>i c. mget (byID m) i = Some c \<longrightarrow> own i (scPublicKey c) \<and> v (scPublicKey c) \<noteq> None)"

lemma Add_cases:
  assumes "follows W view" "nl \<notin> set (scEndpoint c)" "Add W c m d = (ok, m', d')"
  obtains (refused) "\<not> ok" "m' = m" "view d' = view d"
    | (removed) e where "\<not> ok" "m' = m" "mget (byID m) (scID c) = Some e" "view d' = (view d)(scPublicKey e := None)"
    | (fresh) "ok" "m' = m\<lparr>byID := mput (scID c) c (byID m)\<rparr>"
        "view d' = (view d)(scPublicKey c \<mapsto> view d (scPublicKey c) = Some True)"
        "\<And>e. mget (byID m) (scID c) = Some e \<Longrightarrow> scPublicKey e = scPublicKey c"
    | (replaced) e where "ok" "m' = m\<lparr>byID := mput (scID c) c (byID m)\<rparr>" "mget (byID m) (scID c) = Some e" "scPublicKey e \<noteq> scPublicKey c"
        "view d' = ((view d)(scPublicKey e := None))(scPublicKey c \<mapsto> view d (scPublicKey c) = Some True)"
proof -
  obtain ok1 d1 where r: "replace_peer W c m d = (ok1, d1)" by (cases "replace_peer W c m d")
  obtain ok2 d2 where a: "AddPeer W (scPublicKey c) [] (scEndpoint c) (keepalive m) d1 = (ok2, d2)" by (cases "AddPeer W (scPublicKey c) [] (scEndpoint c) (keepalive m) d1")
  note va = followsD(1) [OF assms(1,2) a]
  show ?thesis
  proof (cases "\<exists>e. mget (byID m) (scID c) = Some e \<and> scPublicKey e \<noteq> scPublicKey c")
    case True
    then obtain e where e: "mget (byID m) (scID c) = Some e" "scPublicKey e \<noteq> scPublicKey c" by blast
    have "RemovePeer W (scPublicKey e) d = (ok1, d1)" using r e by (simp add: replace_peer_def)
    note vr = followsD(2) [OF assms(1) this]
    show ?thesis
    proof (cases "ok1 \<and> ok2")
      case True
      then show ?thesis using replaced [OF _ _ e] assms(3) r a va vr e by (simp add: Add_def)
    next
      case False
      then show ?thesis using refused removed [OF _ _ e(1)] assms(3) r a va vr by (cases ok1) (auto simp: Add_def)
    qed
  next
    case False
    then have "ok1" "d1 = d" using r by (auto simp: replace_peer_def split: option.splits)
    then show ?thesis using refused fresh False assms(3) r a va by (cases ok2) (auto simp: Add_def)
  qed
qed

lemma no_leak_drop: "no_leak v0 v m \<Longrightarrow> no_leak v0 (v(k := None)) m"
  by (simp add: no_leak_def)

lemma no_leak_put:
  assumes "no_leak v0 v m" and "\<And>e. mget (byID m) (scID c) = Some e \<Longrightarrow> scPublicKey e = scPublicKey c \<or> v (scPublicKey e) = None"
  shows "no_leak v0 (v(scPublicKey c \<mapsto> v (scPublicKey c) = Some True)) (m\<lparr>byID := mput (scID c) c (byID m)\<rparr>)"
  unfolding no_leak_def
proof (intro allI impI)
  let ?m = "m\<lparr>byID := mput (scID c) c (byID m)\<rparr>"
  fix k b assume kb: "(v(scPublicKey c \<mapsto> v (scPublicKey c) = Some True)) k = Some b"
  show "(v0 k \<noteq> None \<or> k \<in> standby_keys ?m) \<and> (b \<longrightarrow> v0 k = Some True)"
  proof (cases "k = scPublicKey c")
    case True
    then show ?thesis using kb assms(1) by (auto simp: no_leak_def intro!: exI [of _ "scID c"] exI [of _ c])
  next
    case False
    then have k: "v k = Some b" using kb by simp
    then have "(v0 k \<noteq> None \<or> k \<in> standby_keys m) \<and> (b \<longrightarrow> v0 k = Some True)" using assms(1) unfolding no_leak_def by blast
    moreover have "k \<in> standby_keys ?m" if q: "k \<in> standby_keys m"
    proof -
      obtain i e where e: "mget (byID m) i = Some e" "scPublicKey e = k" using q by blast
      then have "i \<noteq> scID c" using assms(2) [of e] k False by auto
      then show ?thesis using e by (auto intro!: exI [of _ i])
    qed
    ultimately show ?thesis by blast
  qed
qed

lemma Add_no_leak:
  assumes "follows W view" "nl \<notin> set (scEndpoint c)" "Add W c m d = (ok, m', d')" "no_leak v0 (view d) m"
  shows "no_leak v0 (view d') m'"
proof (cases rule: Add_cases [OF assms(1-3)])
  case (2 e)
  then show ?thesis using no_leak_drop [OF assms(4)] by simp
next
  case 3
  then show ?thesis using no_leak_put [OF assms(4), of c] by simp
next
  case (4 e)
  then show ?thesis using no_leak_put [OF no_leak_drop [OF assms(4), of "scPublicKey e"], of c] by simp
qed (use assms(4) in simp)

lemma Remove_cases:
  assumes "follows W view" "Remove W i m d = (ok, m', d')"
  obtains "m' = m" "view d' = view d" "ok \<longleftrightarrow> mget (byID m) i = None"
    | c where "ok" "mget (byID m) i = Some c" "m' = m\<lparr>byID := mdel i (byID m)\<rparr>" "view d' = (view d)(scPublicKey c := None)"
proof (cases "mget (byID m) i")
  case None
  then show ?thesis using that(1) assms(2) by (simp add: Remove_def)
next
  case (Some c)
  obtain ok1 d1 where r: "RemovePeer W (scPublicKey c) d = (ok1, d1)" by (cases "RemovePeer W (scPublicKey c) d")
  show ?thesis using that(1) that(2) [OF _ Some] followsD(2) [OF assms(1) r] assms(2) Some r
    by (cases ok1) (auto simp: Remove_def)
qed

lemma Remove_no_leak:
  assumes "follows W view" "Remove W i m d = (ok, m', d')" "no_leak v0 (view d) m"
  shows "no_leak v0 (view d') m'"
proof (cases rule: Remove_cases [OF assms(1,2)])
  case (2 c)
  show ?thesis unfolding no_leak_def
  proof (intro allI impI)
    fix k b assume "view d' k = Some b"
    then have k: "view d k = Some b" "k \<noteq> scPublicKey c" using 2 by (auto split: if_splits)
    then have "(v0 k \<noteq> None \<or> k \<in> standby_keys m) \<and> (b \<longrightarrow> v0 k = Some True)" using assms(3) unfolding no_leak_def by blast
    moreover have "k \<in> standby_keys m'" if "k \<in> standby_keys m" using that 2 k(2) by (auto, metis option.inject)
    ultimately show "(v0 k \<noteq> None \<or> k \<in> standby_keys m') \<and> (b \<longrightarrow> v0 k = Some True)" by blast
  qed
qed (use assms(3) in simp)

lemma standby_run_no_leak:
  "follows W view \<Longrightarrow> list_all plain_op ops \<Longrightarrow> standby_run W ops m d = (ok, m', d') \<Longrightarrow> no_leak v0 (view d) m \<Longrightarrow> no_leak v0 (view d') m'"
proof (induction ops arbitrary: m d ok)
  case (Cons op ops)
  obtain ok1 m1 d1 where r: "(case op of OpAdd c \<Rightarrow> Add W c m d | OpRemove i \<Rightarrow> Remove W i m d) = (ok1, m1, d1)"
    by (metis prod_cases3)
  have "no_leak v0 (view d1) m1" using r Cons.prems(2,4) Add_no_leak [OF Cons.prems(1)] Remove_no_leak [OF Cons.prems(1)] by (cases op) auto
  then show ?case using Cons r by (auto split: prod.splits)
qed simp

lemma standby_run_present:
  assumes "follows W view" "list_all plain_op ops" "standby_run W ops m d = (True, m', d')" "all_present own (view d) m"
    and "\<And>c. OpAdd c \<in> set ops \<Longrightarrow> own (scID c) (scPublicKey c)" and inj: "\<And>i j k. own i k \<Longrightarrow> own j k \<Longrightarrow> i = j"
  shows "all_present own (view d') m'"
  using assms(2-5)
proof (induction ops arbitrary: m d)
  case (Cons op ops)
  obtain m1 d1 where r: "(case op of OpAdd c \<Rightarrow> Add W c m d | OpRemove i \<Rightarrow> Remove W i m d) = (True, m1, d1)" "standby_run W ops m1 d1 = (True, m', d')"
    using Cons.prems(2) by (auto split: prod.splits)
  have "all_present own (view d1) m1"
  proof (cases op)
    case (OpAdd c)
    then have a: "nl \<notin> set (scEndpoint c)" "Add W c m d = (True, m1, d1)" and oc: "own (scID c) (scPublicKey c)" using r(1) Cons.prems(1,4) by simp_all
    show ?thesis by (cases rule: Add_cases [OF assms(1) a]) (use Cons.prems(3) oc inj in \<open>auto simp: all_present_def dest: inj\<close>, metis inj)
  next
    case (OpRemove i)
    then have a: "Remove W i m d = (True, m1, d1)" using r(1) by simp
    show ?thesis by (cases rule: Remove_cases [OF assms(1) a]) (use Cons.prems(3) inj in \<open>auto simp: all_present_def dest: inj\<close>, metis inj)
  qed
  then show ?case using Cons.IH [OF _ r(2)] Cons.prems(1) Cons.prems(4) by simp
qed simp


text \<open>A device that knows the peers it was told, by the first line of the text, and refuses nothing.\<close>

definition sim_set :: "string \<Rightarrow> (bytes, bool) map \<Rightarrow> bool \<times> (bytes, bool) map" where
  "sim_set txt v =
     (case split_on nl txt of
        (l # ls) \<Rightarrow>
          (case Cut l of
             Some (_, h) \<Rightarrow> (case hex_DecodeString h of
                 None \<Rightarrow> (False, v)
               | Some k \<Rightarrow> (True, if ls \<noteq> [] \<and> hd ls = ''remove=true'' then v(k := None)
                   else v(k \<mapsto> (v k = Some True \<or> list_ex (\<lambda>l. take 11 l = ''allowed_ip='') ls))))
           | None \<Rightarrow> (False, v))
      | [] \<Rightarrow> (False, v))"

definition sim_wg :: "((bytes, bool) map) wgdev" where
  "sim_wg = \<lparr>IpcSet = sim_set, IpcGet = \<lambda>_. None\<rparr>"

lemma nl_code: "of_char nl = (10 :: nat)"
  by (simp add: nl_def)

lemma Hex_plain: "nl \<notin> set (Hex k)"
proof -
  have d: "hex_digit n \<noteq> nl" if "n < 16" for n
  proof
    assume "hex_digit n = nl"
    then have "(of_char (hex_digit n) :: nat) = 10" by (simp add: nl_code)
    then show False using that by (auto simp: hex_digit_def split: if_splits)
  qed
  have b: "unat b div 16 < 16" "unat b mod 16 < 16" for b :: u8
    using unsigned_less [of b, where 'a = nat] by simp_all
  show ?thesis using d [OF b(1)] d [OF b(2)] by (auto simp: Hex_def byte_hex_def dest: sym)
qed

lemma dec_plain: "nl \<notin> set (dec n)"
  using dec_digits [of n] by (auto simp: list_all_iff is_digit_def nl_code)

lemma AddPeer_lines:
  assumes "nl \<notin> set ep"
  shows "split_on nl (AddPeer_text k [] ep ka) = (''public_key='' @ Hex k)
    # (if ep \<noteq> [] then [''endpoint='' @ ep] else [])
    @ (if ka > 0 then [''persistent_keepalive_interval='' @ dec (nat (keepalive_seconds ka))] else []) @ [[]]"
proof -
  let ?kvs = "(''public_key'', Hex k) # (if ep \<noteq> [] then [(''endpoint'', ep)] else [])
    @ (if ka > 0 then [(''persistent_keepalive_interval'', dec (nat (keepalive_seconds ka)))] else [])"
  have c: "list_all (\<lambda>n. CHR ''='' \<notin> set n \<and> nl \<notin> set n) [''public_key'', ''endpoint'', ''persistent_keepalive_interval'']" by code_simp
  have t: "AddPeer_text k [] ep ka = concat (map (\<lambda>(k, v). kv_line k v) ?kvs) @ []" by (simp add: AddPeer_text_def)
  have p: "list_all plain_kv ?kvs" using assms c Hex_plain dec_plain by (auto simp: plain_kv_def)
  show ?thesis unfolding t split_lines [OF p] by simp
qed

lemma RemovePeer_lines: "split_on nl (RemovePeer_text k) = [''public_key='' @ Hex k, ''remove=true'', []]"
proof -
  have c: "list_all plain_kv [(''public_key'', []), (''remove'', ''true'')]" by code_simp
  show ?thesis using split_lines [of "[(''public_key'', Hex k), (''remove'', ''true'')]" "[]"] c Hex_plain
    by (auto simp: plain_kv_def RemovePeer_text_def)
qed

lemma Cut_public_key: "Cut (''public_key='' @ Hex k) = Some (''public_key'', Hex k)"
  using Cut_kv [of "''public_key''" "Hex k"] by simp

lemma sim_follows: "follows sim_wg id"
  unfolding follows_def
proof (intro conjI allI impI; (elim conjE)?)
  fix k ep :: string and kb :: bytes and ka d ok d'
  assume "nl \<notin> set ep" "AddPeer sim_wg kb [] ep ka d = (ok, d')"
  then show "id d' = (if ok then (id d)(kb \<mapsto> id d kb = Some True) else id d)"
    using Cut_public_key [of kb] by (auto simp: AddPeer_def sim_wg_def sim_set_def AddPeer_lines split: if_splits)
next
  fix k d ok d' assume "RemovePeer sim_wg k d = (ok, d')"
  then show "id d' = (if ok then (id d)(k := None) else id d)"
    using Cut_public_key [of k] by (auto simp: RemovePeer_def sim_wg_def sim_set_def RemovePeer_lines split: if_splits)
qed

definition sim_cand :: "string \<Rightarrow> u8 \<Rightarrow> StandbyCandidate" where
  "sim_cand i k = \<lparr>scID = i, scPublicKey = [k], scEndpoint = ''10.0.0.1:51820''\<rparr>"

lemma sim_wg_run:
  "AddPeer sim_wg k [] ''10.0.0.1:51820'' ka v = (True, v(k \<mapsto> v k = Some True))" "RemovePeer sim_wg k v = (True, v(k := None))"
proof -
  have n: "nl \<notin> set ''10.0.0.1:51820''" by code_simp
  show "AddPeer sim_wg k [] ''10.0.0.1:51820'' ka v = (True, v(k \<mapsto> v k = Some True))"
    using Cut_public_key [of k] n by (auto simp: AddPeer_def sim_wg_def sim_set_def AddPeer_lines)
  show "RemovePeer sim_wg k v = (True, v(k := None))"
    using Cut_public_key [of k] by (simp add: RemovePeer_def sim_wg_def sim_set_def RemovePeer_lines)
qed


text \<open>
  Two candidates with the same key share one peer: removing one takes the peer from the other, which the
  manager still lists.
\<close>

lemma standby_shared_key:
  "standby_run sim_wg [OpAdd (sim_cand ''a'' 1), OpAdd (sim_cand ''b'' 1), OpRemove ''a''] \<lparr>keepalive = 25, byID = []\<rparr> Map.empty
    = (True, \<lparr>keepalive = 25, byID = [(''b'', sim_cand ''b'' 1)]\<rparr>, Map.empty)"
  by (simp add: Add_def Remove_def replace_peer_def sim_wg_run sim_cand_def)

end
