(* ===== verification/Iptables.thy ===== *)
theory Iptables
  imports Netip
begin

text \<open>
  \<^verbatim>\<open>internal/tunnel/nat.go\<close>, the connection mark rules of \<^verbatim>\<open>bucketroute.go\<close> and \<^verbatim>\<open>iface.go\<close>: the commands a gateway
  gives for forwarding and address translation. Running \<^verbatim>\<open>iptables\<close> or \<^verbatim>\<open>ip\<close> is a parameter that returns the exit
  code, with \<open>None\<close> when it could not run.
\<close>

section \<open>Model\<close>

type_synonym 'h exec = "string list \<Rightarrow> 'h \<Rightarrow> nat option \<times> 'h"

definition runIptables :: "'h exec \<Rightarrow> string list \<Rightarrow> 'h \<Rightarrow> bool \<times> 'h" where
  "runIptables ipt args h = (case ipt args h of (code, h) \<Rightarrow> (code = Some 0, h))"

text \<open>An error is \<open>None\<close>.\<close>

definition ruleExists :: "'h exec \<Rightarrow> string list \<Rightarrow> 'h \<Rightarrow> bool option \<times> 'h" where
  "ruleExists ipt checkArgs h =
     (case ipt checkArgs h of (code, h) \<Rightarrow> (if code = Some 0 then Some True else if code = Some 1 then Some False else None, h))"

record NATRule =
  Subnet :: Prefix

definition NATRule_args :: "NATRule \<Rightarrow> string \<Rightarrow> string list" where
  "NATRule_args r command = [''-t'', ''nat'', command, ''POSTROUTING'', ''-s'', Prefix_String (Subnet r), ''-j'', ''MASQUERADE'']"

definition AddNAT :: "'h exec \<Rightarrow> NATRule \<Rightarrow> 'h \<Rightarrow> bool \<times> 'h" where
  "AddNAT ipt r = runIptables ipt (NATRule_args r ''-A'')"

definition RemoveNAT :: "'h exec \<Rightarrow> NATRule \<Rightarrow> 'h \<Rightarrow> bool \<times> 'h" where
  "RemoveNAT ipt r = runIptables ipt (NATRule_args r ''-D'')"

definition HasNAT :: "'h exec \<Rightarrow> NATRule \<Rightarrow> 'h \<Rightarrow> bool option \<times> 'h" where
  "HasNAT ipt r = ruleExists ipt (NATRule_args r ''-C'')"

definition inArgs :: "string \<Rightarrow> string \<Rightarrow> string list" where
  "inArgs iface command = [command, ''FORWARD'', ''-i'', iface, ''-j'', ''ACCEPT'']"

definition outArgs :: "string \<Rightarrow> string \<Rightarrow> string list" where
  "outArgs iface command = [command, ''FORWARD'', ''-o'', iface, ''-j'', ''ACCEPT'']"

definition AddForward :: "'h exec \<Rightarrow> string \<Rightarrow> 'h \<Rightarrow> bool \<times> 'h" where
  "AddForward ipt iface h =
     (case runIptables ipt (inArgs iface ''-A'') h of
        (False, h) \<Rightarrow> (False, h)
      | (True, h) \<Rightarrow> runIptables ipt (outArgs iface ''-A'') h)"

definition RemoveForward :: "'h exec \<Rightarrow> string \<Rightarrow> 'h \<Rightarrow> bool \<times> 'h" where
  "RemoveForward ipt iface h =
     (let (ok1, h) = runIptables ipt (inArgs iface ''-D'') h; (ok2, h) = runIptables ipt (outArgs iface ''-D'') h in (ok1 \<and> ok2, h))"

definition HasForward :: "'h exec \<Rightarrow> string \<Rightarrow> 'h \<Rightarrow> bool option \<times> 'h" where
  "HasForward ipt iface h =
     (case ruleExists ipt (inArgs iface ''-C'') h of
        (None, h) \<Rightarrow> (None, h)
      | (Some i, h) \<Rightarrow>
          (case ruleExists ipt (outArgs iface ''-C'') h of
             (None, h) \<Rightarrow> (None, h)
           | (Some out, h) \<Rightarrow> (Some (i \<and> out), h)))"

definition Restore_args :: "string \<Rightarrow> string \<Rightarrow> string list" where
  "Restore_args chain command = [''-t'', ''mangle'', command, chain, ''-j'', ''CONNMARK'', ''--restore-mark'']"

definition Save_args :: "string \<Rightarrow> string \<Rightarrow> string list" where
  "Save_args chain command = [''-t'', ''mangle'', command, chain, ''-j'', ''CONNMARK'', ''--save-mark'']"

definition AddConnmarkRestore :: "'h exec \<Rightarrow> string \<Rightarrow> 'h \<Rightarrow> bool \<times> 'h" where
  "AddConnmarkRestore ipt chain = runIptables ipt (Restore_args chain ''-A'')"

definition RemoveConnmarkRestore :: "'h exec \<Rightarrow> string \<Rightarrow> 'h \<Rightarrow> bool \<times> 'h" where
  "RemoveConnmarkRestore ipt chain = runIptables ipt (Restore_args chain ''-D'')"

definition HasConnmarkRestore :: "'h exec \<Rightarrow> string \<Rightarrow> 'h \<Rightarrow> bool option \<times> 'h" where
  "HasConnmarkRestore ipt chain = ruleExists ipt (Restore_args chain ''-C'')"

definition AddConnmarkSave :: "'h exec \<Rightarrow> string \<Rightarrow> 'h \<Rightarrow> bool \<times> 'h" where
  "AddConnmarkSave ipt chain = runIptables ipt (Save_args chain ''-A'')"

definition RemoveConnmarkSave :: "'h exec \<Rightarrow> string \<Rightarrow> 'h \<Rightarrow> bool \<times> 'h" where
  "RemoveConnmarkSave ipt chain = runIptables ipt (Save_args chain ''-D'')"

definition HasConnmarkSave :: "'h exec \<Rightarrow> string \<Rightarrow> 'h \<Rightarrow> bool option \<times> 'h" where
  "HasConnmarkSave ipt chain = ruleExists ipt (Save_args chain ''-C'')"

text \<open>The file of the kernel: writing it, which may fail, and reading it.\<close>

record 'h sysfile =
  writeForward :: "string \<Rightarrow> 'h \<Rightarrow> bool \<times> 'h"
  readForward :: "'h \<Rightarrow> string option"

definition IPForwardingEnabled :: "'h sysfile \<Rightarrow> 'h \<Rightarrow> bool option" where
  "IPForwardingEnabled F h = (case readForward F h of None \<Rightarrow> None | Some got \<Rightarrow> Some (got \<noteq> [] \<and> hd got = CHR ''1''))"

definition EnableIPForwarding :: "'h sysfile \<Rightarrow> 'h \<Rightarrow> bool \<times> 'h" where
  "EnableIPForwarding F h =
     (case writeForward F (''1'' @ [char_of (10 :: nat)]) h of
        (False, h) \<Rightarrow> (False, h)
      | (True, h) \<Rightarrow> (case IPForwardingEnabled F h of None \<Rightarrow> (False, h) | Some enabled \<Rightarrow> (enabled, h)))"

definition ConfigureInterface :: "'h exec \<Rightarrow> string \<Rightarrow> Prefix \<Rightarrow> 'h \<Rightarrow> bool \<times> 'h" where
  "ConfigureInterface ip iface addr h =
     (case ip [''addr'', ''add'', Prefix_String addr, ''dev'', iface] h of
        (code, h) \<Rightarrow> (if code \<noteq> Some 0 then (False, h)
          else case ip [''link'', ''set'', iface, ''up''] h of (code, h) \<Rightarrow> (code = Some 0, h)))"

section \<open>Rules installed\<close>

text \<open>
  What \<^verbatim>\<open>iptables\<close> promises of the rules of the host, a list in which one may stand several times: \<open>-A\<close>
  appends one, \<open>-D\<close> deletes the first equal one or exits with 1, \<open>-C\<close> exits with 0 or 1. Any other exit
  changes nothing. The command stands at the given position of the arguments.
\<close>

definition iptables_ok :: "'h exec \<Rightarrow> ('h \<Rightarrow> string list list) \<Rightarrow> bool" where
  "iptables_ok ipt rules \<longleftrightarrow>
     (\<forall>h a b code h'. (a = [] \<or> (\<exists>t. a = [''-t'', t])) \<longrightarrow>
        (ipt (a @ ''-A'' # b) h = (code, h') \<longrightarrow> rules h' = (if code = Some 0 then rules h @ [a @ b] else rules h))
        \<and> (ipt (a @ ''-D'' # b) h = (code, h') \<longrightarrow> rules h' = (if code = Some 0 then remove1 (a @ b) (rules h) else rules h) \<and> (code = Some 0 \<longrightarrow> a @ b \<in> set (rules h)))
        \<and> (ipt (a @ ''-C'' # b) h = (code, h') \<longrightarrow> rules h' = rules h \<and> (code = Some 0 \<longrightarrow> a @ b \<in> set (rules h)) \<and> (code = Some 1 \<longrightarrow> a @ b \<notin> set (rules h))))"

lemma iptables_okD:
  assumes "iptables_ok ipt rules" "a = [] \<or> (\<exists>t. a = [''-t'', t])"
  shows "ipt (a @ ''-A'' # b) h = (code, h') \<Longrightarrow> rules h' = (if code = Some 0 then rules h @ [a @ b] else rules h)"
    and "ipt (a @ ''-D'' # b) h = (code, h') \<Longrightarrow> rules h' = (if code = Some 0 then remove1 (a @ b) (rules h) else rules h) \<and> (code = Some 0 \<longrightarrow> a @ b \<in> set (rules h))"
    and "ipt (a @ ''-C'' # b) h = (code, h') \<Longrightarrow> rules h' = rules h \<and> (code = Some 0 \<longrightarrow> a @ b \<in> set (rules h)) \<and> (code = Some 1 \<longrightarrow> a @ b \<notin> set (rules h))"
  using assms unfolding iptables_ok_def by blast+

definition nat_rule :: "NATRule \<Rightarrow> string list" where
  "nat_rule r = [''-t'', ''nat'', ''POSTROUTING'', ''-s'', Prefix_String (Subnet r), ''-j'', ''MASQUERADE'']"

lemma NAT_rules:
  assumes "iptables_ok ipt rules"
  shows "AddNAT ipt r h = (ok, h') \<Longrightarrow> rules h' = (if ok then rules h @ [nat_rule r] else rules h)"
    and "RemoveNAT ipt r h = (ok, h') \<Longrightarrow> rules h' = (if ok then remove1 (nat_rule r) (rules h) else rules h) \<and> (ok \<longrightarrow> nat_rule r \<in> set (rules h))"
    and "HasNAT ipt r h = (Some b, h') \<Longrightarrow> rules h' = rules h \<and> (b \<longleftrightarrow> nat_rule r \<in> set (rules h))"
proof -
  note D = iptables_okD [OF assms, of "[''-t'', ''nat'']" "[''POSTROUTING'', ''-s'', Prefix_String (Subnet r), ''-j'', ''MASQUERADE'']" h, simplified]
  show "AddNAT ipt r h = (ok, h') \<Longrightarrow> rules h' = (if ok then rules h @ [nat_rule r] else rules h)"
    by (auto simp: AddNAT_def runIptables_def NATRule_args_def nat_rule_def dest: D(1) split: prod.splits)
  show "RemoveNAT ipt r h = (ok, h') \<Longrightarrow> rules h' = (if ok then remove1 (nat_rule r) (rules h) else rules h) \<and> (ok \<longrightarrow> nat_rule r \<in> set (rules h))"
    by (auto simp: RemoveNAT_def runIptables_def NATRule_args_def nat_rule_def dest: D(2) split: prod.splits)
  show "HasNAT ipt r h = (Some b, h') \<Longrightarrow> rules h' = rules h \<and> (b \<longleftrightarrow> nat_rule r \<in> set (rules h))"
    by (auto simp: HasNAT_def ruleExists_def NATRule_args_def nat_rule_def dest: D(3) split: prod.splits if_splits)
qed

text \<open>
  Translation added is translation seen, and removing it as often as it was added puts the rules back; a
  check that could not run tells nothing.
\<close>

theorem nat_add_remove:
  assumes "iptables_ok ipt rules" and "AddNAT ipt r h = (True, h1)" and "nat_rule r \<notin> set (rules h)" and "RemoveNAT ipt r h1 = (True, h2)"
  shows "fst (HasNAT ipt r h1) \<noteq> Some False \<and> rules h2 = rules h \<and> fst (HasNAT ipt r h2) \<noteq> Some True"
proof -
  have h1: "rules h1 = rules h @ [nat_rule r]" using NAT_rules(1) [OF assms(1,2)] by simp
  have h2: "rules h2 = rules h" using NAT_rules(2) [OF assms(1,4)] h1 assms(3) by (simp add: remove1_append)
  have "fst (HasNAT ipt r h1) \<noteq> Some False"
  proof
    assume "fst (HasNAT ipt r h1) = Some False"
    then obtain h' where "HasNAT ipt r h1 = (Some False, h')" by (metis prod.collapse)
    from NAT_rules(3) [OF assms(1) this] h1 show False by simp
  qed
  moreover have "fst (HasNAT ipt r h2) \<noteq> Some True"
  proof
    assume "fst (HasNAT ipt r h2) = Some True"
    then obtain h' where "HasNAT ipt r h2 = (Some True, h')" by (metis prod.collapse)
    from NAT_rules(3) [OF assms(1) this] h2 assms(3) show False by simp
  qed
  ultimately show ?thesis using h2 by blast
qed

end
