(* ===== verification/IPsecClient.thy ===== *)
theory IPsecClient
  imports RouteSet IPsecConfig "HOL-Library.Sublist"
begin

text \<open>
  \<^verbatim>\<open>internal/ipsec/client.go\<close>: the client side of the IPsec data plane. It keeps an association with every
  gateway, each on its own XFRM interface, moves the routes between them, and undoes what it did when a
  step fails. The kernel (\<^verbatim>\<open>Net\<close>) and the IKE daemon (\<^verbatim>\<open>IKE\<close>) are one parameter, a record of their operations
  over a host state. \<^verbatim>\<open>Add\<close>, \<^verbatim>\<open>Remove\<close>, \<^verbatim>\<open>Promote\<close> and \<^verbatim>\<open>Close\<close> take the client's lock more than once; each is one
  definition for each part between the locks, so that other calls may come in between. \<^verbatim>\<open>Advance\<close> is one step.
\<close>

section \<open>Model\<close>

subsection \<open>The interfaces \<^verbatim>\<open>Net\<close> and \<^verbatim>\<open>IKE\<close>\<close>

record Rule =
  ruSrc :: "Prefix option"
  ruIif :: string
  ruTable :: int
  ruPriority :: int
  ruFamily :: Family

datatype ikeErr = ErrNotFound | ErrAuthFailed | IkeErr string

record 'n plane =
  routing :: "'n routing"
  AddXfrmInterface :: "string \<Rightarrow> u32 \<Rightarrow> string \<Rightarrow> 'n \<Rightarrow> netErr option \<times> 'n"
  DeleteLink :: "string \<Rightarrow> 'n \<Rightarrow> netErr option \<times> 'n"
  AddAddr :: "string \<Rightarrow> Prefix \<Rightarrow> 'n \<Rightarrow> netErr option \<times> 'n"
  SetLinkUp :: "string \<Rightarrow> 'n \<Rightarrow> netErr option \<times> 'n"
  RouteAdd :: "Route \<Rightarrow> 'n \<Rightarrow> netErr option \<times> 'n"
  RouteGet :: "Addr \<Rightarrow> 'n \<Rightarrow> Route option"
  DefaultRoute :: "Family \<Rightarrow> 'n \<Rightarrow> Route option"
  RuleAdd :: "Rule \<Rightarrow> 'n \<Rightarrow> netErr option \<times> 'n"
  RuleDel :: "Rule \<Rightarrow> 'n \<Rightarrow> netErr option \<times> 'n"
  LoadConn :: "Connection \<Rightarrow> 'n \<Rightarrow> ikeErr option \<times> 'n"
  UnloadConn :: "string \<Rightarrow> 'n \<Rightarrow> ikeErr option \<times> 'n"
  LoadShared :: "SharedSecret \<Rightarrow> 'n \<Rightarrow> ikeErr option \<times> 'n"
  UnloadShared :: "string \<Rightarrow> 'n \<Rightarrow> ikeErr option \<times> 'n"
  Initiate :: "string \<Rightarrow> string \<Rightarrow> 'n \<Rightarrow> ikeErr option \<times> 'n"
  TerminateIKE :: "string \<Rightarrow> 'n \<Rightarrow> ikeErr option \<times> 'n"
  TerminateIKEByID :: "u64 \<Rightarrow> 'n \<Rightarrow> ikeErr option \<times> 'n"
  TerminateChild :: "u64 \<Rightarrow> 'n \<Rightarrow> ikeErr option \<times> 'n"
  ListSAs :: "string \<Rightarrow> 'n \<Rightarrow> ikeErr + IKESA list"

definition ignoreNotFound :: "ikeErr option \<Rightarrow> ikeErr option" where
  "ignoreNotFound e = (if e = Some ErrNotFound then None else e)"

datatype planeErr = ENet netErr | EIke ikeErr | ECtx | EClosed | EExist | EInvalid | EInUse | ERoutes routesErr | ERollback planeErr "planeErr list"

definition net_err :: "netErr option \<Rightarrow> planeErr option" where
  "net_err e = map_option ENet e"

definition ike_err :: "ikeErr option \<Rightarrow> planeErr option" where
  "ike_err e = map_option EIke e"

subsection \<open>Configuration\<close>

record ClientConfig =
  ccName :: string
  ccLocalID :: string
  ccPSK :: string
  ccVirtualIP :: Addr
  ccLocalAddr :: Addr
  ccFullTunnel :: bool
  ccControllers :: "Addr list"
  ccTable :: int
  ccDPDDelay :: duration
  ccIKEProposals :: "string list"
  ccESPProposals :: "string list"
  ccInterfacePrefix :: string
  ccUnderlay :: string
  ccPollInterval :: duration
  ccCleanupTimeout :: duration

definition DefaultPollInterval :: duration where "DefaultPollInterval = 30 * Second"
definition DefaultCleanupTimeout :: duration where "DefaultCleanupTimeout = 10 * Second"
definition DefaultInterfacePrefix :: string where "DefaultInterfacePrefix = ''egx''"

definition ifPrefixRE :: "string \<Rightarrow> bool" where
  "ifPrefixRE = re_match is_lower (\<lambda>c. is_lower c \<or> is_digit c) 4"

definition setDefaults :: "ClientConfig \<Rightarrow> ClientConfig" where
  "setDefaults cfg = cfg\<lparr>
     ccName := (if ccName cfg = [] then ''egressa'' else ccName cfg),
     ccInterfacePrefix := (if ccInterfacePrefix cfg = [] then DefaultInterfacePrefix else ccInterfacePrefix cfg),
     ccPollInterval := (if ccPollInterval cfg \<le> 0 then DefaultPollInterval else ccPollInterval cfg),
     ccCleanupTimeout := (if ccCleanupTimeout cfg \<le> 0 then DefaultCleanupTimeout else ccCleanupTimeout cfg)\<rparr>"

definition cfg_validate :: "ClientConfig \<Rightarrow> bool" where
  "cfg_validate cfg \<longleftrightarrow>
     nameRE (ccName cfg) \<and> idRE (ccLocalID cfg) \<and> validatePSK (ccPSK cfg) = None \<and> checkAddr (ccVirtualIP cfg)
     \<and> (ccLocalAddr cfg \<noteq> NoAddr \<longrightarrow> checkAddr (ccLocalAddr cfg))
     \<and> list_all (\<lambda>a. checkAddr a \<and> checkSameFamily (ccLocalAddr cfg) a) (ccControllers cfg)
     \<and> \<not> ccTable cfg < 0 \<and> ifPrefixRE (ccInterfacePrefix cfg) \<and> \<not> ccDPDDelay cfg < 0"

subsection \<open>The client\<close>

record Peer =
  peName :: string
  peAddr :: Addr
  peID :: string
  peIfID :: u32
  peEpoch :: u64
  pePrefixes :: "Prefix list"

record clientPeer =
  cpPeer :: Peer
  cpConn :: Connection
  cpIface :: string

record bypassRoute =
  brRoute :: Route
  brOwned :: bool
  brRefs :: int

record Client =
  cfg :: ClientConfig
  peers :: "(string, clientPeer) gomap"
  pending :: "(string, bool) gomap"
  ifIDs :: "(u32, string) gomap"
  active :: string
  closed :: bool
  routes :: routeSet
  bypass :: "(Addr, bypassRoute) gomap"

text \<open>Reading a map gives the zero value for a key that is not there.\<close>

definition is_pending :: "Client \<Rightarrow> string \<Rightarrow> bool" where
  "is_pending c name = (mget (pending c) name = Some True)"

definition ifid_owner :: "Client \<Rightarrow> u32 \<Rightarrow> string" where
  "ifid_owner c i = (case mget (ifIDs c) i of None \<Rightarrow> [] | Some s \<Rightarrow> s)"

subsection \<open>Bypass routes\<close>

definition isOurInterface :: "Client \<Rightarrow> string \<Rightarrow> bool" where
  "isOurInterface c dev =
     (if dev = [] \<or> \<not> prefix (ccInterfacePrefix (cfg c)) dev then False
      else list_ex (\<lambda>ifID. ifaceName (ccInterfacePrefix (cfg c)) ifID = dev) (mkeys (ifIDs c)))"

definition underlayRoute :: "'n plane \<Rightarrow> Client \<Rightarrow> Addr \<Rightarrow> 'n \<Rightarrow> Route option" where
  "underlayRoute P c dst n =
     (case RouteGet P dst n of
        None \<Rightarrow> None
      | Some r \<Rightarrow>
          (case (if isOurInterface c (rDev r) then DefaultRoute P (familyOf dst) n else Some r) of
             None \<Rightarrow> None
           | Some r \<Rightarrow> Some \<lparr>rDst = hostPrefix dst, rGw = rGw r, rDev = rDev r, rSrc = NoAddr, rTable = ccTable (cfg c)\<rparr>))"

definition acquireBypass :: "'n plane \<Rightarrow> Addr \<Rightarrow> Client \<Rightarrow> 'n \<Rightarrow> netErr option \<times> Client \<times> 'n" where
  "acquireBypass P dst c n =
     (case mget (bypass c) dst of
        Some b \<Rightarrow> (None, c\<lparr>bypass := mput dst (b\<lparr>brRefs := brRefs b + 1\<rparr>) (bypass c)\<rparr>, n)
      | None \<Rightarrow>
          (case underlayRoute P c dst n of
             None \<Rightarrow> (Some (NetErr ''no underlay route''), c, n)
           | Some r \<Rightarrow>
               (case RouteAdd P r n of (e, n) \<Rightarrow>
                  (if e \<noteq> None \<and> e \<noteq> Some ErrExist then (e, c, n)
                   else (None, c\<lparr>bypass := mput dst \<lparr>brRoute = r, brOwned = (e = None), brRefs = 1\<rparr> (bypass c)\<rparr>, n)))))"

definition releaseBypass :: "'n plane \<Rightarrow> Addr \<Rightarrow> Client \<Rightarrow> 'n \<Rightarrow> netErr option \<times> Client \<times> 'n" where
  "releaseBypass P dst c n =
     (case mget (bypass c) dst of
        None \<Rightarrow> (None, c, n)
      | Some b \<Rightarrow>
          if brRefs b - 1 > 0 then (None, c\<lparr>bypass := mput dst (b\<lparr>brRefs := brRefs b - 1\<rparr>) (bypass c)\<rparr>, n)
          else (let c = c\<lparr>bypass := mdel dst (bypass c)\<rparr> in
                if \<not> brOwned b then (None, c, n)
                else (case RouteDel (routing P) (brRoute b) n of (e, n) \<Rightarrow> (ignoreNotExist e, c, n))))"

fun release_all :: "'n plane \<Rightarrow> Addr list \<Rightarrow> Client \<Rightarrow> 'n \<Rightarrow> netErr list \<times> Client \<times> 'n" where
  "release_all P [] c n = ([], c, n)"
| "release_all P (a # as) c n =
     (case releaseBypass P a c n of (e, c, n) \<Rightarrow>
      case release_all P as c n of (es, c, n) \<Rightarrow> ((case e of None \<Rightarrow> es | Some e \<Rightarrow> e # es), c, n))"

text \<open>The loop of \<^verbatim>\<open>NewClient\<close>; \<open>got\<close> are the controllers handled so far.\<close>

fun acquire_controllers :: "'n plane \<Rightarrow> Addr list \<Rightarrow> Addr list \<Rightarrow> Client \<Rightarrow> 'n \<Rightarrow> netErr option \<times> Client \<times> 'n" where
  "acquire_controllers P got [] c n = (None, c, n)"
| "acquire_controllers P got (a # as) c n =
     (case acquireBypass P a c n of
        (Some e, c, n) \<Rightarrow> (case release_all P got c n of (_, c, n) \<Rightarrow> (Some e, c, n))
      | (None, c, n) \<Rightarrow> acquire_controllers P (got @ [a]) as c n)"

definition NewClient :: "'n plane \<Rightarrow> ClientConfig \<Rightarrow> 'n \<Rightarrow> (planeErr + Client) \<times> 'n" where
  "NewClient P cf n =
     (let cf = setDefaults cf in
      if \<not> cfg_validate cf then (Inl EInvalid, n)
      else let c = \<lparr>cfg = cf, peers = [], pending = [], ifIDs = [], active = [], closed = False, routes = newRouteSet, bypass = []\<rparr> in
      if ccFullTunnel cf then
        (case acquire_controllers P [] (ccControllers cf) c n of
           (Some e, _, n) \<Rightarrow> (Inl (ENet e), n)
         | (None, c, n) \<Rightarrow> (Inr c, n))
      else (Inr c, n))"

subsection \<open>Adding a gateway\<close>

definition connName :: "ClientConfig \<Rightarrow> string \<Rightarrow> string" where
  "connName cf peer = ccName cf @ ''-'' @ peer"

definition connection :: "ClientConfig \<Rightarrow> Peer \<Rightarrow> Connection" where
  "connection cf p =
     \<lparr>cName = connName cf (peName p), cEpoch = peEpoch p, cLocalAddr = ccLocalAddr cf, cRemoteAddr = peAddr p,
      cLocalID = ccLocalID cf, cRemoteID = peID p, cAuth = AuthPSK, cPSK = ccPSK cf, cLocalPubkey = [], cRemotePubkey = [],
      cLocalTS = [hostPrefix (ccVirtualIP cf)],
      cRemoteTS = (if pePrefixes p = [] then [allAddresses (familyOf (ccVirtualIP cf))] else pePrefixes p),
      cIfID = peIfID p, cIKEProposals = ccIKEProposals cf, cESPProposals = ccESPProposals cf, cDPDDelay = ccDPDDelay cf,
      cStart = StartNone\<rparr>"

definition validatePeer :: "ClientConfig \<Rightarrow> Peer \<Rightarrow> Connection option" where
  "validatePeer cf p =
     (if \<not> checkAddr (peAddr p) then None
      else if \<not> checkSameFamily (ccLocalAddr cf) (peAddr p) then None
      else if \<not> checkPrefixes (familyOf (ccVirtualIP cf)) (pePrefixes p) then None
      else let conn = connection cf p in
      if Validate conn \<noteq> None then None else Some conn)"

text \<open>The first locked part of \<^verbatim>\<open>Add\<close>.\<close>

definition add_begin :: "Peer \<Rightarrow> Client \<Rightarrow> planeErr + Client" where
  "add_begin p c =
     (if closed c then Inl EClosed
      else if mget (peers c) (peName p) \<noteq> None \<or> is_pending c (peName p) then Inl EExist
      else if ifid_owner c (peIfID p) \<noteq> [] then Inl EExist
      else Inr (c\<lparr>pending := mput (peName p) True (pending c), ifIDs := mput (peIfID p) (peName p) (ifIDs c)\<rparr>))"

datatype undo = UDeleteLink string | UReleaseBypass Addr | UUnloadShared string | UUnloadConn string | UTerminateIKE string

text \<open>
  \<^verbatim>\<open>bringUp\<close>: the error, the actions that undo what was done (the last one first), the client and the
  host. \<open>ended\<close> is whether the context has ended before initiating.
\<close>

definition bringUp :: "'n plane \<Rightarrow> bool \<Rightarrow> Peer \<Rightarrow> Connection \<Rightarrow> string \<Rightarrow> Client \<Rightarrow> 'n \<Rightarrow> planeErr option \<times> undo list \<times> Client \<times> 'n" where
  "bringUp P ended p conn iface c n =
     (case AddXfrmInterface P iface (peIfID p) (ccUnderlay (cfg c)) n of
        (Some e, n) \<Rightarrow> (Some (ENet e), [], c, n)
      | (None, n) \<Rightarrow>
     (let us = [UDeleteLink iface] in
      case AddAddr P iface (hostPrefix (ccVirtualIP (cfg c))) n of
        (Some e, n) \<Rightarrow> (Some (ENet e), us, c, n)
      | (None, n) \<Rightarrow>
     (case SetLinkUp P iface n of
        (Some e, n) \<Rightarrow> (Some (ENet e), us, c, n)
      | (None, n) \<Rightarrow>
     (case (if ccFullTunnel (cfg c) then acquireBypass P (peAddr p) c n else (None, c, n)) of
        (Some e, c, n) \<Rightarrow> (Some (ENet e), us, c, n)
      | (None, c, n) \<Rightarrow>
     (let us = (if ccFullTunnel (cfg c) then UReleaseBypass (peAddr p) # us else us);
          secret = \<lparr>ssID = cName conn, ssPSK = cPSK conn, ssOwners = [cLocalID conn, cRemoteID conn]\<rparr> in
      case LoadShared P secret n of
        (Some e, n) \<Rightarrow> (Some (EIke e), us, c, n)
      | (None, n) \<Rightarrow>
     (let us = UUnloadShared (ssID secret) # us in
      case LoadConn P conn n of
        (Some e, n) \<Rightarrow> (Some (EIke e), us, c, n)
      | (None, n) \<Rightarrow>
     (let us = UTerminateIKE (cName conn) # UUnloadConn (cName conn) # us in
      if ended then (Some ECtx, us, c, n)
      else (case Initiate P (cName conn) (ChildName (cName conn) (cEpoch conn)) n of (e, n) \<Rightarrow> (ike_err e, us, c, n)))))))))"

definition undo_step :: "'n plane \<Rightarrow> undo \<Rightarrow> Client \<Rightarrow> 'n \<Rightarrow> planeErr option \<times> Client \<times> 'n" where
  "undo_step P u c n = (case u of
     UDeleteLink l \<Rightarrow> (case DeleteLink P l n of (e, n) \<Rightarrow> (net_err (ignoreNotExist e), c, n))
   | UReleaseBypass a \<Rightarrow> (case releaseBypass P a c n of (e, c, n) \<Rightarrow> (net_err e, c, n))
   | UUnloadShared i \<Rightarrow> (case UnloadShared P i n of (e, n) \<Rightarrow> (ike_err (ignoreNotFound e), c, n))
   | UUnloadConn i \<Rightarrow> (case UnloadConn P i n of (e, n) \<Rightarrow> (ike_err (ignoreNotFound e), c, n))
   | UTerminateIKE i \<Rightarrow> (case TerminateIKE P i n of (e, n) \<Rightarrow> (ike_err (ignoreNotFound e), c, n)))"

fun rollback :: "'n plane \<Rightarrow> undo list \<Rightarrow> Client \<Rightarrow> 'n \<Rightarrow> planeErr list \<times> Client \<times> 'n" where
  "rollback P [] c n = ([], c, n)"
| "rollback P (u # us) c n =
     (case undo_step P u c n of (e, c, n) \<Rightarrow>
      case rollback P us c n of (es, c, n) \<Rightarrow> ((case e of None \<Rightarrow> es | Some e \<Rightarrow> e # es), c, n))"

text \<open>The second locked part: \<open>None\<close> when the peer was taken in.\<close>

definition add_end :: "Peer \<Rightarrow> Connection \<Rightarrow> string \<Rightarrow> planeErr option \<Rightarrow> Client \<Rightarrow> planeErr option \<times> Client" where
  "add_end p conn iface err c =
     (let c = c\<lparr>pending := mdel (peName p) (pending c)\<rparr>;
          err = (if err = None \<and> closed c then Some EClosed else err) in
      case err of
        None \<Rightarrow> (None, c\<lparr>peers := mput (peName p) \<lparr>cpPeer = p, cpConn = conn, cpIface = iface\<rparr> (peers c)\<rparr>)
      | Some e \<Rightarrow> (Some e, c\<lparr>ifIDs := mdel (peIfID p) (ifIDs c)\<rparr>))"

definition Add :: "'n plane \<Rightarrow> bool \<Rightarrow> Peer \<Rightarrow> Client \<Rightarrow> 'n \<Rightarrow> planeErr option \<times> Client \<times> 'n" where
  "Add P ended p c n =
     (case validatePeer (cfg c) p of
        None \<Rightarrow> (Some EInvalid, c, n)
      | Some conn \<Rightarrow>
          (case add_begin p c of
             Inl e \<Rightarrow> (Some e, c, n)
           | Inr c \<Rightarrow>
               (let iface = ifaceName (ccInterfacePrefix (cfg c)) (peIfID p) in
                case bringUp P ended p conn iface c n of (err, us, c, n) \<Rightarrow>
                case add_end p conn iface err c of
                  (None, c) \<Rightarrow> (None, c, n)
                | (Some e, c) \<Rightarrow>
                    (case rollback P us c n of (es, c, n) \<Rightarrow> (Some (if es = [] then e else ERollback e es), c, n)))))"

subsection \<open>Routes\<close>

definition client_peer :: "string \<Rightarrow> Client \<Rightarrow> planeErr + clientPeer" where
  "client_peer name c =
     (if closed c then Inl EClosed else case mget (peers c) name of None \<Rightarrow> Inl (EIke ErrNotFound) | Some p \<Rightarrow> Inr p)"

text \<open>The loop over the prefixes; \<open>None\<close> when one is a default route.\<close>

fun want_routes :: "ClientConfig \<Rightarrow> string \<Rightarrow> Prefix list \<Rightarrow> Prefix list \<Rightarrow> Route list option" where
  "want_routes cf iface seen [] = Some []"
| "want_routes cf iface seen (pf # pfs) =
     (let pf = Masked pf in
      if pfxBits pf = 0 then None
      else if pf \<in> set seen then want_routes cf iface seen pfs
      else map_option (Cons \<lparr>rDst = pf, rGw = NoAddr, rDev = iface, rSrc = ccVirtualIP cf, rTable = ccTable cf\<rparr>)
             (want_routes cf iface (pf # seen) pfs))"

definition promoted_prefixes :: "ClientConfig \<Rightarrow> Prefix list \<Rightarrow> Prefix list option" where
  "promoted_prefixes cf pfxs =
     (let f = familyOf (ccVirtualIP cf) in
      case (if ccFullTunnel cf then (if pfxs \<noteq> [] then None else Some (fullTunnelPrefixes f))
            else if pfxs = [] then None else Some pfxs) of
        None \<Rightarrow> None
      | Some ps \<Rightarrow> if checkPrefixes f ps then Some ps else None)"

text \<open>\<^verbatim>\<open>Promote\<close> up to taking the route lock: the wanted routes.\<close>

definition promote_begin :: "string \<Rightarrow> Prefix list \<Rightarrow> Client \<Rightarrow> planeErr + Route list" where
  "promote_begin name pfxs c =
     (case client_peer name c of
        Inl e \<Rightarrow> Inl e
      | Inr p \<Rightarrow>
          (case promoted_prefixes (cfg c) pfxs of
             None \<Rightarrow> Inl EInvalid
           | Some ps \<Rightarrow> (case want_routes (cfg c) (cpIface p) [] ps of None \<Rightarrow> Inl EInvalid | Some want \<Rightarrow> Inr want)))"

definition promote_end :: "'n plane \<Rightarrow> string \<Rightarrow> Route list \<Rightarrow> Client \<Rightarrow> 'n \<Rightarrow> planeErr option \<times> Client \<times> 'n" where
  "promote_end P name want c n =
     (case routes_apply (routing P) want (routes c) n of
        (Some e, rs, n) \<Rightarrow> (Some (ERoutes e), c\<lparr>routes := rs\<rparr>, n)
      | (None, rs, n) \<Rightarrow> (None, c\<lparr>routes := rs, active := name\<rparr>, n))"

definition Promote :: "'n plane \<Rightarrow> bool \<Rightarrow> string \<Rightarrow> Prefix list \<Rightarrow> Client \<Rightarrow> 'n \<Rightarrow> planeErr option \<times> Client \<times> 'n" where
  "Promote P ended name pfxs c n =
     (if ended then (Some ECtx, c, n)
      else case promote_begin name pfxs c of
        Inl e \<Rightarrow> (Some e, c, n)
      | Inr want \<Rightarrow> promote_end P name want c n)"

definition Routes :: "Client \<Rightarrow> Route list" where
  "Routes c = map snd (routes c)"

definition Active :: "Client \<Rightarrow> string" where
  "Active c = active c"

definition Peers :: "Client \<Rightarrow> string list" where
  "Peers c = mkeys (peers c)"

subsection \<open>Removing a gateway\<close>

definition remove_begin :: "string \<Rightarrow> Client \<Rightarrow> planeErr + clientPeer \<times> Client" where
  "remove_begin name c =
     (if closed c then Inl EClosed
      else case mget (peers c) name of
        None \<Rightarrow> Inl (EIke ErrNotFound)
      | Some p \<Rightarrow>
          if active c = name then Inl EInUse
          else Inr (p, c\<lparr>peers := mdel name (peers c), pending := mput name True (pending c)\<rparr>))"

definition teardown_steps :: "ClientConfig \<Rightarrow> clientPeer \<Rightarrow> undo list" where
  "teardown_steps cf p =
     [UTerminateIKE (cName (cpConn p)), UUnloadConn (cName (cpConn p)), UUnloadShared (cName (cpConn p))]
     @ (if ccFullTunnel cf then [UReleaseBypass (peAddr (cpPeer p))] else [])
     @ [UDeleteLink (cpIface p)]"

definition tearDown :: "'n plane \<Rightarrow> clientPeer \<Rightarrow> Client \<Rightarrow> 'n \<Rightarrow> planeErr list \<times> Client \<times> 'n" where
  "tearDown P p c n = rollback P (teardown_steps (cfg c) p) c n"

definition remove_end :: "string \<Rightarrow> clientPeer \<Rightarrow> Client \<Rightarrow> Client" where
  "remove_end name p c = c\<lparr>pending := mdel name (pending c), ifIDs := mdel (peIfID (cpPeer p)) (ifIDs c)\<rparr>"

definition Remove :: "'n plane \<Rightarrow> string \<Rightarrow> Client \<Rightarrow> 'n \<Rightarrow> planeErr list \<times> Client \<times> 'n" where
  "Remove P name c n =
     (case remove_begin name c of
        Inl e \<Rightarrow> ([e], c, n)
      | Inr (p, c) \<Rightarrow> (case tearDown P p c n of (es, c, n) \<Rightarrow> (es, remove_end name p c, n)))"

subsection \<open>Epochs\<close>

definition stale :: "string \<Rightarrow> u64 \<Rightarrow> ChildSA \<Rightarrow> bool" where
  "stale conn ep child = (case ParseChildName (chName child) of None \<Rightarrow> False | Some (owner, e) \<Rightarrow> \<not> (owner \<noteq> conn \<or> e \<ge> ep))"

fun terminate_children :: "'n plane \<Rightarrow> ChildSA list \<Rightarrow> 'n \<Rightarrow> ikeErr list \<times> 'n" where
  "terminate_children P [] n = ([], n)"
| "terminate_children P (ch # chs) n =
     (case TerminateChild P (chUniqueID ch) n of (e, n) \<Rightarrow>
      case terminate_children P chs n of (es, n) \<Rightarrow> ((case ignoreNotFound e of None \<Rightarrow> es | Some e \<Rightarrow> e # es), n))"

definition fenceBelow :: "'n plane \<Rightarrow> string \<Rightarrow> u64 \<Rightarrow> 'n \<Rightarrow> ikeErr list \<times> 'n" where
  "fenceBelow P conn ep n =
     (case ListSAs P conn n of
        Inl e \<Rightarrow> ([e], n)
      | Inr sas \<Rightarrow> terminate_children P (filter (stale conn ep) (concat (map ikChildren sas))) n)"

definition FenceBelow :: "'n plane \<Rightarrow> string \<Rightarrow> u64 \<Rightarrow> Client \<Rightarrow> 'n \<Rightarrow> planeErr list \<times> 'n" where
  "FenceBelow P name ep c n =
     (case client_peer name c of
        Inl e \<Rightarrow> ([e], n)
      | Inr p \<Rightarrow> (case fenceBelow P (cName (cpConn p)) ep n of (es, n) \<Rightarrow> (map EIke es, n)))"

definition Advance :: "'n plane \<Rightarrow> string \<Rightarrow> u64 \<Rightarrow> Client \<Rightarrow> 'n \<Rightarrow> planeErr list \<times> Client \<times> 'n" where
  "Advance P name ep c n =
     (case client_peer name c of
        Inl e \<Rightarrow> ([e], c, n)
      | Inr p \<Rightarrow>
          if ep \<le> cEpoch (cpConn p) then ([EInvalid], c, n)
          else let nxt = (cpConn p)\<lparr>cEpoch := ep\<rparr> in
          (case LoadConn P nxt n of
             (Some e, n) \<Rightarrow> ([EIke e], c, n)
           | (None, n) \<Rightarrow>
               (case Initiate P (cName nxt) (ChildName (cName nxt) ep) n of
                  (Some e, n) \<Rightarrow>
                    (case LoadConn P (cpConn p) n of
                       (Some e', n) \<Rightarrow> ([ERollback (EIke e) [EIke e']], c, n)
                     | (None, n) \<Rightarrow> ([EIke e], c, n))
                | (None, n) \<Rightarrow>
                    (let c = (case mget (peers c) name of
                                None \<Rightarrow> c
                              | Some cur \<Rightarrow> c\<lparr>peers := mput name (cur\<lparr>cpConn := nxt, cpPeer := (cpPeer cur)\<lparr>peEpoch := ep\<rparr>\<rparr>) (peers c)\<rparr>) in
                     case fenceBelow P (cName nxt) ep n of (es, n) \<Rightarrow> (map EIke es, c, n)))))"

definition IsWarm :: "'n plane \<Rightarrow> string \<Rightarrow> 'n \<Rightarrow> ikeErr + bool" where
  "IsWarm P conn n =
     (case ListSAs P conn n of
        Inl e \<Rightarrow> Inl e
      | Inr sas \<Rightarrow> Inr (case FindIKE sas conn of None \<Rightarrow> False | Some sa \<Rightarrow> IPsecConfig.Warm sa))"

definition Client_Warm :: "'n plane \<Rightarrow> string \<Rightarrow> Client \<Rightarrow> 'n \<Rightarrow> planeErr + bool" where
  "Client_Warm P name c n =
     (case client_peer name c of
        Inl e \<Rightarrow> Inl e
      | Inr p \<Rightarrow> (case IsWarm P (cName (cpConn p)) n of Inl e \<Rightarrow> Inl (EIke e) | Inr b \<Rightarrow> Inr b))"

subsection \<open>Closing\<close>

definition close_begin :: "Client \<Rightarrow> clientPeer list \<times> Client" where
  "close_begin c = (map snd (peers c), c\<lparr>closed := True, peers := [], active := []\<rparr>)"

fun tear_peers :: "'n plane \<Rightarrow> clientPeer list \<Rightarrow> Client \<Rightarrow> 'n \<Rightarrow> planeErr list \<times> Client \<times> 'n" where
  "tear_peers P [] c n = ([], c, n)"
| "tear_peers P (p # ps) c n =
     (case tearDown P p c n of (es, c, n) \<Rightarrow>
      case tear_peers P ps (c\<lparr>ifIDs := mdel (peIfID (cpPeer p)) (ifIDs c)\<rparr>) n of (es', c, n) \<Rightarrow> (es @ es', c, n))"

definition close_end :: "'n plane \<Rightarrow> clientPeer list \<Rightarrow> Client \<Rightarrow> 'n \<Rightarrow> planeErr list \<times> Client \<times> 'n" where
  "close_end P ps c n =
     (case routes_clear (routing P) (routes c) n of (e, rs, n) \<Rightarrow>
      case tear_peers P ps (c\<lparr>routes := rs\<rparr>) n of (es, c, n) \<Rightarrow>
      case (if ccFullTunnel (cfg c) then release_all P (ccControllers (cfg c)) c n else ([], c, n)) of (es', c, n) \<Rightarrow>
        ((case e of None \<Rightarrow> [] | Some e \<Rightarrow> [ERoutes e]) @ es @ map ENet es', c, n))"

definition Close :: "'n plane \<Rightarrow> Client \<Rightarrow> 'n \<Rightarrow> planeErr list \<times> Client \<times> 'n" where
  "Close P c n = (if closed c then ([], c, n) else case close_begin c of (ps, c) \<Rightarrow> close_end P ps c n)"

end
