(* ===== verification/IPsecClientProps.thy ===== *)
theory IPsecClientProps
  imports IPsecClient
begin

text \<open>
  What holds of \<^verbatim>\<open>internal/ipsec/client.go\<close> however calls interleave: gateways never share an interface. The
  invariant follows which name holds which interface identifier, over the peers and the calls in progress.
\<close>

section \<open>Interleaved calls\<close>

text \<open>
  A call between its locked parts. \<open>cstep\<close> lets the parts of any number of calls follow each other, and the
  host change by itself. Gateways have a name.
\<close>

datatype job = JAdd Peer Connection | JAdded Peer Connection string "planeErr option" "undo list"
  | JRemove string clientPeer | JPromote string "Route list" | JClose "clientPeer list"

inductive cstep :: "'n plane \<Rightarrow> Client \<times> job multiset \<times> 'n \<Rightarrow> Client \<times> job multiset \<times> 'n \<Rightarrow> bool" for P where
  host: "cstep P (c, js, n) (c, js, n')"
| begin_add: "validatePeer (cfg c) p = Some conn \<Longrightarrow> peName p \<noteq> [] \<Longrightarrow> add_begin p c = Inr c' \<Longrightarrow> cstep P (c, js, n) (c', add_mset (JAdd p conn) js, n)"
| run_add: "bringUp P ended p conn (ifaceName (ccInterfacePrefix (cfg c)) (peIfID p)) c n = (err, us, c', n')
    \<Longrightarrow> cstep P (c, add_mset (JAdd p conn) js, n) (c', add_mset (JAdded p conn (ifaceName (ccInterfacePrefix (cfg c)) (peIfID p)) err us) js, n')"
| end_add: "add_end p conn iface err c = (e, c') \<Longrightarrow> rollback P (if e = None then [] else us) c' n = (es, c'', n')
    \<Longrightarrow> cstep P (c, add_mset (JAdded p conn iface err us) js, n) (c'', js, n')"
| begin_remove: "remove_begin name c = Inr (p, c') \<Longrightarrow> cstep P (c, js, n) (c', add_mset (JRemove name p) js, n)"
| end_remove: "tearDown P p c n = (es, c', n') \<Longrightarrow> cstep P (c, add_mset (JRemove name p) js, n) (remove_end name p c', js, n')"
| begin_promote: "promote_begin name pfxs c = Inr want \<Longrightarrow> cstep P (c, js, n) (c, add_mset (JPromote name want) js, n)"
| end_promote: "promote_end P name want c n = (e, c', n') \<Longrightarrow> cstep P (c, add_mset (JPromote name want) js, n) (c', js, n')"
| advance: "Advance P name ep c n = (es, c', n') \<Longrightarrow> cstep P (c, js, n) (c', js, n')"
| begin_close: "\<not> closed c \<Longrightarrow> close_begin c = (ps, c') \<Longrightarrow> cstep P (c, js, n) (c', add_mset (JClose ps) js, n)"
| end_close: "close_end P ps c n = (es, c', n') \<Longrightarrow> cstep P (c, add_mset (JClose ps) js, n) (c', js, n')"

text \<open>
  Running commands and undoing them changes only the bypass routes of the client, and keeps their reference
  counts positive.
\<close>

definition bypass_pos :: "(Addr, bypassRoute) gomap \<Rightarrow> bool" where
  "bypass_pos m \<longleftrightarrow> mwf m \<and> (\<forall>a b. mget m a = Some b \<longrightarrow> brRefs b > 0)"

definition quiet :: "Client \<Rightarrow> Client \<Rightarrow> bool" where
  "quiet c c' \<longleftrightarrow> c' = c\<lparr>bypass := bypass c'\<rparr> \<and> (bypass_pos (bypass c) \<longrightarrow> bypass_pos (bypass c'))"

lemma cquiet_refl [simp]: "quiet c c"
  by (simp add: quiet_def)

lemma cquiet_trans: "quiet a b \<Longrightarrow> quiet b c \<Longrightarrow> quiet a c"
  by (cases a; cases b; cases c) (simp add: quiet_def)

lemma quietD:
  "quiet c c' \<Longrightarrow> cfg c' = cfg c" "quiet c c' \<Longrightarrow> peers c' = peers c" "quiet c c' \<Longrightarrow> pending c' = pending c"
  "quiet c c' \<Longrightarrow> ifIDs c' = ifIDs c" "quiet c c' \<Longrightarrow> active c' = active c" "quiet c c' \<Longrightarrow> closed c' = closed c" "quiet c c' \<Longrightarrow> routes c' = routes c"
  "quiet c c' \<Longrightarrow> bypass_pos (bypass c) \<Longrightarrow> bypass_pos (bypass c')"
  by (cases c; cases c'; simp add: quiet_def)+

lemma bypass_posD: "mget m a = Some b \<Longrightarrow> bypass_pos m \<Longrightarrow> 0 < brRefs b"
  unfolding bypass_pos_def by blast

lemma bypass_pos_put: "bypass_pos m \<Longrightarrow> 0 < brRefs b \<Longrightarrow> bypass_pos (mput a b m)"
  unfolding bypass_pos_def by (simp add: mwf_mput)

lemma bypass_pos_del: "bypass_pos m \<Longrightarrow> bypass_pos (mdel a m)"
  unfolding bypass_pos_def by (simp add: mwf_mdel)

lemma acquire_quiet: "acquireBypass P a c n = (e, c', n') \<Longrightarrow> quiet c c'"
  by (auto simp: acquireBypass_def quiet_def split: option.splits prod.splits if_splits intro!: bypass_pos_put less_imp_le) (erule (1) bypass_posD)

lemma release_quiet: "releaseBypass P a c n = (e, c', n') \<Longrightarrow> quiet c c'"
  by (auto simp: releaseBypass_def quiet_def Let_def split: option.splits prod.splits if_splits intro!: bypass_pos_put bypass_pos_del)

lemma undo_step_quiet: "undo_step P u c n = (e, c', n') \<Longrightarrow> quiet c c'"
  by (auto simp: undo_step_def split: undo.splits prod.splits dest: release_quiet)

lemma rollback_quiet: "rollback P us c n = (es, c', n') \<Longrightarrow> quiet c c'"
proof (induction us arbitrary: c n es)
  case (Cons u us)
  obtain e c1 n1 where u: "undo_step P u c n = (e, c1, n1)" by (metis prod_cases3)
  then show ?case using Cons cquiet_trans [OF undo_step_quiet [OF u]] by (auto split: prod.splits)
qed simp

lemma tearDown_quiet: "tearDown P p c n = (es, c', n') \<Longrightarrow> quiet c c'"
  unfolding tearDown_def by (rule rollback_quiet)

lemma release_all_quiet: "release_all P as c n = (es, c', n') \<Longrightarrow> quiet c c'"
proof (induction as arbitrary: c n es)
  case (Cons a as)
  obtain e c1 n1 where u: "releaseBypass P a c n = (e, c1, n1)" by (metis prod_cases3)
  then show ?case using Cons cquiet_trans [OF release_quiet [OF u]] by (auto split: prod.splits)
qed simp

lemma bringUp_quiet: "bringUp P ended p conn iface c n = (err, us, c', n') \<Longrightarrow> quiet c c'"
  by (auto simp: bringUp_def Let_def split: prod.splits option.splits if_splits dest: acquire_quiet)

subsection \<open>Who holds which interface\<close>

definition peer_holds :: "clientPeer \<Rightarrow> string \<times> u32" where
  "peer_holds p = (peName (cpPeer p), peIfID (cpPeer p))"

definition job_holds :: "job \<Rightarrow> (string \<times> u32) multiset" where
  "job_holds j = (case j of
     JAdd p _ \<Rightarrow> {#(peName p, peIfID p)#}
   | JAdded p _ _ _ _ \<Rightarrow> {#(peName p, peIfID p)#}
   | JRemove _ p \<Rightarrow> {#peer_holds p#}
   | JPromote _ _ \<Rightarrow> {#}
   | JClose ps \<Rightarrow> mset (map peer_holds ps))"

definition holds :: "Client \<Rightarrow> job multiset \<Rightarrow> (string \<times> u32) multiset" where
  "holds c js = mset (map (peer_holds \<circ> snd) (peers c)) + (\<Sum>j \<in># js. job_holds j)"

text \<open>
  Every name holds at most one interface identifier, registered under its name; a call in progress has its
  name marked; a peer stands under its own name and on the interface of its identifier.
\<close>

definition job_ok :: "Client \<Rightarrow> job \<Rightarrow> bool" where
  "job_ok c j = (case j of
     JAdd p _ \<Rightarrow> mget (pending c) (peName p) = Some True
   | JAdded p _ iface _ _ \<Rightarrow> mget (pending c) (peName p) = Some True \<and> iface = ifaceName (ccInterfacePrefix (cfg c)) (peIfID p)
   | JRemove name p \<Rightarrow> mget (pending c) name = Some True \<and> peName (cpPeer p) = name
   | JPromote _ _ \<Rightarrow> True
   | JClose ps \<Rightarrow> closed c)"

definition peer_ok :: "Client \<Rightarrow> string \<times> clientPeer \<Rightarrow> bool" where
  "peer_ok c e \<longleftrightarrow> fst e = peName (cpPeer (snd e)) \<and> cpIface (snd e) = ifaceName (ccInterfacePrefix (cfg c)) (peIfID (cpPeer (snd e)))"

definition one_each :: "'a multiset \<Rightarrow> bool" where
  "one_each M \<longleftrightarrow> (\<forall>x. count M x \<le> 1)"

definition reg :: "(u32, string) gomap \<Rightarrow> (string \<times> u32) multiset \<Rightarrow> bool" where
  "reg ids M \<longleftrightarrow> one_each (image_mset fst M) \<and> (\<forall>(nm, i) \<in># M. nm \<noteq> [] \<and> mget ids i = Some nm) \<and> (\<forall>i nm. mget ids i = Some nm \<longrightarrow> nm \<noteq> [])"

definition cinv :: "Client \<Rightarrow> job multiset \<Rightarrow> bool" where
  "cinv c js \<longleftrightarrow> mwf (peers c) \<and> list_all (peer_ok c) (peers c) \<and> (\<forall>j \<in># js. job_ok c j) \<and> reg (ifIDs c) (holds c js) \<and> (closed c \<longrightarrow> peers c = [])
     \<and> bypass_pos (bypass c)"

lemma one_each_add: "one_each (add_mset x M) \<longleftrightarrow> x \<notin># M \<and> one_each M"
proof
  assume a: "one_each (add_mset x M)"
  have "count M x = 0" using a [unfolded one_each_def, rule_format, of x] by simp
  moreover have "count M y \<le> 1" for y using a [unfolded one_each_def, rule_format, of y] by (cases "y = x") simp_all
  ultimately show "x \<notin># M \<and> one_each M" by (simp add: one_each_def not_in_iff)
qed (auto simp: one_each_def not_in_iff)

lemma reg_add:
  "reg ids M \<Longrightarrow> nm \<notin># image_mset fst M \<Longrightarrow> nm \<noteq> [] \<Longrightarrow> mget ids i = None \<Longrightarrow> reg (mput i nm ids) (add_mset (nm, i) M)"
  unfolding reg_def by (auto simp: one_each_add)

lemma reg_del:
  assumes "reg ids (add_mset (nm, i) M)"
  shows "reg (mdel i ids) M"
proof -
  have "i' \<noteq> i" if m: "(nm', i') \<in># M" for nm' i'
  proof
    assume "i' = i"
    then have "nm' = nm" using assms m by (auto simp: reg_def)
    then have "nm \<in># image_mset fst M" using m by force
    then show False using assms by (simp add: reg_def one_each_add)
  qed
  then show ?thesis using assms by (auto simp: reg_def one_each_add)
qed

lemma reg_del_all: "reg ids (mset ps + M) \<Longrightarrow> reg (foldl (\<lambda>ids p. mdel (snd p) ids) ids ps) M"
proof (induction ps arbitrary: ids)
  case (Cons p ps)
  have "reg ids (add_mset (fst p, snd p) (mset ps + M))" using Cons.prems by simp
  from Cons.IH [OF reg_del [OF this]] show ?case by simp
qed simp

lemma regD: "reg ids M \<Longrightarrow> (nm, i) \<in># M \<Longrightarrow> nm \<noteq> [] \<and> mget ids i = Some nm"
  by (auto simp: reg_def)

lemma reg_inj: "reg ids M \<Longrightarrow> (nm, i) \<in># M \<Longrightarrow> (nm', i) \<in># M \<Longrightarrow> nm = nm'"
  using regD [of ids M nm i] regD [of ids M nm' i] by simp

lemma mset_mdel_entry: "mwf m \<Longrightarrow> mget m k = Some v \<Longrightarrow> mset m = add_mset (k, v) (mset (mdel k m))"
proof (induction m)
  case (Cons e m)
  show ?case
  proof (cases "fst e = k")
    case True
    then have "k \<notin> set (mkeys m)" using Cons.prems(1) by auto
    then have "mdel k m = m" by (simp add: AList.delete_eq filter_id_conv) force
    then show ?thesis using True Cons.prems by (cases e) auto
  qed (use Cons in \<open>cases e; auto\<close>)
qed simp

lemma map_mput_same: "mget m k = Some v \<Longrightarrow> f v' = f v \<Longrightarrow> map (f \<circ> snd) (mput k v' m) = map (f \<circ> snd) m"
  by (induction m) auto

subsection \<open>The invariant holds\<close>

lemma holds_job: "holds c (add_mset j js) = job_holds j + holds c js"
  by (simp add: holds_def)

lemma holds_quiet: "quiet c c' \<Longrightarrow> holds c' js = holds c js"
  by (simp add: holds_def quietD)

lemma job_ok_keep:
  "job_ok c j \<Longrightarrow> (\<forall>nm i. (nm, i) \<in># job_holds j \<longrightarrow> mget (pending c') nm = mget (pending c) nm) \<Longrightarrow> cfg c' = cfg c \<Longrightarrow> (closed c \<Longrightarrow> closed c') \<Longrightarrow> job_ok c' j"
  by (cases j) (auto simp: job_ok_def job_holds_def peer_holds_def)

lemma cinv_quiet:
  assumes "cinv c js" "quiet c c'"
  shows "cinv c' js"
proof -
  have "job_ok c' j" if "job_ok c j" for j
    by (rule job_ok_keep [OF that]) (simp_all add: quietD [OF assms(2)])
  moreover have "list_all (peer_ok c') (peers c)" if "list_all (peer_ok c) (peers c)"
    using that by (simp add: peer_ok_def list_all_iff quietD [OF assms(2)])
  ultimately show ?thesis using assms(1) by (simp add: cinv_def holds_quiet [OF assms(2)] quietD [OF assms(2)])
qed

lemma job_holds_in: "j \<in># js \<Longrightarrow> x \<in># job_holds j \<Longrightarrow> x \<in># holds c js"
  by (auto simp: holds_def)

lemma job_name_in: "j \<in># js \<Longrightarrow> (nm, i) \<in># job_holds j \<Longrightarrow> nm \<in># image_mset fst (holds c js)"
  using job_holds_in [of j js "(nm, i)" c] by force

lemma peer_holds_in: "mget (peers c) k = Some p \<Longrightarrow> peer_holds p \<in># holds c js"
  by (force simp: holds_def dest: map_of_SomeD)

text \<open>Ending a call whose name is held once leaves the marks of the others.\<close>

lemma other_jobs_keep:
  assumes "cinv c (add_mset j js)" "(nm, i) \<in># job_holds j" "j' \<in># js"
    and "\<And>nm'. nm' \<noteq> nm \<Longrightarrow> mget (pending c') nm' = mget (pending c) nm'" "cfg c' = cfg c" "closed c \<Longrightarrow> closed c'"
  shows "job_ok c' j'"
proof (rule job_ok_keep [of c])
  show "job_ok c j'" using assms(1,3) by (simp add: cinv_def)
  show "\<forall>nm' i'. (nm', i') \<in># job_holds j' \<longrightarrow> mget (pending c') nm' = mget (pending c) nm'"
  proof (intro allI impI)
    fix nm' i' assume h: "(nm', i') \<in># job_holds j'"
    have one: "one_each (image_mset fst (job_holds j + holds c js))" using assms(1) by (simp add: cinv_def reg_def holds_job)
    obtain M where M: "job_holds j = add_mset (nm, i) M" using assms(2) by (metis mset_add)
    have "nm \<notin># image_mset fst (holds c js)" using one M by (simp add: one_each_add)
    moreover have "nm' \<in># image_mset fst (holds c js)" by (rule job_name_in [OF assms(3) h])
    ultimately have "nm' \<noteq> nm" by blast
    then show "mget (pending c') nm' = mget (pending c) nm'" by (rule assms(4))
  qed
qed (use assms in auto)

lemma cinv_begin_add:
  assumes "cinv c js" "peName p \<noteq> []" "add_begin p c = Inr c'"
  shows "cinv c' (add_mset (JAdd p conn) js)"
proof -
  have c': "c' = c\<lparr>pending := mput (peName p) True (pending c), ifIDs := mput (peIfID p) (peName p) (ifIDs c)\<rparr>"
    and nc: "\<not> closed c" and np: "mget (peers c) (peName p) = None" "mget (pending c) (peName p) \<noteq> Some True" and ni: "ifid_owner c (peIfID p) = []"
    using assms(3) by (auto simp: add_begin_def is_pending_def split: if_splits)
  have reg: "reg (ifIDs c) (holds c js)" and jobs: "\<forall>j \<in># js. job_ok c j" and pk: "list_all (peer_ok c) (peers c)" using assms(1) by (simp_all add: cinv_def)
  have free: "mget (ifIDs c) (peIfID p) = None"
    using ni reg by (auto simp: ifid_owner_def reg_def split: option.splits)
  have new: "peName p \<notin># image_mset fst (holds c js)"
  proof
    assume "peName p \<in># image_mset fst (holds c js)"
    then obtain i where "(peName p, i) \<in># holds c js" by auto
    then consider k q where "(k, q) \<in> set (peers c)" "peer_holds q = (peName p, i)" | j where "j \<in># js" "(peName p, i) \<in># job_holds j"
      by (auto simp: holds_def)
    then show False
    proof cases
      case 1
      then have "k = peName p" using pk by (auto simp: list_all_iff peer_ok_def peer_holds_def)
      then show False using 1(1) np(1) by (force simp: mget_None_iff)
    next
      case 2
      then have "job_ok c j" using jobs by simp
      then show False using 2(2) np(2) nc by (cases j) (auto simp: job_ok_def job_holds_def peer_holds_def)
    qed
  qed
  have "reg (ifIDs c') (holds c' (add_mset (JAdd p conn) js))"
    using reg_add [OF reg new assms(2) free] by (simp add: c' holds_def job_holds_def)
  moreover have "job_ok c' j" if j: "j \<in># js" for j
  proof (rule job_ok_keep [of c])
    show "job_ok c j" using jobs j by simp
    show "\<forall>nm i. (nm, i) \<in># job_holds j \<longrightarrow> mget (pending c') nm = mget (pending c) nm"
      using job_name_in [OF j, of _ _ c] new by (auto simp: c')
  qed (simp_all add: c')
  moreover have "list_all (peer_ok c') (peers c')" using pk by (simp add: c' peer_ok_def list_all_iff)
  moreover have "job_ok c' (JAdd p conn)" by (simp add: job_ok_def c')
  ultimately show ?thesis using assms(1) nc by (simp add: cinv_def c')
qed

lemma cinv_run_add:
  assumes "cinv c (add_mset (JAdd p conn) js)" "quiet c c'"
  shows "cinv c' (add_mset (JAdded p conn (ifaceName (ccInterfacePrefix (cfg c)) (peIfID p)) err us) js)"
proof -
  have "cinv c' (add_mset (JAdd p conn) js)" by (rule cinv_quiet [OF assms])
  then show ?thesis by (simp add: cinv_def holds_job job_holds_def job_ok_def quietD [OF assms(2)])
qed

lemma cinv_end_add:
  assumes inv: "cinv c (add_mset (JAdded p conn iface err us) js)" and e: "add_end p conn iface err c = (e, c')"
  shows "cinv c' js"
proof -
  let ?j = "JAdded p conn iface err us"
  have reg: "reg (ifIDs c) (add_mset (peName p, peIfID p) (holds c js))"
    using inv by (simp add: cinv_def holds_job job_holds_def)
  have jp: "iface = ifaceName (ccInterfacePrefix (cfg c)) (peIfID p)" using inv by (simp add: cinv_def job_ok_def)
  have j: "(peName p, peIfID p) \<in># job_holds ?j" by (simp add: job_holds_def)
  have pk: "list_all (peer_ok c) (peers c)" "mwf (peers c)" "closed c \<longrightarrow> peers c = []" "bypass_pos (bypass c)" using inv by (simp_all add: cinv_def)
  show ?thesis
  proof (cases e)
    case None
    have c': "c' = c\<lparr>pending := mdel (peName p) (pending c), peers := mput (peName p) \<lparr>cpPeer = p, cpConn = conn, cpIface = iface\<rparr> (peers c)\<rparr>"
      and nc: "\<not> closed c" using e None by (auto simp: add_end_def Let_def split: option.splits if_splits)
    have new: "mget (peers c) (peName p) = None"
    proof (rule ccontr)
      assume "mget (peers c) (peName p) \<noteq> None"
      then obtain q where q: "mget (peers c) (peName p) = Some q" by blast
      then have "fst (peer_holds q) = peName p" using pk(1) by (auto simp: list_all_iff peer_ok_def peer_holds_def dest!: map_of_SomeD)
      then have "peName p \<in># image_mset fst (holds c js)" using peer_holds_in [OF q, of js] by force
      then show False using reg by (simp add: reg_def one_each_add)
    qed
    have h: "holds c' js = add_mset (peName p, peIfID p) (holds c js)"
      by (simp add: c' holds_def mput_new [OF new] peer_holds_def)
    have "job_ok c' j'" if "j' \<in># js" for j' by (rule other_jobs_keep [OF inv j that]) (simp_all add: c')
    moreover have "list_all (peer_ok c') (peers c')" using pk(1) jp by (simp add: c' mput_new [OF new] peer_ok_def list_all_iff)
    moreover have "mwf (peers c')" using pk(2) by (simp add: c')
    ultimately show ?thesis using reg nc pk(4) by (simp add: cinv_def h) (simp add: c')
  next
    case (Some x)
    have c': "c' = c\<lparr>pending := mdel (peName p) (pending c), ifIDs := mdel (peIfID p) (ifIDs c)\<rparr>"
      using e Some by (auto simp: add_end_def Let_def split: option.splits if_splits)
    have h: "holds c' js = holds c js" by (simp add: c' holds_def)
    have "job_ok c' j'" if "j' \<in># js" for j' by (rule other_jobs_keep [OF inv j that]) (simp_all add: c')
    moreover have "list_all (peer_ok c') (peers c')" using pk(1) by (simp add: c' peer_ok_def list_all_iff)
    ultimately show ?thesis using reg_del [OF reg] pk by (simp add: cinv_def h) (simp add: c')
  qed
qed

lemma cinv_begin_remove:
  assumes inv: "cinv c js" and r: "remove_begin name c = Inr (p, c')"
  shows "cinv c' (add_mset (JRemove name p) js)"
proof -
  have p: "mget (peers c) name = Some p" and c': "c' = c\<lparr>peers := mdel name (peers c), pending := mput name True (pending c)\<rparr>" and nc: "\<not> closed c"
    using r by (auto simp: remove_begin_def split: if_splits option.splits)
  have pk: "list_all (peer_ok c) (peers c)" "mwf (peers c)" "bypass_pos (bypass c)" and reg: "reg (ifIDs c) (holds c js)" using inv by (simp_all add: cinv_def)
  have nm: "peName (cpPeer p) = name" using p pk(1) by (auto simp: list_all_iff peer_ok_def dest!: map_of_SomeD)
  have m: "mset (peers c) = add_mset (name, p) (mset (mdel name (peers c)))" by (rule mset_mdel_entry [OF pk(2) p])
  have "mset (map (peer_holds \<circ> snd) (peers c)) = add_mset (peer_holds p) (mset (map (peer_holds \<circ> snd) (mdel name (peers c))))"
    using m by simp
  then have h: "holds c' (add_mset (JRemove name p) js) = holds c js" by (simp add: holds_def job_holds_def c')
  have "job_ok c' j" if j: "j \<in># js" for j
  proof -
    have "job_ok c j" using inv j by (simp add: cinv_def)
    then show ?thesis using nc by (cases j) (auto simp: job_ok_def c')
  qed
  moreover have "list_all (peer_ok c') (peers c')" using pk(1) by (auto simp: c' peer_ok_def list_all_iff AList.delete_eq)
  moreover have "job_ok c' (JRemove name p)" using nm by (simp add: job_ok_def c')
  ultimately show ?thesis using reg pk nc by (simp add: cinv_def h) (simp add: c')
qed

lemma cinv_end_remove:
  assumes inv: "cinv c (add_mset (JRemove name p) js)"
  shows "cinv (remove_end name p c) js"
proof -
  have nm: "peName (cpPeer p) = name" using inv by (simp add: cinv_def job_ok_def)
  have reg: "reg (ifIDs c) (add_mset (name, peIfID (cpPeer p)) (holds c js))"
    using inv nm by (simp add: cinv_def holds_job job_holds_def peer_holds_def)
  have j: "(name, peIfID (cpPeer p)) \<in># job_holds (JRemove name p)" using nm by (simp add: job_holds_def peer_holds_def)
  have "job_ok (remove_end name p c) j'" if "j' \<in># js" for j'
    by (rule other_jobs_keep [OF inv j that]) (simp_all add: remove_end_def)
  moreover have "holds (remove_end name p c) js = holds c js" by (simp add: holds_def remove_end_def)
  ultimately show ?thesis using inv reg_del [OF reg] by (simp add: cinv_def) (simp add: remove_end_def peer_ok_def list_all_iff)
qed

lemma cinv_promote:
  assumes "cinv c (add_mset (JPromote name want) js)" "promote_end P name want c n = (e, c', n')"
  shows "cinv c' js"
proof -
  have c': "cfg c' = cfg c" "peers c' = peers c" "pending c' = pending c" "ifIDs c' = ifIDs c" "closed c' = closed c" "bypass c' = bypass c"
    using assms(2) by (auto simp: promote_end_def split: prod.splits option.splits)
  have "job_ok c' j" if "j \<in># js" for j by (rule job_ok_keep [of c]) (use assms(1) that in \<open>auto simp: cinv_def c'\<close>)
  moreover have "holds c' js = holds c js" by (simp add: holds_def c')
  moreover have "list_all (peer_ok c') (peers c)" if "list_all (peer_ok c) (peers c)" using that by (simp add: peer_ok_def list_all_iff c')
  ultimately show ?thesis using assms(1) by (simp add: cinv_def holds_job job_holds_def c')
qed

lemma Advance_client:
  assumes "Advance P name ep c n = (es, c', n')"
  shows "c' = c \<or> (\<exists>p. mget (peers c) name = Some p \<and> \<not> closed c
    \<and> c' = c\<lparr>peers := mput name (p\<lparr>cpConn := (cpConn p)\<lparr>cEpoch := ep\<rparr>, cpPeer := (cpPeer p)\<lparr>peEpoch := ep\<rparr>\<rparr>) (peers c)\<rparr>)"
proof (cases "client_peer name c")
  case (Inl e)
  then show ?thesis using assms by (simp add: Advance_def)
next
  case (Inr p)
  then have p: "mget (peers c) name = Some p" "\<not> closed c" by (auto simp: client_peer_def split: if_splits option.splits)
  show ?thesis
  proof (cases "c' = c")
    case False
    then have "c' = c\<lparr>peers := mput name (p\<lparr>cpConn := (cpConn p)\<lparr>cEpoch := ep\<rparr>, cpPeer := (cpPeer p)\<lparr>peEpoch := ep\<rparr>\<rparr>) (peers c)\<rparr>"
      using assms Inr p(1) unfolding Advance_def Let_def by (simp split: if_splits prod.splits option.splits)
    then show ?thesis using p by blast
  qed simp
qed

lemma cinv_advance:
  assumes "cinv c js" "Advance P name ep c n = (es, c', n')"
  shows "cinv c' js"
proof -
  consider "c' = c" | cur conn where "mget (peers c) name = Some cur"
      "c' = c\<lparr>peers := mput name (cur\<lparr>cpConn := conn, cpPeer := (cpPeer cur)\<lparr>peEpoch := ep\<rparr>\<rparr>) (peers c)\<rparr>" "\<not> closed c"
    using Advance_client [OF assms(2)] by blast
  then show ?thesis
  proof cases
    case (2 cur conn)
    have "map (peer_holds \<circ> snd) (peers c') = map (peer_holds \<circ> snd) (peers c)"
      unfolding 2(2) using map_mput_same [OF 2(1), of peer_holds] by (simp add: peer_holds_def)
    then have h: "holds c' js = holds c js" by (simp add: holds_def)
    have "peer_ok c (name, cur)" using assms(1) 2(1) by (auto simp: cinv_def list_all_iff dest!: map_of_SomeD)
    moreover have "list_all (peer_ok c) (peers c)" "mwf (peers c)" using assms(1) by (simp_all add: cinv_def)
    ultimately have "list_all (peer_ok c') (peers c')" using set_mput [of "peers c"] by (auto simp: 2(2) peer_ok_def list_all_iff)
    moreover have "job_ok c' j" if "j \<in># js" for j by (rule job_ok_keep [of c]) (use assms(1) that in \<open>auto simp: cinv_def 2\<close>)
    ultimately show ?thesis using assms(1) 2(3) by (simp add: cinv_def h) (simp add: 2(2))
  qed (use assms(1) in simp)
qed

lemma cinv_begin_close:
  assumes "cinv c js" "close_begin c = (ps, c')"
  shows "cinv c' (add_mset (JClose ps) js)"
proof -
  have c': "c' = c\<lparr>closed := True, peers := [], active := []\<rparr>" and ps: "ps = map snd (peers c)" using assms(2) by (auto simp: close_begin_def)
  have h: "holds c' (add_mset (JClose ps) js) = holds c js" by (simp add: holds_def job_holds_def c' ps)
  have "job_ok c' j" if "j \<in># js" for j by (rule job_ok_keep [of c]) (use assms(1) that in \<open>auto simp: cinv_def c'\<close>)
  then show ?thesis using assms(1) by (simp add: cinv_def h) (simp add: c' job_ok_def)
qed

lemma quiet_ifIDs: "quiet c c' \<Longrightarrow> quiet (c\<lparr>ifIDs := x\<rparr>) (c'\<lparr>ifIDs := x\<rparr>)"
  by (cases c; cases c') (simp add: quiet_def)

lemma tear_peers_quiet:
  "tear_peers P ps c n = (es, c', n') \<Longrightarrow> quiet (c\<lparr>ifIDs := foldl (\<lambda>ids p. mdel (snd p) ids) (ifIDs c) (map peer_holds ps)\<rparr>) c'"
proof (induction ps arbitrary: c n es)
  case (Cons p ps)
  obtain es1 c1 n1 where t: "tearDown P p c n = (es1, c1, n1)" by (metis prod_cases3)
  obtain es2 where r: "tear_peers P ps (c1\<lparr>ifIDs := mdel (peIfID (cpPeer p)) (ifIDs c1)\<rparr>) n1 = (es2, c', n')"
    using Cons.prems t by (auto split: prod.splits)
  have q: "quiet c c1" by (rule tearDown_quiet [OF t])
  have "quiet (c\<lparr>ifIDs := foldl (\<lambda>ids p. mdel (snd p) ids) (ifIDs c) (map peer_holds (p # ps))\<rparr>)
    (c1\<lparr>ifIDs := foldl (\<lambda>ids p. mdel (snd p) ids) (ifIDs c) (map peer_holds (p # ps))\<rparr>)" by (rule quiet_ifIDs [OF q])
  moreover have "quiet (c1\<lparr>ifIDs := foldl (\<lambda>ids p. mdel (snd p) ids) (ifIDs c) (map peer_holds (p # ps))\<rparr>) c'"
    using Cons.IH [OF r] by (simp add: peer_holds_def [of p] quietD(4) [OF q])
  ultimately show ?case by (rule cquiet_trans)
qed simp

lemma cinv_end_close:
  assumes "cinv c (add_mset (JClose ps) js)" "close_end P ps c n = (es, c', n')"
  shows "cinv c' js"
proof -
  obtain e rs n1 where r: "routes_clear (routing P) (routes c) n = (e, rs, n1)" by (metis prod_cases3)
  obtain es1 c1 n2 where t: "tear_peers P ps (c\<lparr>routes := rs\<rparr>) n1 = (es1, c1, n2)" by (metis prod_cases3)
  let ?ids = "foldl (\<lambda>ids p. mdel (snd p) ids) (ifIDs c) (map peer_holds ps)"
  have "quiet c1 c'" using assms(2) r t by (auto simp: close_end_def split: prod.splits if_splits dest: release_all_quiet)
  moreover have "quiet (c\<lparr>routes := rs, ifIDs := ?ids\<rparr>) c1" using tear_peers_quiet [OF t] by simp
  ultimately have q: "quiet (c\<lparr>routes := rs, ifIDs := ?ids\<rparr>) c'" using cquiet_trans by blast
  let ?c = "c\<lparr>routes := rs, ifIDs := ?ids\<rparr>"
  have "job_ok ?c j" if "j \<in># js" for j by (rule job_ok_keep [of c]) (use assms(1) that in \<open>auto simp: cinv_def\<close>)
  moreover have "reg (ifIDs c) (mset (map peer_holds ps) + holds c js)" using assms(1) by (simp add: cinv_def holds_job job_holds_def)
  then have "reg ?ids (holds c js)" by (rule reg_del_all)
  moreover have "holds ?c js = holds c js" by (simp add: holds_def)
  ultimately have "cinv ?c js" using assms(1) by (simp add: cinv_def peer_ok_def list_all_iff)
  then show ?thesis by (rule cinv_quiet [OF _ q])
qed

lemma cinv_step: "cstep P s s' \<Longrightarrow> cinv (fst s) (fst (snd s)) \<Longrightarrow> cinv (fst s') (fst (snd s'))"
proof (induction rule: cstep.induct)
  case (run_add ended p conn c n err us c' n' js)
  then show ?case using cinv_run_add [OF _ bringUp_quiet [OF run_add(1)]] by simp
next
  case (end_add p conn iface err c e c' us n es c'' n' js)
  then show ?case using cinv_quiet [OF cinv_end_add [OF _ end_add(1)] rollback_quiet [OF end_add(2)]] by simp
next
  case (end_remove p c n es c' n' name js)
  then show ?case using cinv_end_remove [OF cinv_quiet [OF _ tearDown_quiet [OF end_remove(1)]]] by simp
next
  case (begin_promote name pfxs c want js n)
  then show ?case by (simp add: cinv_def holds_job job_holds_def job_ok_def)
qed (auto intro: cinv_begin_add cinv_begin_remove cinv_promote cinv_advance cinv_begin_close cinv_end_close)

lemma cinv_steps: "(cstep P)\<^sup>*\<^sup>* s s' \<Longrightarrow> cinv (fst s) (fst (snd s)) \<Longrightarrow> cinv (fst s') (fst (snd s'))"
  by (induction rule: rtranclp_induct) (auto dest: cinv_step)

lemma acquire_controllers_quiet: "acquire_controllers P got as c n = (e, c', n') \<Longrightarrow> quiet c c'"
proof (induction P got as c n rule: acquire_controllers.induct)
  case (2 P got a as c n)
  obtain e1 c1 n1 where a: "acquireBypass P a c n = (e1, c1, n1)" by (metis prod_cases3)
  show ?case
  proof (cases e1)
    case None
    then show ?thesis using 2 a cquiet_trans [OF acquire_quiet [OF a]] by auto
  next
    case (Some x)
    then show ?thesis using 2(2) a cquiet_trans [OF acquire_quiet [OF a] release_all_quiet] by (auto split: prod.splits)
  qed
qed simp

lemma cinv_new: "NewClient P cf n = (Inr c, n') \<Longrightarrow> cinv c {#}"
proof -
  let ?c = "\<lparr>cfg = setDefaults cf, peers = [], pending = [], ifIDs = [], active = [], closed = False, routes = newRouteSet, bypass = []\<rparr>"
  assume "NewClient P cf n = (Inr c, n')"
  then have "quiet ?c c"
    by (auto simp: NewClient_def Let_def split: if_splits option.splits prod.splits dest: acquire_controllers_quiet)
  moreover have "cinv ?c {#}" by (simp add: cinv_def holds_def reg_def one_each_def bypass_pos_def)
  ultimately show ?thesis using cinv_quiet by blast
qed

lemma ifaceName_inject: "ifaceName pre i = ifaceName pre j \<longleftrightarrow> i = j"
proof -
  have "i = j" if "(ucast i :: u64) = ucast j"
    using that by transfer simp
  then show ?thesis by (auto simp: ifaceName_def FormatUint_inject)
qed

section \<open>A simulated host\<close>

text \<open>
  A kernel and a daemon with the set of their resources as state. An initiate to a connection in \<open>bad\<close>
  fails and leaves an association behind.
\<close>

datatype resource = RLink string | RRoute "Prefix \<times> int" | RSecret string | RConn string | RSA string

definition sim_make :: "'e \<Rightarrow> resource \<Rightarrow> resource set \<Rightarrow> 'e option \<times> resource set" where
  "sim_make e x R = (if x \<in> R then (Some e, R) else (None, insert x R))"

definition sim_drop :: "'e \<Rightarrow> resource \<Rightarrow> resource set \<Rightarrow> 'e option \<times> resource set" where
  "sim_drop e x R = (if x \<in> R then (None, R - {x}) else (Some e, R))"

definition sim_plane :: "string list \<Rightarrow> (resource set) plane" where
  "sim_plane bad =
     \<lparr>routing = \<lparr>RouteReplace = \<lambda>r R. (None, insert (RRoute (rkey r)) R), RouteDel = \<lambda>r. sim_drop ErrNotExist (RRoute (rkey r))\<rparr>,
      AddXfrmInterface = \<lambda>l i u. sim_make ErrExist (RLink l), DeleteLink = \<lambda>l. sim_drop ErrNotExist (RLink l),
      AddAddr = \<lambda>l a R. (None, R), SetLinkUp = \<lambda>l R. (None, R),
      RouteAdd = \<lambda>r. sim_make ErrExist (RRoute (rkey r)),
      RouteGet = \<lambda>a R. Some \<lparr>rDst = hostPrefix a, rGw = NoAddr, rDev = ''eth0'', rSrc = NoAddr, rTable = 0\<rparr>,
      DefaultRoute = \<lambda>f R. None, RuleAdd = \<lambda>r R. (None, R), RuleDel = \<lambda>r R. (None, R),
      LoadConn = \<lambda>c R. (None, insert (RConn (cName c)) R), UnloadConn = \<lambda>i. sim_drop ErrNotFound (RConn i),
      LoadShared = \<lambda>s R. (None, insert (RSecret (ssID s)) R), UnloadShared = \<lambda>i. sim_drop ErrNotFound (RSecret i),
      Initiate = \<lambda>i ch R. (if i \<in> set bad then Some ErrAuthFailed else None, insert (RSA i) R),
      TerminateIKE = \<lambda>i. sim_drop ErrNotFound (RSA i), TerminateIKEByID = \<lambda>i R. (None, R), TerminateChild = \<lambda>i R. (None, R),
      ListSAs = \<lambda>i R. Inr []\<rparr>"

definition sim_ccfg :: ClientConfig where
  "sim_ccfg = \<lparr>ccName = [], ccLocalID = ''c1'', ccPSK = ''0123456789abcdef'', ccVirtualIP = Addr4 1, ccLocalAddr = NoAddr, ccFullTunnel = True,
     ccControllers = [Addr4 9], ccTable = 0, ccDPDDelay = 0, ccIKEProposals = [], ccESPProposals = [], ccInterfacePrefix = [],
     ccUnderlay = [], ccPollInterval = 0, ccCleanupTimeout = 0\<rparr>"

definition sim_peer :: "string \<Rightarrow> u32 \<Rightarrow> Peer" where
  "sim_peer nm i = \<lparr>peName = nm, peAddr = Addr4 i, peID = ''gw'', peIfID = i, peEpoch = 1, pePrefixes = []\<rparr>"

definition sim_client :: Client where
  "sim_client = \<lparr>cfg = setDefaults sim_ccfg, peers = [], pending = [], ifIDs = [], active = [], closed = False, routes = [],
     bypass = [(Addr4 9, \<lparr>brRoute = \<lparr>rDst = hostPrefix (Addr4 9), rGw = NoAddr, rDev = ''eth0'', rSrc = NoAddr, rTable = 0\<rparr>, brOwned = True, brRefs = 1\<rparr>)]\<rparr>"

lemma sim_cfg_ok: "cfg_validate (setDefaults sim_ccfg)"
  by code_simp

lemma sim_new: "NewClient (sim_plane bad) sim_ccfg {} = (Inr sim_client, {RRoute (hostPrefix (Addr4 9), MainTable)})"
proof -
  have "ccFullTunnel (setDefaults sim_ccfg)" "ccControllers (setDefaults sim_ccfg) = [Addr4 9]" "ccTable (setDefaults sim_ccfg) = 0"
    by (simp_all add: setDefaults_def sim_ccfg_def)
  then show ?thesis using sim_cfg_ok
    by (simp add: NewClient_def Let_def acquireBypass_def underlayRoute_def isOurInterface_def sim_plane_def sim_make_def sim_client_def rkey_def
        route_table_def newRouteSet_def)
qed

lemma sim_peer_ok: "validatePeer (setDefaults sim_ccfg) (sim_peer ''a'' 5) = Some (connection (setDefaults sim_ccfg) (sim_peer ''a'' 5))"
    "validatePeer (setDefaults sim_ccfg) (sim_peer ''b'' 6) = Some (connection (setDefaults sim_ccfg) (sim_peer ''b'' 6))"
  by code_simp+

section \<open>Gateways keep apart\<close>

text \<open>A call that no other call interrupts is one of the interleavings.\<close>

lemma Add_steps:
  assumes "Add P ended p c n = (e, c', n')" "peName p \<noteq> []"
  shows "(cstep P)\<^sup>*\<^sup>* (c, js, n) (c', js, n')"
proof (cases "validatePeer (cfg c) p")
  case None
  then show ?thesis using assms(1) by (auto simp: Add_def)
next
  case (Some conn)
  show ?thesis
  proof (cases "add_begin p c")
    case (Inl x)
    then show ?thesis using assms(1) Some by (auto simp: Add_def)
  next
    case (Inr c1)
    let ?i = "ifaceName (ccInterfacePrefix (cfg c1)) (peIfID p)"
    obtain err us c2 n2 where b: "bringUp P ended p conn ?i c1 n = (err, us, c2, n2)" by (metis prod_cases4)
    obtain e' c3 where d: "add_end p conn ?i err c2 = (e', c3)" by fastforce
    obtain es where r: "rollback P (if e' = None then [] else us) c3 n2 = (es, c', n')"
      using assms(1) Some Inr b d by (cases e') (auto simp: Add_def Let_def split: prod.splits)
    have "cstep P (c, js, n) (c1, add_mset (JAdd p conn) js, n)" by (rule begin_add [OF Some assms(2) Inr])
    moreover have "cstep P (c1, add_mset (JAdd p conn) js, n) (c2, add_mset (JAdded p conn ?i err us) js, n2)" by (rule run_add [OF b])
    moreover have "cstep P (c2, add_mset (JAdded p conn ?i err us) js, n2) (c', js, n')" by (rule end_add [OF d r])
    ultimately show ?thesis by (meson converse_rtranclp_into_rtranclp rtranclp.rtrancl_refl)
  qed
qed



section \<open>A race and a gap\<close>

text \<open>
  A promotion that has looked up its gateway waits for the route lock while the gateway is removed. The
  parts in the order in which the locks let them run:
\<close>

definition race :: "Client \<times> resource set" where
  "race =
     (let P = sim_plane [] in
      case Add P False (sim_peer ''a'' 5) sim_client {RRoute (hostPrefix (Addr4 9), MainTable)} of (_, c1, n1) \<Rightarrow>
      case promote_begin ''a'' [] c1 of Inl _ \<Rightarrow> (c1, n1) | Inr want \<Rightarrow>
      case remove_begin ''a'' c1 of Inl _ \<Rightarrow> (c1, n1) | Inr (p, c2) \<Rightarrow>
      case promote_end P ''a'' want c2 n1 of (_, c3, n2) \<Rightarrow>
      case tearDown P p c3 n2 of (_, c4, n3) \<Rightarrow> (remove_end ''a'' p c4, n3))"

text \<open>
  The guard of \<^verbatim>\<open>Remove\<close>, that the active gateway cannot be removed, can be overtaken: calls to promote and to
  remove a gateway can interleave so that both succeed, and the client then has it as its active gateway
  with routes to its interface while neither the gateway nor the interface exist. (C38)
\<close>

theorem promote_remove_race:
  "(cstep (sim_plane []))\<^sup>*\<^sup>* (sim_client, {#}, {RRoute (hostPrefix (Addr4 9), MainTable)}) (fst race, {#}, snd race)
    \<and> active (fst race) = ''a'' \<and> mget (peers (fst race)) ''a'' = None
    \<and> map rDev (Routes (fst race)) = [''egx5'', ''egx5''] \<and> RLink ''egx5'' \<notin> snd race"
proof -
  let ?P = "sim_plane []" and ?R = "{RRoute (hostPrefix (Addr4 9), MainTable)}"
  obtain e1 c1 n1 where a: "Add ?P False (sim_peer ''a'' 5) sim_client ?R = (e1, c1, n1)" by (metis prod_cases3)
  have "case promote_begin ''a'' [] (fst (snd (Add ?P False (sim_peer ''a'' 5) sim_client ?R))) of Inl _ \<Rightarrow> False | Inr _ \<Rightarrow> True" by code_simp
  then obtain want where w: "promote_begin ''a'' [] c1 = Inr want" using a by (auto split: sum.splits)
  have "case remove_begin ''a'' (fst (snd (Add ?P False (sim_peer ''a'' 5) sim_client ?R))) of Inl _ \<Rightarrow> False | Inr _ \<Rightarrow> True" by code_simp
  then obtain p c2 where r: "remove_begin ''a'' c1 = Inr (p, c2)" using a by (auto split: sum.splits)
  obtain e2 c3 n2 where pe: "promote_end ?P ''a'' want c2 n1 = (e2, c3, n2)" by (metis prod_cases3)
  obtain e3 c4 n3 where t: "tearDown ?P p c3 n2 = (e3, c4, n3)" by (metis prod_cases3)
  have rc: "race = (remove_end ''a'' p c4, n3)" by (simp add: race_def Let_def a w r pe t)
  have "(cstep ?P)\<^sup>*\<^sup>* (sim_client, {#}, ?R) (c1, {#}, n1)" by (rule Add_steps [OF a]) (simp add: sim_peer_def)
  moreover have "cstep ?P (c1, {#}, n1) (c1, {#JPromote ''a'' want#}, n1)" by (rule begin_promote [OF w])
  moreover have "cstep ?P (c1, {#JPromote ''a'' want#}, n1) (c2, {#JRemove ''a'' p, JPromote ''a'' want#}, n1)" by (rule begin_remove [OF r])
  moreover have "cstep ?P (c2, {#JRemove ''a'' p, JPromote ''a'' want#}, n1) (c3, {#JRemove ''a'' p#}, n2)"
    using end_promote [OF pe, of "{#JRemove ''a'' p#}"] by (simp add: add_mset_commute)
  moreover have "cstep ?P (c3, {#JRemove ''a'' p#}, n2) (remove_end ''a'' p c4, {#}, n3)" by (rule end_remove [OF t])
  ultimately have "(cstep ?P)\<^sup>*\<^sup>* (sim_client, {#}, ?R) (fst race, {#}, snd race)"
    unfolding rc fst_conv snd_conv by (meson rtranclp.rtrancl_into_rtrancl)
  moreover have "active (fst race) = ''a''" by code_simp
  moreover have "mget (peers (fst race)) ''a'' = None" by code_simp
  moreover have "map rDev (Routes (fst race)) = [''egx5'', ''egx5'']" by code_simp
  moreover have "RLink ''egx5'' \<notin> snd race" by code_simp
  ultimately show ?thesis by blast
qed

text \<open>
  A gateway with an empty name is accepted, and its interface identifier counts as free: a second gateway
  with the same identifier is not refused.
\<close>

lemma empty_name_not_reserved:
  "fst (Add (sim_plane []) False (sim_peer [] 5) sim_client {}) = None
    \<and> (case add_begin (sim_peer ''b'' 5) (fst (snd (Add (sim_plane []) False (sim_peer [] 5) sim_client {}))) of Inl _ \<Rightarrow> False | Inr _ \<Rightarrow> True)"
  by code_simp

end
