(* ===== verification/IPsecRollback.thy ===== *)
theory IPsecRollback
  imports IPsecClientProps
begin

text \<open>
  What a failed call of \<^verbatim>\<open>internal/ipsec/client.go\<close> leaves behind: \<^verbatim>\<open>Add\<close> is all or nothing on the kernel, on the
  daemon and in the client; and what \<^verbatim>\<open>fenceBelow\<close> ends.
\<close>

section \<open>Adding is all or nothing\<close>

text \<open>
  What is relied on of the kernel and the daemon, for what \<open>res\<close> reads of them: creating something that works
  adds it and one that fails changes nothing, except that a failed initiate may leave an association;
  removing something that works, or that finds nothing, leaves it gone.
\<close>

definition creates :: "('n \<Rightarrow> resource set) \<Rightarrow> resource \<Rightarrow> ('n \<Rightarrow> 'e option \<times> 'n) \<Rightarrow> bool" where
  "creates res x f \<longleftrightarrow> (\<forall>n e n'. f n = (e, n') \<longrightarrow> res n' = (if e = None then insert x (res n) else res n))"

definition removes :: "('n \<Rightarrow> resource set) \<Rightarrow> resource \<Rightarrow> ('e option \<Rightarrow> 'e option) \<Rightarrow> ('n \<Rightarrow> 'e option \<times> 'n) \<Rightarrow> bool" where
  "removes res x ignore f \<longleftrightarrow> (\<forall>n e n'. f n = (e, n') \<longrightarrow> ignore e = None \<longrightarrow> res n' = res n - {x})"

definition plane_res :: "'n plane \<Rightarrow> ('n \<Rightarrow> resource set) \<Rightarrow> bool" where
  "plane_res P res \<longleftrightarrow>
     (\<forall>l i u. creates res (RLink l) (AddXfrmInterface P l i u)) \<and> (\<forall>l i u n n'. AddXfrmInterface P l i u n = (None, n') \<longrightarrow> RLink l \<notin> res n)
     \<and> (\<forall>l. removes res (RLink l) ignoreNotExist (DeleteLink P l))
     \<and> (\<forall>l a n. res (snd (AddAddr P l a n)) = res n) \<and> (\<forall>l n. res (snd (SetLinkUp P l n)) = res n)
     \<and> (\<forall>r. creates res (RRoute (rkey r)) (RouteAdd P r)) \<and> (\<forall>r n n'. RouteAdd P r n = (None, n') \<longrightarrow> RRoute (rkey r) \<notin> res n)
     \<and> (\<forall>r. removes res (RRoute (rkey r)) ignoreNotExist (RouteDel (routing P) r))
     \<and> (\<forall>s. creates res (RSecret (ssID s)) (LoadShared P s)) \<and> (\<forall>i. removes res (RSecret i) ignoreNotFound (UnloadShared P i))
     \<and> (\<forall>c. creates res (RConn (cName c)) (LoadConn P c)) \<and> (\<forall>i. removes res (RConn i) ignoreNotFound (UnloadConn P i))
     \<and> (\<forall>i ch n. res n \<subseteq> res (snd (Initiate P i ch n)) \<and> res (snd (Initiate P i ch n)) \<subseteq> insert (RSA i) (res n))
     \<and> (\<forall>i. removes res (RSA i) ignoreNotFound (TerminateIKE P i))"

text \<open>Undoing leads back to given bypass routes and resources, if no step of it fails.\<close>

definition reverts :: "'n plane \<Rightarrow> ('n \<Rightarrow> resource set) \<Rightarrow> undo list \<Rightarrow> (Addr, bypassRoute) gomap \<Rightarrow> resource set \<Rightarrow> (Addr, bypassRoute) gomap \<Rightarrow> resource set \<Rightarrow> bool" where
  "reverts P res us b R b0 R0 \<longleftrightarrow> (\<forall>c n c' n'. bypass c = b \<and> res n = R \<and> rollback P us c n = ([], c', n') \<longrightarrow> bypass c' = b0 \<and> res n' = R0)"

lemma revertsD:
  "reverts P res us b R b0 R0 \<Longrightarrow> bypass c = b \<Longrightarrow> res n = R \<Longrightarrow> rollback P us c n = ([], c', n') \<Longrightarrow> bypass c' = b0 \<and> res n' = R0"
  unfolding reverts_def by blast

lemma reverts_Nil: "reverts P res [] b R b R"
  by (simp add: reverts_def)

lemma reverts_Cons:
  assumes "reverts P res us b R b0 R0"
    and "\<And>c n c' n'. bypass c = b' \<Longrightarrow> res n = R' \<Longrightarrow> undo_step P u c n = (None, c', n') \<Longrightarrow> bypass c' = b \<and> res n' = R"
  shows "reverts P res (u # us) b' R' b0 R0"
  unfolding reverts_def
proof (intro allI impI, elim conjE)
  fix c n c' n' assume a: "bypass c = b'" "res n = R'" "rollback P (u # us) c n = ([], c', n')"
  obtain e c1 n1 where u: "undo_step P u c n = (e, c1, n1)" by (metis prod_cases3)
  have e: "e = None" "rollback P us c1 n1 = ([], c', n')" using a(3) u by (auto split: prod.splits option.splits)
  with assms(2) [OF a(1,2)] u have "bypass c1 = b \<and> res n1 = R" by blast
  then show "bypass c' = b0 \<and> res n' = R0" using assms(1) e(2) unfolding reverts_def by blast
qed

lemma reverts_link:
  assumes "plane_res P res" "reverts P res us b R b0 R0" "RLink l \<notin> R"
  shows "reverts P res (UDeleteLink l # us) b (insert (RLink l) R) b0 R0"
proof (rule reverts_Cons [OF assms(2)])
  fix c n c' n' assume "bypass c = b" "res n = insert (RLink l) R" "undo_step P (UDeleteLink l) c n = (None, c', n')"
  moreover have "removes res (RLink l) ignoreNotExist (DeleteLink P l)" using assms(1) by (simp add: plane_res_def)
  ultimately show "bypass c' = b \<and> res n' = R" using assms(3)
    by (auto simp: undo_step_def net_err_def removes_def split: prod.splits)
qed

lemma reverts_secret:
  assumes "plane_res P res" "reverts P res us b R b0 R0" "RSecret i \<notin> R"
  shows "reverts P res (UUnloadShared i # us) b (insert (RSecret i) R) b0 R0"
proof (rule reverts_Cons [OF assms(2)])
  fix c n c' n' assume "bypass c = b" "res n = insert (RSecret i) R" "undo_step P (UUnloadShared i) c n = (None, c', n')"
  moreover have "removes res (RSecret i) ignoreNotFound (UnloadShared P i)" using assms(1) by (simp add: plane_res_def)
  ultimately show "bypass c' = b \<and> res n' = R" using assms(3)
    by (auto simp: undo_step_def ike_err_def removes_def split: prod.splits)
qed

lemma reverts_conn:
  assumes "plane_res P res" "reverts P res us b R b0 R0" "RConn i \<notin> R"
  shows "reverts P res (UUnloadConn i # us) b (insert (RConn i) R) b0 R0"
proof (rule reverts_Cons [OF assms(2)])
  fix c n c' n' assume "bypass c = b" "res n = insert (RConn i) R" "undo_step P (UUnloadConn i) c n = (None, c', n')"
  moreover have "removes res (RConn i) ignoreNotFound (UnloadConn P i)" using assms(1) by (simp add: plane_res_def)
  ultimately show "bypass c' = b \<and> res n' = R" using assms(3)
    by (auto simp: undo_step_def ike_err_def removes_def split: prod.splits)
qed

lemma reverts_sa:
  assumes "plane_res P res" "reverts P res us b R b0 R0" "RSA i \<notin> R" "R \<subseteq> R'" "R' \<subseteq> insert (RSA i) R"
  shows "reverts P res (UTerminateIKE i # us) b R' b0 R0"
proof (rule reverts_Cons [OF assms(2)])
  fix c n c' n' assume "bypass c = b" "res n = R'" "undo_step P (UTerminateIKE i) c n = (None, c', n')"
  moreover have "removes res (RSA i) ignoreNotFound (TerminateIKE P i)" using assms(1) by (simp add: plane_res_def)
  ultimately have "bypass c' = b \<and> res n' = R' - {RSA i}"
    by (auto simp: undo_step_def ike_err_def removes_def split: prod.splits)
  then show "bypass c' = b \<and> res n' = R" using assms(3-5) by auto
qed

lemma mput_back: "mget m k = Some v \<Longrightarrow> mput k v (mput k v' m) = m"
  by (induction m) auto

lemma mdel_mput_new: "mget m k = None \<Longrightarrow> mdel k (mput k v m) = m"
  by (simp add: mput_new mget_None_iff AList.delete_eq) (force simp: filter_id_conv)

lemma createsD: "creates res x f \<Longrightarrow> f n = (e, n') \<Longrightarrow> res n' = (if e = None then insert x (res n) else res n)"
  unfolding creates_def by blast

lemma plane_resD:
  assumes "plane_res P res"
  shows "AddXfrmInterface P l i u n = (e, n') \<Longrightarrow> res n' = (if e = None then insert (RLink l) (res n) else res n) \<and> (e = None \<longrightarrow> RLink l \<notin> res n)"
    and "AddAddr P l a n = (e, n') \<Longrightarrow> res n' = res n"
    and "SetLinkUp P l n = (e, n') \<Longrightarrow> res n' = res n"
    and "RouteAdd P r n = (e, n') \<Longrightarrow> res n' = (if e = None then insert (RRoute (rkey r)) (res n) else res n) \<and> (e = None \<longrightarrow> RRoute (rkey r) \<notin> res n)"
    and "LoadShared P s n = (x, n') \<Longrightarrow> res n' = (if x = None then insert (RSecret (ssID s)) (res n) else res n)"
    and "LoadConn P cn n = (x, n') \<Longrightarrow> res n' = (if x = None then insert (RConn (cName cn)) (res n) else res n)"
    and "Initiate P j ch n = (x, n') \<Longrightarrow> res n \<subseteq> res n' \<and> res n' \<subseteq> insert (RSA j) (res n)"
proof -
  have c: "creates res (RLink l) (AddXfrmInterface P l i u)" "creates res (RRoute (rkey r)) (RouteAdd P r)"
    "creates res (RSecret (ssID s)) (LoadShared P s)" "creates res (RConn (cName cn)) (LoadConn P cn)"
    using assms by (simp_all add: plane_res_def)
  note h = conjunct1 [OF conjunct2 [OF assms [unfolded plane_res_def]]]
    conjunct1 [OF conjunct2 [OF conjunct2 [OF conjunct2 [OF conjunct2 [OF conjunct2 [OF conjunct2 [OF assms [unfolded plane_res_def]]]]]]]]
  have f: "AddXfrmInterface P l i u n = (None, n') \<Longrightarrow> RLink l \<notin> res n" "RouteAdd P r n = (None, n') \<Longrightarrow> RRoute (rkey r) \<notin> res n"
    by (erule h(1) [rule_format], erule h(2) [rule_format])
  have g: "res (snd (AddAddr P l a n)) = res n" "res (snd (SetLinkUp P l n)) = res n"
    "res n \<subseteq> res (snd (Initiate P j ch n))" "res (snd (Initiate P j ch n)) \<subseteq> insert (RSA j) (res n)"
    using assms by (simp_all add: plane_res_def)
  show "AddXfrmInterface P l i u n = (e, n') \<Longrightarrow> res n' = (if e = None then insert (RLink l) (res n) else res n) \<and> (e = None \<longrightarrow> RLink l \<notin> res n)"
    using createsD [OF c(1), of n e n'] f(1) by auto
  show "RouteAdd P r n = (e, n') \<Longrightarrow> res n' = (if e = None then insert (RRoute (rkey r)) (res n) else res n) \<and> (e = None \<longrightarrow> RRoute (rkey r) \<notin> res n)"
    using createsD [OF c(2), of n e n'] f(2) by auto
  show "AddAddr P l a n = (e, n') \<Longrightarrow> res n' = res n" "SetLinkUp P l n = (e, n') \<Longrightarrow> res n' = res n" using g(1,2) by simp_all
  show "LoadShared P s n = (x, n') \<Longrightarrow> res n' = (if x = None then insert (RSecret (ssID s)) (res n) else res n)" by (rule createsD [OF c(3)])
  show "LoadConn P cn n = (x, n') \<Longrightarrow> res n' = (if x = None then insert (RConn (cName cn)) (res n) else res n)" by (rule createsD [OF c(4)])
  show "Initiate P j ch n = (x, n') \<Longrightarrow> res n \<subseteq> res n' \<and> res n' \<subseteq> insert (RSA j) (res n)" using g(3,4) by simp
qed

lemma acquire_fails:
  assumes "plane_res P res" "acquireBypass P a c n = (Some e, c', n')"
  shows "bypass c' = bypass c" "res n' = res n"
  using assms(2) plane_resD(4) [OF assms(1)] by (auto simp: acquireBypass_def split: option.splits prod.splits if_splits)

lemma reverts_bypass:
  assumes P: "plane_res P res" and r: "reverts P res us (bypass c) (res n) b0 R0" and pos: "bypass_pos (bypass c)"
    and a: "acquireBypass P a c n = (None, c', n')"
  shows "reverts P res (UReleaseBypass a # us) (bypass c') (res n') b0 R0"
proof (rule reverts_Cons [OF r])
  fix d m d' m' assume d: "bypass d = bypass c'" "res m = res n'" "undo_step P (UReleaseBypass a) d m = (None, d', m')"
  have rel: "releaseBypass P a d m = (None, d', m')" using d(3) by (auto simp: undo_step_def net_err_def split: prod.splits)
  show "bypass d' = bypass c \<and> res m' = res n"
  proof (cases "mget (bypass c) a")
    case (Some b)
    have c': "c' = c\<lparr>bypass := mput a (b\<lparr>brRefs := brRefs b + 1\<rparr>) (bypass c)\<rparr>" "n' = n" using a Some by (auto simp: acquireBypass_def)
    have "0 < brRefs b" by (rule bypass_posD [OF Some pos])
    then have "d' = d\<lparr>bypass := mput a b (bypass c')\<rparr>" "m' = m" using rel d(1) c'(1) by (auto simp: releaseBypass_def)
    then show ?thesis using d(2) c' mput_back [OF Some] by simp
  next
    case None
    obtain rt e where rt: "RouteAdd P rt n = (e, n')" "e = None \<or> e = Some ErrExist"
        "c' = c\<lparr>bypass := mput a \<lparr>brRoute = rt, brOwned = (e = None), brRefs = 1\<rparr> (bypass c)\<rparr>"
      using a None by (auto simp: acquireBypass_def split: option.splits prod.splits if_splits)
    have n': "res n' = (if e = None then insert (RRoute (rkey rt)) (res n) else res n)" "e = None \<Longrightarrow> RRoute (rkey rt) \<notin> res n"
      using plane_resD(4) [OF P rt(1)] by simp_all
    have b: "bypass d' = bypass c"
      using rel d(1) rt(3) mdel_mput_new [OF None] by (auto simp: releaseBypass_def Let_def split: if_splits prod.splits)
    moreover have "res m' = res n"
    proof (cases "e = None")
      case True
      then obtain x where x: "RouteDel (routing P) rt m = (x, m')" "ignoreNotExist x = None"
        using rel d(1) rt(3) by (auto simp: releaseBypass_def Let_def split: prod.splits)
      have "removes res (RRoute (rkey rt)) ignoreNotExist (RouteDel (routing P) rt)" using P by (simp add: plane_res_def)
      then have "res m' = res m - {RRoute (rkey rt)}" using x unfolding removes_def by blast
      then show ?thesis using d(2) n' True by simp
    next
      case False
      then show ?thesis using rel d(1,2) rt(3) n'(1) by (auto simp: releaseBypass_def Let_def)
    qed
    ultimately show ?thesis by blast
  qed
qed

text \<open>Whatever step of \<^verbatim>\<open>bringUp\<close> failed, or none, the recorded actions undo what was done.\<close>

lemma bringUp_reverts:
  assumes P: "plane_res P res" and pos: "bypass_pos (bypass c)" and b: "bringUp P ended p conn iface c n = (err, us, c', n')"
    and fresh: "RSecret (cName conn) \<notin> res n" "RConn (cName conn) \<notin> res n" "RSA (cName conn) \<notin> res n"
  shows "reverts P res us (bypass c') (res n') (bypass c) (res n)"
proof -
  let ?rev = "\<lambda>us c' n'. reverts P res us (bypass c') (res n') (bypass c) (res n)"
  obtain e1 n1 where s1: "AddXfrmInterface P iface (peIfID p) (ccUnderlay (cfg c)) n = (e1, n1)" by fastforce
  obtain e2 n2 where s2: "AddAddr P iface (hostPrefix (ccVirtualIP (cfg c))) n1 = (e2, n2)" by fastforce
  obtain e3 n3 where s3: "SetLinkUp P iface n2 = (e3, n3)" by fastforce
  obtain e4 c4 n4 where s4: "(if ccFullTunnel (cfg c) then acquireBypass P (peAddr p) c n3 else (None, c, n3)) = (e4, c4, n4)" by (metis prod_cases3)
  have c4: "cfg c4 = cfg c" using s4 by (auto split: if_splits dest: acquire_quiet quietD(1))
  let ?us4 = "if ccFullTunnel (cfg c) then [UReleaseBypass (peAddr p), UDeleteLink iface] else [UDeleteLink iface]"
  obtain e5 n5 where s5: "LoadShared P \<lparr>ssID = cName conn, ssPSK = cPSK conn, ssOwners = [cLocalID conn, cRemoteID conn]\<rparr> n4 = (e5, n5)" by fastforce
  obtain e6 n6 where s6: "LoadConn P conn n5 = (e6, n6)" by fastforce
  obtain e7 n7 where s7: "Initiate P (cName conn) (ChildName (cName conn) (cEpoch conn)) n6 = (e7, n7)" by fastforce
  note r1 = plane_resD(1) [OF P s1] and r2 = plane_resD(2) [OF P s2] and r3 = plane_resD(3) [OF P s3]
  note r5 = plane_resD(5) [OF P s5] and r6 = plane_resD(6) [OF P s6] and r7 = plane_resD(7) [OF P s7]
  have b': "bringUp P ended p conn iface c n =
    (if e1 \<noteq> None then (map_option ENet e1, [], c, n1) else if e2 \<noteq> None then (map_option ENet e2, [UDeleteLink iface], c, n2)
     else if e3 \<noteq> None then (map_option ENet e3, [UDeleteLink iface], c, n3) else if e4 \<noteq> None then (map_option ENet e4, [UDeleteLink iface], c4, n4)
     else if e5 \<noteq> None then (map_option EIke e5, ?us4, c4, n5) else if e6 \<noteq> None then (map_option EIke e6, UUnloadShared (cName conn) # ?us4, c4, n6)
     else let us = UTerminateIKE (cName conn) # UUnloadConn (cName conn) # UUnloadShared (cName conn) # ?us4 in
       if ended then (Some ECtx, us, c4, n6) else (map_option EIke e7, us, c4, n7))"
    unfolding bringUp_def Let_def s1 using s2 s3 s4 s5 s6 s7 c4 by (auto simp: ike_err_def split: option.splits if_splits)
  show ?thesis
  proof (cases "e1 = None")
    case False
    then show ?thesis using b b' r1 reverts_Nil by (auto split: if_splits)
  next
    case e1: True
    have v1: "?rev [UDeleteLink iface] c n1" using reverts_link [OF P reverts_Nil] r1 e1 by simp
    then have v3: "?rev [UDeleteLink iface] c n2" "?rev [UDeleteLink iface] c n3" using r2 r3 by simp_all
    show ?thesis
    proof (cases "e2 = None \<and> e3 = None \<and> e4 = None")
      case False
      have "?rev [UDeleteLink iface] c4 n4" if "e4 \<noteq> None"
        using that s4 v3(2) acquire_fails [OF P] by (auto split: if_splits)
      then show ?thesis using b b' e1 v3 False by (auto split: if_splits)
    next
      case e4: True
      have v4: "?rev ?us4 c4 n4" using s4 e4 v3(2) reverts_bypass [OF P v3(2) pos] by (auto split: if_splits)
      have in4: "x \<in> res n4 \<Longrightarrow> x \<notin> res n \<Longrightarrow> (\<exists>l. x = RLink l) \<or> (\<exists>k. x = RRoute k)" for x
        using s4 e4 r1 r2 r3 plane_resD(4) [OF P] by (auto simp: acquireBypass_def split: if_splits option.splits prod.splits)
      have f4: "RSecret (cName conn) \<notin> res n4" "RConn (cName conn) \<notin> res n4" "RSA (cName conn) \<notin> res n4" using in4 fresh by blast+
      have v5: "?rev (UUnloadShared (cName conn) # ?us4) c4 n5" if "e5 = None" using reverts_secret [OF P v4 f4(1)] r5 that by simp
      have v6: "?rev (UUnloadConn (cName conn) # UUnloadShared (cName conn) # ?us4) c4 n6" if "e5 = None" "e6 = None"
        using reverts_conn [OF P v5 [OF that(1)]] r5 r6 that f4 by simp
      have f6: "RSA (cName conn) \<notin> res n6" using r5 r6 f4 by (auto split: if_splits)
      have v7: "?rev (UTerminateIKE (cName conn) # UUnloadConn (cName conn) # UUnloadShared (cName conn) # ?us4) c4 m"
        if "e5 = None" "e6 = None" "m = n6 \<or> m = n7" for m
        using reverts_sa [OF P v6 [OF that(1,2)] f6, of "res m"] r7 that(3) by auto
      have w5: "?rev ?us4 c4 n5" if "e5 \<noteq> None" using v4 r5 that by simp
      have w6: "?rev (UUnloadShared (cName conn) # ?us4) c4 n6" if "e5 = None" "e6 \<noteq> None" using v5 r6 that by simp
      note v7n = v7 [of n6, simplified] v7 [of n7, simplified]
      show ?thesis using b b' e1 e4 w5 w6 v7n by (auto simp: Let_def split: if_splits)
    qed
  qed
qed

lemma Add_fails:
  assumes "Add P ended p c n = (Some e, c', n')" "validatePeer (cfg c) p = Some conn" "add_begin p c = Inr c1"
  obtains err us c2 n2 es where "bringUp P ended p conn (ifaceName (ccInterfacePrefix (cfg c1)) (peIfID p)) c1 n = (err, us, c2, n2)"
    "rollback P us (c2\<lparr>pending := mdel (peName p) (pending c2), ifIDs := mdel (peIfID p) (ifIDs c2)\<rparr>) n2 = (es, c', n')"
    "es = [] \<or> (\<exists>x. e = ERollback x es)"
proof -
  obtain err us c2 n2 where b: "bringUp P ended p conn (ifaceName (ccInterfacePrefix (cfg c1)) (peIfID p)) c1 n = (err, us, c2, n2)"
    by (metis prod_cases4)
  let ?i = "ifaceName (ccInterfacePrefix (cfg c1)) (peIfID p)"
  obtain e' c3 where d: "add_end p conn ?i err c2 = (e', c3)" by fastforce
  have "e' \<noteq> None" using assms b d by (cases e') (simp_all add: Add_def Let_def)
  then obtain x where x: "e' = Some x" by blast
  have c3: "c3 = c2\<lparr>pending := mdel (peName p) (pending c2), ifIDs := mdel (peIfID p) (ifIDs c2)\<rparr>"
    using d x by (auto simp: add_end_def Let_def split: option.splits if_splits)
  obtain es c4 n4 where r: "rollback P us c3 n2 = (es, c4, n4)" by (metis prod_cases3)
  have "e = (if es = [] then x else ERollback x es)" "c4 = c'" "n4 = n'" using assms b d x r by (auto simp: Add_def Let_def)
  then show ?thesis using that [OF b] r c3 by simp
qed


section \<open>Fencing\<close>

lemma stale_iff: "conn \<noteq> [] \<Longrightarrow> stale conn ep ch \<longleftrightarrow> (\<exists>e. e < ep \<and> chName ch = ChildName conn e)"
proof
  assume "stale conn ep ch"
  then show "\<exists>e. e < ep \<and> chName ch = ChildName conn e"
    by (auto simp: stale_def not_le split: option.splits dest!: ParseChildName_only)
qed (auto simp: stale_def ParseChildName_ChildName not_le)

text \<open>What is relied on of the daemon: ending a child association that works, or that finds none, leaves the others.\<close>

definition ends_children :: "'n plane \<Rightarrow> ('n \<Rightarrow> u64 set) \<Rightarrow> bool" where
  "ends_children P live \<longleftrightarrow> (\<forall>i n e n'. TerminateChild P i n = (e, n') \<longrightarrow> live n' = (if ignoreNotFound e = None then live n - {i} else live n))"

lemma terminate_children_live:
  "ends_children P live \<Longrightarrow> terminate_children P chs n = (es, n')
    \<Longrightarrow> live n - set (map chUniqueID chs) \<subseteq> live n' \<and> live n' \<subseteq> live n \<and> (es = [] \<longrightarrow> live n' = live n - set (map chUniqueID chs))"
proof (induction chs arbitrary: n es)
  case (Cons ch chs)
  obtain e n1 where t: "TerminateChild P (chUniqueID ch) n = (e, n1)" by fastforce
  obtain es1 where r: "terminate_children P chs n1 = (es1, n')" "es = (case ignoreNotFound e of None \<Rightarrow> es1 | Some e \<Rightarrow> e # es1)"
    using Cons.prems(2) t by (auto split: prod.splits)
  have l: "live n1 = (if ignoreNotFound e = None then live n - {chUniqueID ch} else live n)"
    using Cons.prems(1) t unfolding ends_children_def by blast
  show ?case using Cons.IH [OF Cons.prems(1) r(1)] l r(2) by (auto split: if_splits option.splits)
qed simp

text \<open>
  Fencing ends exactly the older generations of one gateway: of the child associations the daemon reports
  for the connection, those named for an epoch below the given one, and no other, whatever fails; when it
  reports no error all of them are gone. (C37)
\<close>

theorem fence_ends_older_children:
  assumes "ends_children P live" and "conn \<noteq> []" and "ListSAs P conn n = Inr sas" and "fenceBelow P conn ep n = (es, n')"
  shows "let old = {chUniqueID ch | ch sa e. sa \<in> set sas \<and> ch \<in> set (ikChildren sa) \<and> e < ep \<and> chName ch = ChildName conn e} in
    live n - old \<subseteq> live n' \<and> live n' \<subseteq> live n \<and> (es = [] \<longrightarrow> live n' = live n - old)"
proof -
  let ?chs = "filter (stale conn ep) (concat (map ikChildren sas))"
  have t: "terminate_children P ?chs n = (es, n')" using assms(3,4) by (simp add: fenceBelow_def)
  have "set (map chUniqueID ?chs) = {chUniqueID ch | ch sa e. sa \<in> set sas \<and> ch \<in> set (ikChildren sa) \<and> e < ep \<and> chName ch = ChildName conn e}"
    using stale_iff [OF assms(2)] by auto
  then show ?thesis using terminate_children_live [OF assms(1) t] unfolding Let_def by metis
qed

lemma sim_plane_res: "plane_res (sim_plane bad) id"
  unfolding plane_res_def
  by (auto simp: sim_plane_def sim_make_def sim_drop_def creates_def removes_def ignoreNotExist_def ignoreNotFound_def split: if_splits)


text \<open>A daemon with the child associations as its state.\<close>

definition sim_children :: "(ChildSA list) plane" where
  "sim_children =
     \<lparr>routing = \<lparr>RouteReplace = \<lambda>r n. (None, n), RouteDel = \<lambda>r n. (None, n)\<rparr>,
      AddXfrmInterface = \<lambda>l i u n. (None, n), DeleteLink = \<lambda>l n. (None, n), AddAddr = \<lambda>l a n. (None, n), SetLinkUp = \<lambda>l n. (None, n),
      RouteAdd = \<lambda>r n. (None, n), RouteGet = \<lambda>a n. None, DefaultRoute = \<lambda>f n. None, RuleAdd = \<lambda>r n. (None, n), RuleDel = \<lambda>r n. (None, n),
      LoadConn = \<lambda>c n. (None, n), UnloadConn = \<lambda>i n. (None, n), LoadShared = \<lambda>s n. (None, n), UnloadShared = \<lambda>i n. (None, n),
      Initiate = \<lambda>i ch n. (None, n), TerminateIKE = \<lambda>i n. (None, n), TerminateIKEByID = \<lambda>i n. (None, n),
      TerminateChild = \<lambda>i n. (None, filter (\<lambda>ch. chUniqueID ch \<noteq> i) n),
      ListSAs = \<lambda>i n. Inr [\<lparr>ikName = i, ikUniqueID = 1, ikState = IKEStateEstablished, ikRemoteID = [], ikChildren = n\<rparr>]\<rparr>"

definition sim_child :: "u64 \<Rightarrow> u64 \<Rightarrow> ChildSA" where
  "sim_child i ep = \<lparr>chName = ChildName ''gw'' ep, chUniqueID = i, chState = ChildStateInstalled, chSPIIn = [], chIfIDIn = 1\<rparr>"

lemma sim_ends: "ends_children sim_children (\<lambda>n. chUniqueID ` set n)"
  by (auto simp: ends_children_def sim_children_def ignoreNotFound_def)

lemma fence_ends_older_children_witness:
  "case fenceBelow sim_children ''gw'' 8 [sim_child 1 7, sim_child 2 8] of (es, n) \<Rightarrow> es = [] \<and> 1 \<notin> chUniqueID ` set n \<and> 2 \<in> chUniqueID ` set n"
proof -
  let ?n = "[sim_child 1 7, sim_child 2 8]"
  obtain es n where f: "fenceBelow sim_children ''gw'' 8 ?n = (es, n)" by fastforce
  have "fst (fenceBelow sim_children ''gw'' 8 ?n) = []" by (simp add: fenceBelow_def sim_children_def ignoreNotFound_def)
  then have es: "es = []" using f by simp
  have l: "ListSAs sim_children ''gw'' ?n = Inr [\<lparr>ikName = ''gw'', ikUniqueID = 1, ikState = IKEStateEstablished, ikRemoteID = [], ikChildren = ?n\<rparr>]"
    by (simp add: sim_children_def)
  have inj: "ChildName ''gw'' a = ChildName ''gw'' b \<longleftrightarrow> a = b" for a b by (simp add: ChildName_def FormatUint_inject)
  let ?sas = "[\<lparr>ikName = ''gw'', ikUniqueID = 1, ikState = IKEStateEstablished, ikRemoteID = [], ikChildren = ?n\<rparr>]"
  let ?old = "{chUniqueID ch | ch sa e. sa \<in> set ?sas \<and> ch \<in> set (ikChildren sa) \<and> e < (8 :: u64) \<and> chName ch = ChildName ''gw'' e}"
  have "chUniqueID ` set n = chUniqueID ` set ?n - ?old" using fence_ends_older_children [OF sim_ends _ l f] es by (simp add: Let_def)
  moreover have "1 \<in> ?old" by (intro CollectI exI [of _ "sim_child 1 7"] exI [of _ "hd ?sas"] exI [of _ 7]) (simp add: sim_child_def)
  moreover have "2 \<notin> ?old" using inj by (auto simp: sim_child_def)
  ultimately show ?thesis using es f by (simp add: sim_child_def)
qed

end
