(* ===== verification/IPsecGateway.thy ===== *)
theory IPsecGateway
  imports IPsecClient
begin

text \<open>
  \<^verbatim>\<open>internal/ipsec/gateway.go\<close>: the gateway side of the IPsec data plane. One responder connection takes every
  client on one XFRM interface; each backbone peer has a connection and an interface of its own. The kernel
  and the daemon are the parameter of \<^verbatim>\<open>IPsecClient\<close>. \<^verbatim>\<open>Start\<close>, \<^verbatim>\<open>AddBackbone\<close>, \<^verbatim>\<open>Uplink\<close>, \<^verbatim>\<open>RemoveBackbone\<close> and \<^verbatim>\<open>Close\<close>
  are one definition for each part between the locks.
\<close>

section \<open>Configuration\<close>

record GatewayConfig =
  gcName :: string
  gcLocalID :: string
  gcBackboneID :: string
  gcLocalAddr :: Addr
  gcClientPSK :: string
  gcBackbonePSK :: string
  gcClientSubnet :: Prefix
  gcServed :: "Prefix list"
  gcInnerAddr :: Addr
  gcClientIfID :: u32
  gcTable :: int
  gcRulePriority :: int
  gcDPDDelay :: duration
  gcIKEProposals :: "string list"
  gcESPProposals :: "string list"
  gcInterfacePrefix :: string
  gcPollInterval :: duration
  gcCleanupTimeout :: duration

definition DefaultGatewayInterfacePrefix :: string where "DefaultGatewayInterfacePrefix = ''egw''"
definition DefaultRulePriority :: int where "DefaultRulePriority = 1000"

definition g_setDefaults :: "GatewayConfig \<Rightarrow> GatewayConfig" where
  "g_setDefaults cf = cf\<lparr>
     gcName := (if gcName cf = [] then ''egressa'' else gcName cf),
     gcBackboneID := (if gcBackboneID cf = [] \<and> gcLocalID cf \<noteq> [] then gcLocalID cf @ ''-bb'' else gcBackboneID cf),
     gcInterfacePrefix := (if gcInterfacePrefix cf = [] then DefaultGatewayInterfacePrefix else gcInterfacePrefix cf),
     gcRulePriority := (if gcRulePriority cf = 0 then DefaultRulePriority else gcRulePriority cf),
     gcPollInterval := (if gcPollInterval cf \<le> 0 then DefaultPollInterval else gcPollInterval cf),
     gcCleanupTimeout := (if gcCleanupTimeout cf \<le> 0 then DefaultCleanupTimeout else gcCleanupTimeout cf)\<rparr>"

definition cfg_family :: "GatewayConfig \<Rightarrow> Family" where
  "cfg_family cf = familyOf (pfxAddr (gcClientSubnet cf))"

definition g_validate :: "GatewayConfig \<Rightarrow> bool" where
  "g_validate cf \<longleftrightarrow>
     nameRE (gcName cf) \<and> idRE (gcLocalID cf) \<and> idRE (gcBackboneID cf) \<and> gcBackboneID cf \<noteq> gcLocalID cf
     \<and> checkAddr (gcLocalAddr cf) \<and> validatePSK (gcClientPSK cf) = None \<and> validatePSK (gcBackbonePSK cf) = None
     \<and> gcClientPSK cf \<noteq> gcBackbonePSK cf \<and> Prefix_IsValid (gcClientSubnet cf)
     \<and> checkPrefixes (cfg_family cf) (gcServed cf)
     \<and> (gcInnerAddr cf \<noteq> NoAddr \<longrightarrow> checkAddr (gcInnerAddr cf) \<and> familyOf (gcInnerAddr cf) = cfg_family cf)
     \<and> gcClientIfID cf \<noteq> 0 \<and> \<not> (gcTable cf < 0 \<or> gcRulePriority cf < 0) \<and> ifPrefixRE (gcInterfacePrefix cf)
     \<and> \<not> gcDPDDelay cf < 0"

section \<open>State\<close>

record BackbonePeer =
  bpName :: string
  bpID :: string
  bpAddr :: Addr
  bpIfID :: u32
  bpEpoch :: u64
  bpLocalTS :: "Prefix list"
  bpRemoteTS :: "Prefix list"

record backbonePeer =
  bbPeer :: BackbonePeer
  bbConn :: Connection
  bbIface :: string

record Gateway =
  gcfg :: GatewayConfig
  gstarted :: bool
  gclosed :: bool
  gbackbone :: "(string, backbonePeer) gomap"
  gpending :: "(string, bool) gomap"
  gpendingIDs :: "(string, bool) gomap"
  gifIDs :: "(u32, string) gomap"
  groutes :: routeSet
  guplink :: string
  gclientIface :: string
  gclientRoute :: Route
  grule :: "Rule option"

definition NewGateway :: "GatewayConfig \<Rightarrow> planeErr + Gateway" where
  "NewGateway cf =
     (let cf = g_setDefaults cf in
      if \<not> g_validate cf then Inl EInvalid
      else let iface = ifaceName (gcInterfacePrefix cf) (gcClientIfID cf) in
      Inr \<lparr>gcfg = cf, gstarted = False, gclosed = False, gbackbone = [], gpending = [], gpendingIDs = [],
           gifIDs = [(gcClientIfID cf, ''clients'')], groutes = newRouteSet, guplink = [], gclientIface = iface,
           gclientRoute = \<lparr>rDst = Masked (gcClientSubnet cf), rGw = NoAddr, rDev = iface, rSrc = NoAddr, rTable = 0\<rparr>, grule = None\<rparr>)"

definition ResponderName :: "GatewayConfig \<Rightarrow> string" where
  "ResponderName cf = gcName cf @ ''-clients''"

definition backboneName :: "GatewayConfig \<Rightarrow> string \<Rightarrow> string" where
  "backboneName cf nm = gcName cf @ ''-bb-'' @ nm"

definition peer_name :: "BackbonePeer \<Rightarrow> string" where
  "peer_name p = (if bpName p \<noteq> [] then bpName p else bpID p)"

definition responder :: "GatewayConfig \<Rightarrow> Connection" where
  "responder cf =
     \<lparr>cName = ResponderName cf, cEpoch = 0, cLocalAddr = gcLocalAddr cf, cRemoteAddr = NoAddr, cLocalID = gcLocalID cf,
      cRemoteID = AnyID, cAuth = AuthPSK, cPSK = gcClientPSK cf, cLocalPubkey = [], cRemotePubkey = [],
      cLocalTS = (if gcServed cf = [] then [allAddresses (cfg_family cf)] else gcServed cf),
      cRemoteTS = [Masked (gcClientSubnet cf)], cIfID = gcClientIfID cf, cIKEProposals = gcIKEProposals cf,
      cESPProposals = gcESPProposals cf, cDPDDelay = gcDPDDelay cf, cStart = StartNone\<rparr>"

section \<open>Starting\<close>

datatype gundo = GDeleteLink string | GRuleDel Rule | GUnloadShared string | GUnloadConn string | GTerminateIKE string

definition gundo_step :: "'n plane \<Rightarrow> gundo \<Rightarrow> 'n \<Rightarrow> planeErr option \<times> 'n" where
  "gundo_step P u n = (case u of
     GDeleteLink l \<Rightarrow> (case DeleteLink P l n of (e, n) \<Rightarrow> (net_err (ignoreNotExist e), n))
   | GRuleDel r \<Rightarrow> (case RuleDel P r n of (e, n) \<Rightarrow> (net_err (ignoreNotExist e), n))
   | GUnloadShared i \<Rightarrow> (case UnloadShared P i n of (e, n) \<Rightarrow> (ike_err (ignoreNotFound e), n))
   | GUnloadConn i \<Rightarrow> (case UnloadConn P i n of (e, n) \<Rightarrow> (ike_err (ignoreNotFound e), n))
   | GTerminateIKE i \<Rightarrow> (case TerminateIKE P i n of (e, n) \<Rightarrow> (ike_err (ignoreNotFound e), n)))"

fun grollback :: "'n plane \<Rightarrow> gundo list \<Rightarrow> 'n \<Rightarrow> planeErr list \<times> 'n" where
  "grollback P [] n = ([], n)"
| "grollback P (u # us) n =
     (case gundo_step P u n of (e, n) \<Rightarrow>
      case grollback P us n of (es, n) \<Rightarrow> ((case e of None \<Rightarrow> es | Some e \<Rightarrow> e # es), n))"

definition start_begin :: "Gateway \<Rightarrow> planeErr + Gateway" where
  "start_begin g = (if gclosed g then Inl EClosed else if gstarted g then Inl EInvalid else Inr (g\<lparr>gstarted := True\<rparr>))"

definition client_secret :: "GatewayConfig \<Rightarrow> SharedSecret" where
  "client_secret cf = \<lparr>ssID = ResponderName cf, ssPSK = gcClientPSK cf, ssOwners = [gcLocalID cf]\<rparr>"

text \<open>\<^verbatim>\<open>start\<close>: the error, the actions that undo what was done, last one first, and the rule it noted.\<close>

definition start_run :: "'n plane \<Rightarrow> Gateway \<Rightarrow> 'n \<Rightarrow> planeErr option \<times> gundo list \<times> Gateway \<times> 'n" where
  "start_run P g n =
     (let cf = gcfg g; iface = gclientIface g in
      case AddXfrmInterface P iface (gcClientIfID cf) [] n of
        (Some e, n) \<Rightarrow> (Some (ENet e), [], g, n)
      | (None, n) \<Rightarrow>
     (let us = [GDeleteLink iface] in
      case (if gcInnerAddr cf \<noteq> NoAddr then AddAddr P iface (hostPrefix (gcInnerAddr cf)) n else (None, n)) of
        (Some e, n) \<Rightarrow> (Some (ENet e), us, g, n)
      | (None, n) \<Rightarrow>
     (case SetLinkUp P iface n of
        (Some e, n) \<Rightarrow> (Some (ENet e), us, g, n)
      | (None, n) \<Rightarrow>
     (case RouteReplace (routing P) (gclientRoute g) n of
        (Some e, n) \<Rightarrow> (Some (ENet e), us, g, n)
      | (None, n) \<Rightarrow>
     (let own = (gcTable cf \<noteq> 0 \<and> gcTable cf \<noteq> MainTable);
          rule = \<lparr>ruSrc = None, ruIif = iface, ruTable = gcTable cf, ruPriority = gcRulePriority cf, ruFamily = cfg_family cf\<rparr> in
      case (if own then RuleAdd P rule n else (None, n)) of
        (Some e, n) \<Rightarrow> (Some (ENet e), us, g, n)
      | (None, n) \<Rightarrow>
     (let us = (if own then GRuleDel rule # us else us);
          g = (if own then g\<lparr>grule := Some rule\<rparr> else g) in
      case LoadShared P (client_secret cf) n of
        (Some e, n) \<Rightarrow> (Some (EIke e), us, g, n)
      | (None, n) \<Rightarrow>
     (let us = GUnloadShared (ssID (client_secret cf)) # us in
      case LoadConn P (responder cf) n of (e, n) \<Rightarrow> (ike_err e, us, g, n))))))))"

definition start_end :: "'n plane \<Rightarrow> planeErr option \<Rightarrow> gundo list \<Rightarrow> Gateway \<Rightarrow> 'n \<Rightarrow> planeErr option \<times> Gateway \<times> 'n" where
  "start_end P err us g n =
     (case err of
        None \<Rightarrow> (None, g, n)
      | Some e \<Rightarrow>
          (case grollback P us n of (es, n) \<Rightarrow>
             (Some (if es = [] then e else ERollback e es), g\<lparr>gstarted := False, grule := None\<rparr>, n)))"

definition Start :: "'n plane \<Rightarrow> Gateway \<Rightarrow> 'n \<Rightarrow> planeErr option \<times> Gateway \<times> 'n" where
  "Start P g n =
     (case start_begin g of
        Inl e \<Rightarrow> (Some e, g, n)
      | Inr g \<Rightarrow> (case start_run P g n of (err, us, g, n) \<Rightarrow> start_end P err us g n))"

definition requireStarted :: "Gateway \<Rightarrow> planeErr option" where
  "requireStarted g = (if gclosed g then Some EClosed else if \<not> gstarted g then Some EInvalid else None)"

section \<open>Clients\<close>

definition Clients :: "'n plane \<Rightarrow> Gateway \<Rightarrow> 'n \<Rightarrow> planeErr + IKESA list" where
  "Clients P g n =
     (case requireStarted g of
        Some e \<Rightarrow> Inl e
      | None \<Rightarrow> (case ListSAs P (ResponderName (gcfg g)) n of Inl e \<Rightarrow> Inl (EIke e) | Inr sas \<Rightarrow> Inr sas))"

fun fence_loop :: "'n plane \<Rightarrow> string \<Rightarrow> IKESA list \<Rightarrow> nat \<Rightarrow> planeErr list \<Rightarrow> 'n \<Rightarrow> (nat \<times> planeErr list) \<times> 'n" where
  "fence_loop P ident [] k errs n = ((k, errs), n)"
| "fence_loop P ident (sa # sas) k errs n =
     (if ikRemoteID sa \<noteq> ident then fence_loop P ident sas k errs n
      else case TerminateIKEByID P (ikUniqueID sa) n of (e, n) \<Rightarrow>
        (case ignoreNotFound e of
           Some e \<Rightarrow> fence_loop P ident sas k (errs @ [EIke e]) n
         | None \<Rightarrow> fence_loop P ident sas (k + 1) errs n))"

definition FenceClient :: "'n plane \<Rightarrow> string \<Rightarrow> Gateway \<Rightarrow> 'n \<Rightarrow> (nat \<times> planeErr list) \<times> 'n" where
  "FenceClient P ident g n =
     (if \<not> idRE ident then ((0, [EInvalid]), n)
      else case Clients P g n of
        Inl e \<Rightarrow> ((0, [e]), n)
      | Inr sas \<Rightarrow> fence_loop P ident sas 0 [] n)"

section \<open>Backbones\<close>

definition backboneConnection :: "GatewayConfig \<Rightarrow> BackbonePeer \<Rightarrow> Connection" where
  "backboneConnection cf p =
     (let all = [allAddresses (cfg_family cf)] in
      \<lparr>cName = backboneName cf (peer_name p), cEpoch = bpEpoch p, cLocalAddr = gcLocalAddr cf, cRemoteAddr = bpAddr p,
       cLocalID = gcBackboneID cf, cRemoteID = bpID p, cAuth = AuthPSK, cPSK = gcBackbonePSK cf, cLocalPubkey = [], cRemotePubkey = [],
       cLocalTS = (if bpLocalTS p = [] then all else bpLocalTS p), cRemoteTS = (if bpRemoteTS p = [] then all else bpRemoteTS p),
       cIfID = bpIfID p, cIKEProposals = gcIKEProposals cf, cESPProposals = gcESPProposals cf, cDPDDelay = gcDPDDelay cf,
       cStart = (if gcBackboneID cf < bpID p then StartStart else StartNone)\<rparr>)"

definition hasBackboneID :: "Gateway \<Rightarrow> string \<Rightarrow> bool" where
  "hasBackboneID g i = list_ex (\<lambda>e. bpID (bbPeer (snd e)) = i) (gbackbone g)"

text \<open>The checks before the lock, then the locked part.\<close>

definition check_backbone :: "BackbonePeer \<Rightarrow> Gateway \<Rightarrow> planeErr + Connection" where
  "check_backbone p g =
     (case requireStarted g of
        Some e \<Rightarrow> Inl e
      | None \<Rightarrow>
          let cf = gcfg g in
          if bpID p = gcBackboneID cf \<or> bpID p = gcLocalID cf then Inl EInvalid
          else if \<not> checkAddr (bpAddr p) then Inl EInvalid
          else if \<not> checkSameFamily (gcLocalAddr cf) (bpAddr p) then Inl EInvalid
          else if \<not> checkPrefixes (cfg_family cf) (bpLocalTS p @ bpRemoteTS p) then Inl EInvalid
          else let conn = backboneConnection cf p in
          if IPsecConfig.Validate conn \<noteq> None then Inl EInvalid else Inr conn)"

definition backbone_begin :: "BackbonePeer \<Rightarrow> Gateway \<Rightarrow> planeErr + Gateway" where
  "backbone_begin p g =
     (let nm = peer_name p in
      if gclosed g then Inl EClosed
      else if mget (gbackbone g) nm \<noteq> None \<or> mget (gpending g) nm = Some True \<or> mget (gpendingIDs g) (bpID p) = Some True \<or> hasBackboneID g (bpID p)
        then Inl EExist
      else if (case mget (gifIDs g) (bpIfID p) of None \<Rightarrow> False | Some s \<Rightarrow> s \<noteq> []) then Inl EExist
      else Inr (g\<lparr>gpending := mput nm True (gpending g), gpendingIDs := mput (bpID p) True (gpendingIDs g), gifIDs := mput (bpIfID p) nm (gifIDs g)\<rparr>))"

definition backbone_secret :: "Connection \<Rightarrow> SharedSecret" where
  "backbone_secret conn = \<lparr>ssID = cName conn, ssPSK = cPSK conn, ssOwners = [cLocalID conn, cRemoteID conn]\<rparr>"

definition addBackbone :: "'n plane \<Rightarrow> bool \<Rightarrow> Connection \<Rightarrow> string \<Rightarrow> 'n \<Rightarrow> planeErr option \<times> gundo list \<times> 'n" where
  "addBackbone P ended conn iface n =
     (case AddXfrmInterface P iface (cIfID conn) [] n of
        (Some e, n) \<Rightarrow> (Some (ENet e), [], n)
      | (None, n) \<Rightarrow>
     (let us = [GDeleteLink iface] in
      case SetLinkUp P iface n of
        (Some e, n) \<Rightarrow> (Some (ENet e), us, n)
      | (None, n) \<Rightarrow>
     (case LoadShared P (backbone_secret conn) n of
        (Some e, n) \<Rightarrow> (Some (EIke e), us, n)
      | (None, n) \<Rightarrow>
     (let us = GUnloadShared (cName conn) # us in
      case LoadConn P conn n of
        (Some e, n) \<Rightarrow> (Some (EIke e), us, n)
      | (None, n) \<Rightarrow>
          (if ended then Some ECtx else None, GTerminateIKE (cName conn) # GUnloadConn (cName conn) # us, n)))))"

definition backbone_end :: "BackbonePeer \<Rightarrow> Connection \<Rightarrow> string \<Rightarrow> planeErr option \<Rightarrow> Gateway \<Rightarrow> planeErr option \<times> Gateway" where
  "backbone_end p conn iface err g =
     (let g = g\<lparr>gpending := mdel (peer_name p) (gpending g), gpendingIDs := mdel (bpID p) (gpendingIDs g)\<rparr>;
          err = (if err = None \<and> gclosed g then Some EClosed else err) in
      case err of
        None \<Rightarrow> (None, g\<lparr>gbackbone := mput (peer_name p) \<lparr>bbPeer = p, bbConn = conn, bbIface = iface\<rparr> (gbackbone g)\<rparr>)
      | Some e \<Rightarrow> (Some e, g\<lparr>gifIDs := mdel (bpIfID p) (gifIDs g)\<rparr>))"

definition AddBackbone :: "'n plane \<Rightarrow> bool \<Rightarrow> BackbonePeer \<Rightarrow> Gateway \<Rightarrow> 'n \<Rightarrow> planeErr option \<times> Gateway \<times> 'n" where
  "AddBackbone P ended p g n =
     (case check_backbone p g of
        Inl e \<Rightarrow> (Some e, g, n)
      | Inr conn \<Rightarrow>
          (case backbone_begin p g of
             Inl e \<Rightarrow> (Some e, g, n)
           | Inr g \<Rightarrow>
               (let iface = ifaceName (gcInterfacePrefix (gcfg g)) (bpIfID p) in
                case addBackbone P ended conn iface n of (err, us, n) \<Rightarrow>
                case backbone_end p conn iface err g of
                  (None, g) \<Rightarrow> (None, g, n)
                | (Some e, g) \<Rightarrow> (case grollback P us n of (es, n) \<Rightarrow> (Some (if es = [] then e else ERollback e es), g, n)))))"

definition gateway_peer :: "string \<Rightarrow> Gateway \<Rightarrow> planeErr + backbonePeer" where
  "gateway_peer nm g =
     (if gclosed g then Inl EClosed else case mget (gbackbone g) nm of None \<Rightarrow> Inl (EIke ErrNotFound) | Some p \<Rightarrow> Inr p)"

definition FenceBackboneBelow :: "'n plane \<Rightarrow> string \<Rightarrow> u64 \<Rightarrow> Gateway \<Rightarrow> 'n \<Rightarrow> planeErr list \<times> 'n" where
  "FenceBackboneBelow P nm ep g n =
     (case gateway_peer nm g of
        Inl e \<Rightarrow> ([e], n)
      | Inr p \<Rightarrow> (case fenceBelow P (cName (bbConn p)) ep n of (es, n) \<Rightarrow> (map EIke es, n)))"

subsection \<open>Uplink routes\<close>

fun uplink_routes :: "GatewayConfig \<Rightarrow> string \<Rightarrow> Prefix list \<Rightarrow> Prefix list \<Rightarrow> Route list option" where
  "uplink_routes cf iface seen [] = Some []"
| "uplink_routes cf iface seen (pf # pfs) =
     (let pf = Masked pf; own = (gcTable cf \<noteq> 0 \<and> gcTable cf \<noteq> MainTable) in
      if pfxBits pf = 0 \<and> \<not> own then None
      else if pf \<in> set seen then uplink_routes cf iface seen pfs
      else map_option (Cons \<lparr>rDst = pf, rGw = NoAddr, rDev = iface, rSrc = NoAddr, rTable = gcTable cf\<rparr>)
             (uplink_routes cf iface (pf # seen) pfs))"

definition uplink_begin :: "string \<Rightarrow> Prefix list \<Rightarrow> Gateway \<Rightarrow> planeErr + Route list" where
  "uplink_begin nm pfs g =
     (case gateway_peer nm g of
        Inl e \<Rightarrow> Inl e
      | Inr p \<Rightarrow>
          if pfs = [] then Inl EInvalid
          else if \<not> checkPrefixes (cfg_family (gcfg g)) pfs then Inl EInvalid
          else (case uplink_routes (gcfg g) (bbIface p) [] pfs of None \<Rightarrow> Inl EInvalid | Some want \<Rightarrow> Inr want))"

definition uplink_end :: "'n plane \<Rightarrow> string \<Rightarrow> Route list \<Rightarrow> Gateway \<Rightarrow> 'n \<Rightarrow> planeErr option \<times> Gateway \<times> 'n" where
  "uplink_end P nm want g n =
     (case routes_apply (routing P) want (groutes g) n of
        (Some e, rs, n) \<Rightarrow> (Some (ERoutes e), g\<lparr>groutes := rs\<rparr>, n)
      | (None, rs, n) \<Rightarrow> (None, g\<lparr>groutes := rs, guplink := nm\<rparr>, n))"

definition Uplink :: "'n plane \<Rightarrow> bool \<Rightarrow> string \<Rightarrow> Prefix list \<Rightarrow> Gateway \<Rightarrow> 'n \<Rightarrow> planeErr option \<times> Gateway \<times> 'n" where
  "Uplink P ended nm pfs g n =
     (if ended then (Some ECtx, g, n)
      else case uplink_begin nm pfs g of
        Inl e \<Rightarrow> (Some e, g, n)
      | Inr want \<Rightarrow> uplink_end P nm want g n)"

definition UplinkRoutes :: "Gateway \<Rightarrow> Route list" where
  "UplinkRoutes g = map snd (groutes g)"

subsection \<open>Removing and closing\<close>

text \<open>The check under the route lock, then the part under the gateway's lock.\<close>

definition in_use :: "string \<Rightarrow> Gateway \<Rightarrow> bool" where
  "in_use nm g \<longleftrightarrow> guplink g = nm \<and> groutes g \<noteq> []"

definition removebb_begin :: "string \<Rightarrow> Gateway \<Rightarrow> planeErr + backbonePeer \<times> Gateway" where
  "removebb_begin nm g =
     (if gclosed g then Inl EClosed
      else case mget (gbackbone g) nm of
        None \<Rightarrow> Inl (EIke ErrNotFound)
      | Some p \<Rightarrow> Inr (p, g\<lparr>gbackbone := mdel nm (gbackbone g), gpending := mput nm True (gpending g)\<rparr>))"

definition tearDownBackbone :: "'n plane \<Rightarrow> backbonePeer \<Rightarrow> 'n \<Rightarrow> planeErr list \<times> 'n" where
  "tearDownBackbone P p n =
     grollback P [GTerminateIKE (cName (bbConn p)), GUnloadConn (cName (bbConn p)), GUnloadShared (cName (bbConn p)), GDeleteLink (bbIface p)] n"

definition removebb_end :: "string \<Rightarrow> backbonePeer \<Rightarrow> Gateway \<Rightarrow> Gateway" where
  "removebb_end nm p g = g\<lparr>gpending := mdel nm (gpending g), gifIDs := mdel (bpIfID (bbPeer p)) (gifIDs g)\<rparr>"

definition RemoveBackbone :: "'n plane \<Rightarrow> string \<Rightarrow> Gateway \<Rightarrow> 'n \<Rightarrow> planeErr list \<times> Gateway \<times> 'n" where
  "RemoveBackbone P nm g n =
     (if in_use nm g then ([EInUse], g, n)
      else case removebb_begin nm g of
        Inl e \<Rightarrow> ([e], g, n)
      | Inr (p, g) \<Rightarrow> (case tearDownBackbone P p n of (es, n) \<Rightarrow> (es, removebb_end nm p g, n)))"

fun tear_backbones :: "'n plane \<Rightarrow> backbonePeer list \<Rightarrow> 'n \<Rightarrow> planeErr list \<times> 'n" where
  "tear_backbones P [] n = ([], n)"
| "tear_backbones P (p # ps) n = (case tearDownBackbone P p n of (es, n) \<Rightarrow> case tear_backbones P ps n of (es', n) \<Rightarrow> (es @ es', n))"

text \<open>The locked part of \<^verbatim>\<open>Close\<close>: whether it had started, the peers and the rule to take down.\<close>

definition gclose_begin :: "Gateway \<Rightarrow> (bool \<times> backbonePeer list \<times> Rule option) \<times> Gateway" where
  "gclose_begin g = ((gstarted g, map snd (gbackbone g), grule g), g\<lparr>gclosed := True, gbackbone := []\<rparr>)"

definition close_steps :: "Gateway \<Rightarrow> Rule option \<Rightarrow> gundo list" where
  "close_steps g rule =
     [GTerminateIKE (ResponderName (gcfg g)), GUnloadConn (ResponderName (gcfg g)), GUnloadShared (ResponderName (gcfg g))]
     @ (case rule of None \<Rightarrow> [] | Some r \<Rightarrow> [GRuleDel r]) @ [GDeleteLink (gclientIface g)]"

definition gclose_end :: "'n plane \<Rightarrow> bool \<times> backbonePeer list \<times> Rule option \<Rightarrow> Gateway \<Rightarrow> 'n \<Rightarrow> planeErr list \<times> Gateway \<times> 'n" where
  "gclose_end P what g n =
     (case what of (started, ps, rule) \<Rightarrow>
      case routes_clear (routing P) (groutes g) n of (e, rs, n) \<Rightarrow>
      case tear_backbones P ps n of (es, n) \<Rightarrow>
      case (if started then grollback P (close_steps g rule) n else ([], n)) of (es', n) \<Rightarrow>
        ((case e of None \<Rightarrow> [] | Some e \<Rightarrow> [ERoutes e]) @ es @ es', g\<lparr>groutes := rs, guplink := []\<rparr>, n))"

definition Gateway_Close :: "'n plane \<Rightarrow> Gateway \<Rightarrow> 'n \<Rightarrow> planeErr list \<times> Gateway \<times> 'n" where
  "Gateway_Close P g n = (if gclosed g then ([], g, n) else case gclose_begin g of (what, g) \<Rightarrow> gclose_end P what g n)"

end
