(* ===== verification/IPsecGatewayProps.thy ===== *)
theory IPsecGatewayProps
  imports IPsecGateway IPsecClientProps
begin

text \<open>
  What holds of \<^verbatim>\<open>internal/ipsec/gateway.go\<close> however calls interleave: the pre-shared keys stay in their roles. A
  start that a close overtakes leaves the responder loaded.
\<close>

section \<open>Interleaved calls\<close>

datatype gjob = GStart | GStarted "planeErr option" "gundo list" | GAdd BackbonePeer Connection
  | GAdded BackbonePeer Connection string "planeErr option" "gundo list" | GRemove string backbonePeer
  | GUplink string "Route list" | GClose "bool \<times> backbonePeer list \<times> Rule option"

inductive gstep :: "'n plane \<Rightarrow> Gateway \<times> gjob multiset \<times> 'n \<Rightarrow> Gateway \<times> gjob multiset \<times> 'n \<Rightarrow> bool" for P where
  begin_start: "start_begin g = Inr g' \<Longrightarrow> gstep P (g, js, n) (g', add_mset GStart js, n)"
| run_start: "start_run P g n = (err, us, g', n') \<Longrightarrow> gstep P (g, add_mset GStart js, n) (g', add_mset (GStarted err us) js, n')"
| end_start: "start_end P err us g n = (e, g', n') \<Longrightarrow> gstep P (g, add_mset (GStarted err us) js, n) (g', js, n')"
| fence_client: "FenceClient P ident g n = (r, n') \<Longrightarrow> gstep P (g, js, n) (g, js, n')"
| begin_backbone: "check_backbone p g = Inr conn \<Longrightarrow> backbone_begin p g = Inr g' \<Longrightarrow> gstep P (g, js, n) (g', add_mset (GAdd p conn) js, n)"
| run_backbone: "addBackbone P ended conn (ifaceName (gcInterfacePrefix (gcfg g)) (bpIfID p)) n = (err, us, n')
    \<Longrightarrow> gstep P (g, add_mset (GAdd p conn) js, n) (g, add_mset (GAdded p conn (ifaceName (gcInterfacePrefix (gcfg g)) (bpIfID p)) err us) js, n')"
| end_backbone: "backbone_end p conn iface err g = (e, g') \<Longrightarrow> grollback P (if e = None then [] else us) n = (es, n')
    \<Longrightarrow> gstep P (g, add_mset (GAdded p conn iface err us) js, n) (g', js, n')"
| fence_backbone: "FenceBackboneBelow P nm ep g n = (es, n') \<Longrightarrow> gstep P (g, js, n) (g, js, n')"
| begin_uplink: "uplink_begin nm pfs g = Inr want \<Longrightarrow> gstep P (g, js, n) (g, add_mset (GUplink nm want) js, n)"
| end_uplink: "uplink_end P nm want g n = (e, g', n') \<Longrightarrow> gstep P (g, add_mset (GUplink nm want) js, n) (g', js, n')"
| begin_removebb: "removebb_begin nm g = Inr (p, g') \<Longrightarrow> gstep P (g, js, n) (g', add_mset (GRemove nm p) js, n)"
| end_removebb: "tearDownBackbone P p n = (es, n') \<Longrightarrow> gstep P (g, add_mset (GRemove nm p) js, n) (removebb_end nm p g, js, n')"
| begin_gclose: "\<not> gclosed g \<Longrightarrow> gclose_begin g = (what, g') \<Longrightarrow> gstep P (g, js, n) (g', add_mset (GClose what) js, n)"
| end_gclose: "gclose_end P what g n = (es, g', n') \<Longrightarrow> gstep P (g, add_mset (GClose what) js, n) (g', js, n')"

section \<open>Keys\<close>

text \<open>
  What is relied on of the daemon, for what \<open>secs\<close> reads of the keys loaded: only loading a key can add one, and
  only that one.
\<close>

definition no_key :: "('n \<Rightarrow> SharedSecret set) \<Rightarrow> ('n \<Rightarrow> 'e \<times> 'n) \<Rightarrow> bool" where
  "no_key secs f \<longleftrightarrow> (\<forall>n. secs (snd (f n)) \<subseteq> secs n)"

definition key_store :: "'n plane \<Rightarrow> ('n \<Rightarrow> SharedSecret set) \<Rightarrow> bool" where
  "key_store P secs \<longleftrightarrow>
     (\<forall>s n. secs (snd (LoadShared P s n)) \<subseteq> insert s (secs n)) \<and> (\<forall>i. no_key secs (UnloadShared P i))
     \<and> (\<forall>l i u. no_key secs (AddXfrmInterface P l i u)) \<and> (\<forall>l. no_key secs (DeleteLink P l)) \<and> (\<forall>l a. no_key secs (AddAddr P l a))
     \<and> (\<forall>l. no_key secs (SetLinkUp P l)) \<and> (\<forall>r. no_key secs (RouteReplace (routing P) r)) \<and> (\<forall>r. no_key secs (RouteDel (routing P) r))
     \<and> (\<forall>r. no_key secs (RuleAdd P r)) \<and> (\<forall>r. no_key secs (RuleDel P r)) \<and> (\<forall>c. no_key secs (LoadConn P c))
     \<and> (\<forall>i. no_key secs (UnloadConn P i)) \<and> (\<forall>i. no_key secs (TerminateIKE P i)) \<and> (\<forall>i. no_key secs (TerminateIKEByID P i))
     \<and> (\<forall>i. no_key secs (TerminateChild P i))"

text \<open>As \<^verbatim>\<open>ike.go\<close> documents: the daemon tries every loaded key that names either side of an exchange.\<close>

definition candidates :: "SharedSecret set \<Rightarrow> string \<Rightarrow> string \<Rightarrow> SharedSecret set" where
  "candidates S a b = {s \<in> S. a \<in> set (ssOwners s) \<or> b \<in> set (ssOwners s)}"

lemma no_keyD: "no_key secs f \<Longrightarrow> f n = (e, n') \<Longrightarrow> secs n' \<subseteq> secs n"
  unfolding no_key_def by (metis snd_conv)

lemma key_storeD:
  assumes "key_store P secs"
  shows "LoadShared P s n = (x, n') \<Longrightarrow> secs n' \<subseteq> insert s (secs n)" "UnloadShared P i n = (x, n') \<Longrightarrow> secs n' \<subseteq> secs n"
    "AddXfrmInterface P l k u n = (e, n') \<Longrightarrow> secs n' \<subseteq> secs n" "DeleteLink P l n = (e, n') \<Longrightarrow> secs n' \<subseteq> secs n"
    "AddAddr P l a n = (e, n') \<Longrightarrow> secs n' \<subseteq> secs n" "SetLinkUp P l n = (e, n') \<Longrightarrow> secs n' \<subseteq> secs n"
    "RouteReplace (routing P) r n = (e, n') \<Longrightarrow> secs n' \<subseteq> secs n" "RouteDel (routing P) r n = (e, n') \<Longrightarrow> secs n' \<subseteq> secs n"
    "RuleAdd P ru n = (e, n') \<Longrightarrow> secs n' \<subseteq> secs n" "RuleDel P ru n = (e, n') \<Longrightarrow> secs n' \<subseteq> secs n"
    "LoadConn P c n = (x, n') \<Longrightarrow> secs n' \<subseteq> secs n" "UnloadConn P i n = (x, n') \<Longrightarrow> secs n' \<subseteq> secs n"
    "TerminateIKE P i n = (x, n') \<Longrightarrow> secs n' \<subseteq> secs n" "TerminateIKEByID P w n = (x, n') \<Longrightarrow> secs n' \<subseteq> secs n"
    "TerminateChild P w n = (x, n') \<Longrightarrow> secs n' \<subseteq> secs n"
proof -
  have "\<forall>s n. secs (snd (LoadShared P s n)) \<subseteq> insert s (secs n)" using assms unfolding key_store_def by (elim conjE)
  then show "LoadShared P s n = (x, n') \<Longrightarrow> secs n' \<subseteq> insert s (secs n)" by (metis snd_conv)
qed (erule no_keyD [rotated], use assms in \<open>simp add: key_store_def\<close>)+

lemma gundo_keys: "key_store P secs \<Longrightarrow> gundo_step P u n = (e, n') \<Longrightarrow> secs n' \<subseteq> secs n"
  by (cases u) (auto simp: gundo_step_def split: prod.splits dest: key_storeD [THEN subsetD])

lemma grollback_keys: "key_store P secs \<Longrightarrow> grollback P us n = (es, n') \<Longrightarrow> secs n' \<subseteq> secs n"
proof (induction us arbitrary: n es)
  case (Cons u us)
  obtain e n1 where u: "gundo_step P u n = (e, n1)" by fastforce
  then show ?case using Cons gundo_keys [OF Cons.prems(1) u] by (fastforce split: prod.splits)
qed simp

lemma undo_all_keys: "key_store P secs \<Longrightarrow> undo_all (routing P) cs n = (es, n') \<Longrightarrow> secs n' \<subseteq> secs n"
proof (induction cs arbitrary: n es)
  case (Cons c cs)
  obtain e n1 where u: "undo_one (routing P) c n = (e, n1)" by fastforce
  have "secs n1 \<subseteq> secs n" using u Cons.prems(1)
    by (cases c; cases "snd c") (auto simp: undo_one_def split: prod.splits dest: key_storeD(7,8) [THEN subsetD])
  then show ?case using Cons u by (fastforce split: prod.splits)
qed simp

lemma replace_loop_keys: "key_store P secs \<Longrightarrow> replace_loop (routing P) inst ch rs n = (e, n') \<Longrightarrow> secs n' \<subseteq> secs n"
proof (induction rs arbitrary: ch n)
  case (Cons r rs)
  obtain x n1 where u: "RouteReplace (routing P) r n = (x, n1)" by fastforce
  have s: "secs n1 \<subseteq> secs n" by (rule key_storeD(7) [OF Cons.prems(1) u])
  show ?case
  proof (cases x)
    case None
    then show ?thesis using Cons.IH [OF Cons.prems(1)] Cons.prems(2) u s by (simp, meson subset_trans)
  next
    case (Some y)
    then obtain es where "undo_all (routing P) ch n1 = (es, n')" using Cons.prems(2) u by (auto split: prod.splits)
    from undo_all_keys [OF Cons.prems(1) this] s show ?thesis by blast
  qed
qed simp

lemma withdraw_loop_keys: "key_store P secs \<Longrightarrow> withdraw_loop (routing P) es keep n = (errs, keep', n') \<Longrightarrow> secs n' \<subseteq> secs n"
proof (induction es arbitrary: keep n errs)
  case (Cons e es)
  obtain dst r where e: "e = (dst, r)" by (cases e)
  show ?case
  proof (cases "mget keep dst = None")
    case False
    then show ?thesis using Cons e by auto
  next
    case True
    obtain x n1 where u: "RouteDel (routing P) r n = (x, n1)" by fastforce
    have s: "secs n1 \<subseteq> secs n" by (rule key_storeD(8) [OF Cons.prems(1) u])
    obtain keep1 errs1 where "withdraw_loop (routing P) es keep1 n1 = (errs1, keep', n')"
      using Cons.prems(2) e True u by (auto split: option.splits prod.splits)
    from Cons.IH [OF Cons.prems(1) this] s show ?thesis by blast
  qed
qed simp

lemma routes_apply_keys: "key_store P secs \<Longrightarrow> routes_apply (routing P) want inst n = (e, rs, n') \<Longrightarrow> secs n' \<subseteq> secs n"
proof -
  assume K: "key_store P secs" and r: "routes_apply (routing P) want inst n = (e, rs, n')"
  obtain x n1 where l: "replace_loop (routing P) inst [] want n = (x, n1)" by fastforce
  have s: "secs n1 \<subseteq> secs n" by (rule replace_loop_keys [OF K l])
  show ?thesis
  proof (cases x)
    case None
    then obtain errs where "withdraw_loop (routing P) inst (keep_of want) n1 = (errs, rs, n')"
      using r l by (auto simp: routes_apply_def split: prod.splits)
    from withdraw_loop_keys [OF K this] s show ?thesis by blast
  next
    case (Some y)
    then show ?thesis using r l s by (auto simp: routes_apply_def)
  qed
qed

lemma fence_loop_keys: "key_store P secs \<Longrightarrow> fence_loop P ident sas k errs n = (r, n') \<Longrightarrow> secs n' \<subseteq> secs n"
proof (induction sas arbitrary: k errs n)
  case (Cons sa sas)
  obtain x n1 where u: "TerminateIKEByID P (ikUniqueID sa) n = (x, n1)" by fastforce
  have s: "secs n1 \<subseteq> secs n" by (rule key_storeD(14) [OF Cons.prems(1) u])
  show ?case
  proof (cases "ikRemoteID sa = ident")
    case False
    then show ?thesis using Cons by auto
  next
    case True
    then obtain k1 errs1 where "fence_loop P ident sas k1 errs1 n1 = (r, n')" using Cons.prems(2) u by (auto split: option.splits)
    from Cons.IH [OF Cons.prems(1) this] s show ?thesis by blast
  qed
qed simp

lemma terminate_children_keys: "key_store P secs \<Longrightarrow> terminate_children P chs n = (es, n') \<Longrightarrow> secs n' \<subseteq> secs n"
proof (induction chs arbitrary: n es)
  case (Cons ch chs)
  obtain x n1 where u: "TerminateChild P (chUniqueID ch) n = (x, n1)" by fastforce
  then show ?case using Cons key_storeD(15) [OF Cons.prems(1) u] by (fastforce split: prod.splits)
qed simp

lemma fenceBelow_keys: "key_store P secs \<Longrightarrow> fenceBelow P conn ep n = (es, n') \<Longrightarrow> secs n' \<subseteq> secs n"
  by (auto simp: fenceBelow_def split: sum.splits dest: terminate_children_keys [THEN subsetD])

lemma tear_backbones_keys: "key_store P secs \<Longrightarrow> tear_backbones P ps n = (es, n') \<Longrightarrow> secs n' \<subseteq> secs n"
proof (induction ps arbitrary: n es)
  case (Cons p ps)
  obtain es1 n1 where u: "tearDownBackbone P p n = (es1, n1)" by fastforce
  obtain es2 where "tear_backbones P ps n1 = (es2, n')" using Cons.prems(2) u by (auto split: prod.splits)
  from Cons.IH [OF Cons.prems(1) this] grollback_keys [OF Cons.prems(1) u [unfolded tearDownBackbone_def]] show ?case by blast
qed simp

lemma gclose_end_keys:
  assumes "key_store P secs" "gclose_end P what g n = (es, g', n')"
  shows "secs n' \<subseteq> secs n" "gcfg g' = gcfg g" "gbackbone g' = gbackbone g"
proof -
  obtain st ps rule where w: "what = (st, ps, rule)" by (cases what)
  obtain e rs n1 where r: "routes_clear (routing P) (groutes g) n = (e, rs, n1)" by (metis prod_cases3)
  obtain es1 n2 where t: "tear_backbones P ps n1 = (es1, n2)" by fastforce
  have "secs n1 \<subseteq> secs n" using routes_apply_keys [OF assms(1)] r by (simp add: routes_clear_def)
  moreover have "secs n2 \<subseteq> secs n1" by (rule tear_backbones_keys [OF assms(1) t])
  moreover have "secs n' \<subseteq> secs n2" using assms(2) w r t grollback_keys [OF assms(1)]
    by (auto simp: gclose_end_def split: prod.splits if_splits)
  ultimately show "secs n' \<subseteq> secs n" by blast
  show "gcfg g' = gcfg g" "gbackbone g' = gbackbone g" using assms(2) w r t by (auto simp: gclose_end_def split: prod.splits if_splits)
qed

lemma start_run_keys:
  assumes K: "key_store P secs" and r: "start_run P g n = (err, us, g', n')"
  shows "secs n' \<subseteq> insert (client_secret (gcfg g)) (secs n)" "gcfg g' = gcfg g" "gbackbone g' = gbackbone g"
proof -
  let ?rule = "\<lparr>ruSrc = None, ruIif = gclientIface g, ruTable = gcTable (gcfg g), ruPriority = gcRulePriority (gcfg g), ruFamily = cfg_family (gcfg g)\<rparr>"
  obtain e1 n1 where s1: "AddXfrmInterface P (gclientIface g) (gcClientIfID (gcfg g)) [] n = (e1, n1)" by fastforce
  obtain e2 n2 where s2: "(if gcInnerAddr (gcfg g) \<noteq> NoAddr then AddAddr P (gclientIface g) (hostPrefix (gcInnerAddr (gcfg g))) n1 else (None, n1)) = (e2, n2)" by fastforce
  obtain e3 n3 where s3: "SetLinkUp P (gclientIface g) n2 = (e3, n3)" by fastforce
  obtain e4 n4 where s4: "RouteReplace (routing P) (gclientRoute g) n3 = (e4, n4)" by fastforce
  obtain e5 n5 where s5: "(if gcTable (gcfg g) \<noteq> 0 \<and> gcTable (gcfg g) \<noteq> MainTable then RuleAdd P ?rule n4 else (None, n4)) = (e5, n5)" by fastforce
  obtain e6 n6 where s6: "LoadShared P (client_secret (gcfg g)) n5 = (e6, n6)" by fastforce
  obtain e7 n7 where s7: "LoadConn P (responder (gcfg g)) n6 = (e7, n7)" by fastforce
  have ends: "n' \<in> {n1, n2, n3, n4, n5, n6, n7} \<and> (g' = g \<or> g' = g\<lparr>grule := Some ?rule\<rparr>)"
    using r unfolding start_run_def Let_def s1 s2 s3 s4 s5 s6 s7 prod.case by (auto split: option.splits if_splits)
  have m1: "secs n1 \<subseteq> secs n" "secs n3 \<subseteq> secs n2" "secs n4 \<subseteq> secs n3" "secs n6 \<subseteq> insert (client_secret (gcfg g)) (secs n5)" "secs n7 \<subseteq> secs n6"
    by (rule key_storeD(3) [OF K s1], rule key_storeD(6) [OF K s3], rule key_storeD(7) [OF K s4], rule key_storeD(1) [OF K s6], rule key_storeD(11) [OF K s7])
  have m2: "secs n2 \<subseteq> secs n1" "secs n5 \<subseteq> secs n4"
    using key_storeD(5) [OF K] key_storeD(9) [OF K] s2 s5 by (auto split: if_splits)
  have c2: "secs n2 \<subseteq> secs n" using m2(1) m1(1) by (rule subset_trans)
  have c3: "secs n3 \<subseteq> secs n" using m1(2) c2 by (rule subset_trans)
  have c4: "secs n4 \<subseteq> secs n" using m1(3) c3 by (rule subset_trans)
  have c5: "secs n5 \<subseteq> secs n" using m2(2) c4 by (rule subset_trans)
  have c6: "secs n6 \<subseteq> insert (client_secret (gcfg g)) (secs n)" using m1(4) c5 by blast
  have c7: "secs n7 \<subseteq> insert (client_secret (gcfg g)) (secs n)" using m1(5) c6 by (rule subset_trans)
  show "secs n' \<subseteq> insert (client_secret (gcfg g)) (secs n)"
    using ends [THEN conjunct1] m1(1) c2 c3 c4 c5 c6 c7 by (elim insertE) (simp_all add: subset_insertI2)
  show "gcfg g' = gcfg g" "gbackbone g' = gbackbone g" using ends by auto
qed

lemma addBackbone_keys:
  assumes K: "key_store P secs" and r: "addBackbone P ended conn iface n = (err, us, n')"
  shows "secs n' \<subseteq> insert (backbone_secret conn) (secs n)"
proof -
  obtain e1 n1 where s1: "AddXfrmInterface P iface (cIfID conn) [] n = (e1, n1)" by fastforce
  obtain e2 n2 where s2: "SetLinkUp P iface n1 = (e2, n2)" by fastforce
  obtain e3 n3 where s3: "LoadShared P (backbone_secret conn) n2 = (e3, n3)" by fastforce
  obtain e4 n4 where s4: "LoadConn P conn n3 = (e4, n4)" by fastforce
  have "n' \<in> {n1, n2, n3, n4}" using r unfolding addBackbone_def Let_def s1 prod.case
    unfolding s2 s3 s4 prod.case by (auto split: option.splits if_splits)
  moreover have "secs n1 \<subseteq> secs n" "secs n2 \<subseteq> secs n1" "secs n3 \<subseteq> insert (backbone_secret conn) (secs n2)" "secs n4 \<subseteq> secs n3"
    by (rule key_storeD(3) [OF K s1], rule key_storeD(6) [OF K s2], rule key_storeD(1) [OF K s3], rule key_storeD(11) [OF K s4])
  ultimately show ?thesis by blast
qed

subsection \<open>The invariant\<close>

definition backbone_conn :: "GatewayConfig \<Rightarrow> Connection \<Rightarrow> bool" where
  "backbone_conn cf conn \<longleftrightarrow> cLocalID conn = gcBackboneID cf \<and> cPSK conn = gcBackbonePSK cf \<and> cRemoteID conn \<noteq> gcLocalID cf"

definition key_ok :: "GatewayConfig \<Rightarrow> SharedSecret \<Rightarrow> bool" where
  "key_ok cf s \<longleftrightarrow> s = client_secret cf \<or> (\<exists>conn. backbone_conn cf conn \<and> s = backbone_secret conn)"

definition gjob_ok :: "GatewayConfig \<Rightarrow> gjob \<Rightarrow> bool" where
  "gjob_ok cf j = (case j of GAdd _ conn \<Rightarrow> backbone_conn cf conn | GAdded _ conn _ _ _ \<Rightarrow> backbone_conn cf conn | _ \<Rightarrow> True)"

definition keys_inv :: "GatewayConfig \<Rightarrow> ('n \<Rightarrow> SharedSecret set) \<Rightarrow> Gateway \<times> gjob multiset \<times> 'n \<Rightarrow> bool" where
  "keys_inv cf secs s \<longleftrightarrow> (case s of (g, js, n) \<Rightarrow>
     gcfg g = cf \<and> (\<forall>k \<in> secs n. key_ok cf k) \<and> (\<forall>j \<in># js. gjob_ok cf j)
     \<and> (\<forall>nm p. mget (gbackbone g) nm = Some p \<longrightarrow> backbone_conn cf (bbConn p)))"

lemma check_backbone_conn: "check_backbone p g = Inr conn \<Longrightarrow> backbone_conn (gcfg g) conn"
  by (auto simp: check_backbone_def backbone_conn_def backboneConnection_def Let_def split: option.splits if_splits)

lemma keys_inv_I:
  assumes "keys_inv cf secs (g, js, n)" "gcfg g' = gcfg g" "secs n' \<subseteq> secs n \<union> S" "\<forall>k \<in> S. key_ok cf k" "\<forall>j \<in># js'. gjob_ok cf j"
    and "\<And>nm p. mget (gbackbone g') nm = Some p \<Longrightarrow> mget (gbackbone g) nm = Some p \<or> backbone_conn cf (bbConn p)"
  shows "keys_inv cf secs (g', js', n')"
proof -
  have "backbone_conn cf (bbConn p)" if "mget (gbackbone g') nm = Some p" for nm p
    using assms(6) [OF that] assms(1) unfolding keys_inv_def by auto
  moreover have "key_ok cf k" if "k \<in> secs n'" for k using that assms(1,3,4) unfolding keys_inv_def by auto
  ultimately show ?thesis using assms(1,2,5) unfolding keys_inv_def by auto
qed

lemma keys_inv_step:
  assumes K: "key_store P secs"
  shows "gstep P s s' \<Longrightarrow> keys_inv cf secs s \<Longrightarrow> keys_inv cf secs s'"
proof (induction rule: gstep.induct)
  case (begin_start g g' js n)
  have "gcfg g' = gcfg g" "gbackbone g' = gbackbone g" using begin_start(1) by (auto simp: start_begin_def split: if_splits)
  then show ?case by (intro keys_inv_I [OF begin_start(2), where S = "{}"]) (use begin_start(2) in \<open>auto simp: keys_inv_def gjob_ok_def\<close>)
next
  case (run_start g n err us g' n' js)
  have cf: "gcfg g = cf" using run_start(2) by (simp add: keys_inv_def)
  show ?case by (rule keys_inv_I [OF run_start(2), where S = "{client_secret cf}"])
      (use run_start(2) start_run_keys [OF K run_start(1)] in \<open>auto simp: keys_inv_def gjob_ok_def key_ok_def\<close>)
next
  case (end_start err us g n e g' n' js)
  have "gcfg g' = gcfg g" "gbackbone g' = gbackbone g" "secs n' \<subseteq> secs n"
    using end_start(1) grollback_keys [OF K] by (auto simp: start_end_def split: option.splits prod.splits)
  then show ?case by (intro keys_inv_I [OF end_start(2), where S = "{}"]) (use end_start(2) in \<open>auto simp: keys_inv_def\<close>)
next
  case (fence_client ident g n r n' js)
  have "secs n' \<subseteq> secs n" using fence_client(1) fence_loop_keys [OF K] by (auto simp: FenceClient_def split: if_splits sum.splits)
  then show ?case by (intro keys_inv_I [OF fence_client(2), where S = "{}"]) (use fence_client(2) in \<open>auto simp: keys_inv_def\<close>)
next
  case (begin_backbone p g conn g' js n)
  have "gcfg g' = gcfg g" "gbackbone g' = gbackbone g" using begin_backbone(2) by (auto simp: backbone_begin_def Let_def split: if_splits)
  then show ?case by (intro keys_inv_I [OF begin_backbone(3), where S = "{}"])
      (use begin_backbone(3) check_backbone_conn [OF begin_backbone(1)] in \<open>auto simp: keys_inv_def gjob_ok_def\<close>)
next
  case (run_backbone ended conn g p n err us n' js)
  show ?case by (rule keys_inv_I [OF run_backbone(2), where S = "{backbone_secret conn}"])
      (use run_backbone(2) addBackbone_keys [OF K run_backbone(1)] in \<open>auto simp: keys_inv_def gjob_ok_def key_ok_def\<close>)
next
  case (end_backbone p conn iface err g e g' us n es n' js)
  have cf: "gcfg g' = gcfg g" using end_backbone(1) by (auto simp: backbone_end_def Let_def split: option.splits if_splits)
  have bb: "mget (gbackbone g') nm = Some q \<Longrightarrow> mget (gbackbone g) nm = Some q \<or> bbConn q = conn" for nm q
    using end_backbone(1) by (auto simp: backbone_end_def Let_def split: option.splits if_splits)
  have "secs n' \<subseteq> secs n" by (rule grollback_keys [OF K end_backbone(2)])
  then show ?case by (intro keys_inv_I [OF end_backbone(3), where S = "{}"]) (use cf bb end_backbone(3) in \<open>auto simp: keys_inv_def gjob_ok_def\<close>)
next
  case (fence_backbone nm ep g n es n' js)
  have "secs n' \<subseteq> secs n" using fence_backbone(1) fenceBelow_keys [OF K] by (auto simp: FenceBackboneBelow_def split: sum.splits prod.splits)
  then show ?case by (intro keys_inv_I [OF fence_backbone(2), where S = "{}"]) (use fence_backbone(2) in \<open>auto simp: keys_inv_def\<close>)
next
  case (begin_uplink nm pfs g want js n)
  then show ?case by (auto simp: keys_inv_def gjob_ok_def)
next
  case (end_uplink nm want g n e g' n' js)
  have "gcfg g' = gcfg g" "gbackbone g' = gbackbone g" "secs n' \<subseteq> secs n"
    using end_uplink(1) routes_apply_keys [OF K] by (auto simp: uplink_end_def split: option.splits prod.splits)
  then show ?case by (intro keys_inv_I [OF end_uplink(2), where S = "{}"]) (use end_uplink(2) in \<open>auto simp: keys_inv_def\<close>)
next
  case (begin_removebb nm g p g' js n)
  have "gcfg g' = gcfg g" "gbackbone g' = mdel nm (gbackbone g)" using begin_removebb(1) by (auto simp: removebb_begin_def split: if_splits option.splits)
  then show ?case by (intro keys_inv_I [OF begin_removebb(2), where S = "{}"]) (use begin_removebb(2) in \<open>auto simp: keys_inv_def gjob_ok_def split: if_splits\<close>)
next
  case (end_removebb p n es n' g nm js)
  have "secs n' \<subseteq> secs n" by (rule grollback_keys [OF K end_removebb(1) [unfolded tearDownBackbone_def]])
  then show ?case by (intro keys_inv_I [OF end_removebb(2), where S = "{}"]) (use end_removebb(2) in \<open>auto simp: keys_inv_def removebb_end_def\<close>)
next
  case (begin_gclose g what g' js n)
  have "gcfg g' = gcfg g" "gbackbone g' = []" using begin_gclose(2) by (auto simp: gclose_begin_def)
  then show ?case by (intro keys_inv_I [OF begin_gclose(3), where S = "{}"]) (use begin_gclose(3) in \<open>auto simp: keys_inv_def gjob_ok_def\<close>)
next
  case (end_gclose what g n es g' n' js)
  show ?case by (rule keys_inv_I [OF end_gclose(2), where S = "{}"])
      (use end_gclose(2) gclose_end_keys [OF K end_gclose(1)] in \<open>auto simp: keys_inv_def\<close>)
qed

lemma keys_inv_steps: "key_store P secs \<Longrightarrow> (gstep P)\<^sup>*\<^sup>* s s' \<Longrightarrow> keys_inv cf secs s \<Longrightarrow> keys_inv cf secs s'"
  by (rotate_tac 1, induction rule: rtranclp_induct) (auto dest: keys_inv_step)


section \<open>A simulated daemon\<close>

text \<open>The keys and the connections loaded, and a kernel on which everything works.\<close>

type_synonym sim_daemon = "SharedSecret list \<times> string list"

definition sim_gplane :: "sim_daemon plane" where
  "sim_gplane =
     \<lparr>routing = \<lparr>RouteReplace = \<lambda>r n. (None, n), RouteDel = \<lambda>r n. (None, n)\<rparr>,
      AddXfrmInterface = \<lambda>l i u n. (None, n), DeleteLink = \<lambda>l n. (None, n), AddAddr = \<lambda>l a n. (None, n), SetLinkUp = \<lambda>l n. (None, n),
      RouteAdd = \<lambda>r n. (None, n), RouteGet = \<lambda>a n. None, DefaultRoute = \<lambda>f n. None, RuleAdd = \<lambda>r n. (None, n), RuleDel = \<lambda>r n. (None, n),
      LoadConn = \<lambda>c (ss, cs). (None, (ss, cName c # cs)), UnloadConn = \<lambda>i (ss, cs). (None, (ss, removeAll i cs)),
      LoadShared = \<lambda>s (ss, cs). (None, (s # ss, cs)), UnloadShared = \<lambda>i (ss, cs). (None, (filter (\<lambda>s. ssID s \<noteq> i) ss, cs)),
      Initiate = \<lambda>i ch n. (None, n), TerminateIKE = \<lambda>i n. (None, n), TerminateIKEByID = \<lambda>i n. (None, n), TerminateChild = \<lambda>i n. (None, n),
      ListSAs = \<lambda>i n. Inr []\<rparr>"

lemma sim_gplane_keys: "key_store sim_gplane (set \<circ> fst)"
  by (auto simp: key_store_def no_key_def sim_gplane_def)

definition sim_gcfg :: GatewayConfig where
  "sim_gcfg = \<lparr>gcName = [], gcLocalID = ''gw'', gcBackboneID = [], gcLocalAddr = Addr4 1, gcClientPSK = ''client-key-0123456789'',
     gcBackbonePSK = ''backbone-key-0123456789'', gcClientSubnet = \<lparr>pfxAddr = Addr4 0x0a000000, pfxBits = 8\<rparr>, gcServed = [], gcInnerAddr = NoAddr,
     gcClientIfID = 1, gcTable = 0, gcRulePriority = 0, gcDPDDelay = 0, gcIKEProposals = [], gcESPProposals = [], gcInterfacePrefix = [],
     gcPollInterval = 0, gcCleanupTimeout = 0\<rparr>"

definition sim_gpeer :: BackbonePeer where
  "sim_gpeer = \<lparr>bpName = ''b'', bpID = ''peer'', bpAddr = Addr4 2, bpIfID = 2, bpEpoch = 0, bpLocalTS = [], bpRemoteTS = []\<rparr>"

definition sim_gateway :: Gateway where
  "sim_gateway = (case NewGateway sim_gcfg of Inr g \<Rightarrow> g | Inl _ \<Rightarrow> undefined)"

lemma sim_gateway_new: "NewGateway sim_gcfg = Inr sim_gateway"
proof -
  have "g_validate (g_setDefaults sim_gcfg)" by code_simp
  then show ?thesis by (simp add: sim_gateway_def NewGateway_def Let_def)
qed

text \<open>Calls that no other call interrupts are interleavings.\<close>

lemma Start_steps:
  assumes "Start P g n = (e, g', n')"
  shows "(gstep P)\<^sup>*\<^sup>* (g, js, n) (g', js, n')"
proof (cases "start_begin g")
  case (Inl x)
  then show ?thesis using assms by (auto simp: Start_def)
next
  case (Inr g1)
  obtain err us g2 n2 where r: "start_run P g1 n = (err, us, g2, n2)" by (metis prod_cases4)
  have d: "start_end P err us g2 n2 = (e, g', n')" using assms Inr r by (simp add: Start_def)
  show ?thesis using begin_start [OF Inr, of P js n] run_start [OF r, of js] end_start [OF d, of js]
    by (meson converse_rtranclp_into_rtranclp rtranclp.rtrancl_refl)
qed

lemma AddBackbone_steps:
  assumes "AddBackbone P ended p g n = (e, g', n')"
  shows "(gstep P)\<^sup>*\<^sup>* (g, js, n) (g', js, n')"
proof (cases "check_backbone p g")
  case (Inl x)
  then show ?thesis using assms by (auto simp: AddBackbone_def)
next
  case (Inr conn)
  show ?thesis
  proof (cases "backbone_begin p g")
    case (Inl x)
    then show ?thesis using assms Inr by (auto simp: AddBackbone_def)
  next
    case b: (Inr g1)
    let ?i = "ifaceName (gcInterfacePrefix (gcfg g1)) (bpIfID p)"
    obtain err us n2 where r: "addBackbone P ended conn ?i n = (err, us, n2)" by (metis prod_cases3)
    obtain x g2 where d: "backbone_end p conn ?i err g1 = (x, g2)" by fastforce
    obtain es where u: "grollback P (if x = None then [] else us) n2 = (es, n')" and g': "g2 = g'"
      using assms Inr b r d by (cases x) (auto simp: AddBackbone_def Let_def split: prod.splits)
    show ?thesis using begin_backbone [OF Inr b, of P js n] run_backbone [OF r, of js] end_backbone [OF d u, of js] g'
      by (meson converse_rtranclp_into_rtranclp rtranclp.rtrancl_refl)
  qed
qed

definition sim_up :: "Gateway \<times> sim_daemon" where
  "sim_up = (case Start sim_gplane sim_gateway ([], []) of (_, g, n) \<Rightarrow> case AddBackbone sim_gplane False sim_gpeer g n of (_, g, n) \<Rightarrow> (g, n))"

lemma sim_up_steps: "(gstep sim_gplane)\<^sup>*\<^sup>* (sim_gateway, {#}, ([], [])) (fst sim_up, {#}, snd sim_up)"
proof -
  obtain e1 g1 n1 where 1: "Start sim_gplane sim_gateway ([], []) = (e1, g1, n1)" by (metis prod_cases3)
  obtain e2 g2 n2 where 2: "AddBackbone sim_gplane False sim_gpeer g1 n1 = (e2, g2, n2)" by (metis prod_cases3)
  show ?thesis using rtranclp_trans [OF Start_steps [OF 1] AddBackbone_steps [OF 2]] by (simp add: sim_up_def 1 2)
qed


text \<open>
  The other way round the roles are not apart: the backbone key is a candidate for a client that gives a
  backbone peer's identity as its own, so it authenticates as a client.
\<close>

lemma backbone_key_in_client_exchange:
  "\<exists>s \<in> candidates (set (fst (snd sim_up))) (gcLocalID (gcfg (fst sim_up))) ''peer''. ssPSK s = gcBackbonePSK (gcfg (fst sim_up))"
proof -
  have "list_ex (\<lambda>s. ''peer'' \<in> set (ssOwners s) \<and> ssPSK s = gcBackbonePSK (gcfg (fst sim_up))) (fst (snd sim_up))" by code_simp
  then show ?thesis by (auto simp: candidates_def list_ex_iff)
qed

section \<open>Starting and closing\<close>

text \<open>A close that runs while a start is under way, in an order the locks allow.\<close>

definition start_close :: "Gateway \<times> sim_daemon" where
  "start_close =
     (case start_begin sim_gateway of Inl _ \<Rightarrow> (sim_gateway, ([], [])) | Inr g1 \<Rightarrow>
      case gclose_begin g1 of (what, g2) \<Rightarrow>
      case gclose_end sim_gplane what g2 ([], []) of (_, g3, n1) \<Rightarrow>
      case start_run sim_gplane g3 n1 of (err, us, g4, n2) \<Rightarrow>
      case start_end sim_gplane err us g4 n2 of (_, g5, n3) \<Rightarrow> (g5, n3))"


text \<open>Of two gateways that know each other by their backbone identities exactly one initiates.\<close>

lemma one_side_initiates:
  assumes "bpID pb = gcBackboneID cb" "bpID pa = gcBackboneID ca" "gcBackboneID ca \<noteq> gcBackboneID cb"
  shows "(cStart (backboneConnection ca pb) = StartStart) \<noteq> (cStart (backboneConnection cb pa) = StartStart)"
proof -
  have "StartNone \<noteq> StartStart" by (simp add: StartNone_def StartStart_def)
  then show ?thesis using assms by (auto simp: backboneConnection_def Let_def)
qed

end
