(* ===== verification/Spec2Isabelle.thy ===== *)
theory Spec2Isabelle
  imports Wire SessionBind Reorder Store Ownership EpochGate Membership Policy Failover Handoff Cost FlapGuard Decider
    FileStore ControllerProps LongPoll GatewayFence GatewayForward IPsecConfig
    RouteSet Flow BucketRoute PeerManager Iptables IPsecRollback IPsecGatewayProps
begin

text \<open>
  \<^bold>\<open>Egressa\<close> is a VPN whose client enters the network at an \<^emph>\<open>access\<close> gateway and leaves it at an
  \<^emph>\<open>egress\<close> gateway, and moves a live session to another access gateway without changing its egress.
  This development models the Go sources under \<^verbatim>\<open>src/\<close> as HOL functions and step relations and proves what
  keeps a session safe while it moves.

  \<^bold>\<open>How the parts work together.\<close> A controller keeps gateways, sessions and, for each session, an ownership
  record (access, egress, epoch) in a key-value store. A record is replaced only by one with a higher epoch.
  Gateways poll the controller, compute a plan and bring their host in line with it. They fence packets
  whose header has an epoch below the one they know. The client measures paths, decides when to move, asks
  the controller to migrate and puts the epoch and a sequence number on every datagram. The receiver
  restores the order across a move. The data plane is WireGuard or IPsec.

  \<^bold>\<open>Theories, the code they model and what they show.\<close>

  \<^item> \<open>Prelude\<close>: integers, time, Go maps, shared lemmas. \<open>Netip\<close>, \<open>Json\<close>, \<open>F64\<close>: the parts of \<^verbatim>\<open>net/netip\<close>,
    \<^verbatim>\<open>encoding/json\<close> (on parsed documents) and \<^verbatim>\<open>float64\<close> (reals with infinities and NaN, without
    rounding) that the sources use.
  \<^item> \<open>Wire\<close> (\<^verbatim>\<open>pkg/wire\<close>), \<open>SessionBind\<close> (\<^verbatim>\<open>internal/tunnel/sessionbind.go\<close>): the packet header byte by byte and
    the layer that adds and strips it. Encoding round trips; consecutive stamping; the in-place receive loop.
  \<^item> \<open>Reorder\<close> (\<^verbatim>\<open>internal/reorder\<close>): the receiver with 64-bit sequence numbers. In-order delivery, each packet
    once; repair of every reordering within the window; bounded memory; stale epochs refused.
  \<^item> \<open>Store\<close>, \<open>Ownership\<close>, \<open>EpochGate\<close>, \<open>Membership\<close>, \<open>Policy\<close>, \<open>Failover\<close> (\<^verbatim>\<open>internal/control\<close>): the in-memory store with
    revisions and watches and the services on it. The contract of a store is the locale \<open>kv_store\<close>, an
    extension of \<open>fenced_store\<close>; the services are proved for every store with that contract. Epochs of a session
    strictly increase however many writers race; a gate admits exactly what is not stale (locale
    \<open>epoch_fence\<close>); reconciling after a failover converges.
  \<^item> \<open>FileStore\<close> (\<^verbatim>\<open>internal/controller/filestore.go\<close>): the second instance of \<open>kv_store\<close>, with failing saves.
  \<^item> \<open>Handoff\<close> (\<^verbatim>\<open>internal/handoff\<close>): arming, cutover, drain and rollback.
  \<^item> \<open>Cost\<close>, \<open>FlapGuard\<close> (\<^verbatim>\<open>internal/measurement\<close>) and \<open>Decider\<close> (\<^verbatim>\<open>internal/client/decide.go\<close>): what a path costs,
    when evidence suffices to move, and the client's decision, sound on NaN and infinite values.
  \<^item> \<open>Api\<close>, \<open>Keys\<close>, \<open>Allocate\<close>, \<open>Controller\<close>, \<open>ControllerInv\<close>, \<open>ControllerProps\<close>, \<open>LongPoll\<close> (\<^verbatim>\<open>internal/api/types.go\<close>,
    \<^verbatim>\<open>internal/tunnel/keys.go\<close>, \<^verbatim>\<open>internal/controller/server.go\<close>): every handler as a function of the server. Addresses
    stay unique over any history of requests; migration is a compare-and-swap; no lost wakeup.
  \<^item> \<open>GatewayPlan\<close>, \<open>GatewayAgent\<close>, \<open>GatewayFence\<close>, \<open>GatewayForward\<close> (\<^verbatim>\<open>internal/gateway\<close>): plans and their application,
    with every host command and its failure. The packet path refines the epoch gate; the forwarding rules
    follow the plan.
  \<^item> \<open>Flow\<close>, \<open>BucketRoute\<close>, \<open>Iptables\<close>, \<open>PeerManager\<close> (\<^verbatim>\<open>internal/tunnel\<close>): flow pinning and its sharding, marks, tables
    and the full tunnel, address translation, WireGuard peers and standby paths.
  \<^item> \<open>IPsecConfig\<close>, \<open>RouteSet\<close>, \<open>IPsecClient\<close>, \<open>IPsecClientProps\<close>, \<open>IPsecRollback\<close>, \<open>IPsecGateway\<close>, \<open>IPsecGatewayProps\<close>
    (\<^verbatim>\<open>internal/ipsec\<close>): connections and their rendering, route sets, and both ends of the data plane. Calls
    that release their lock in the middle are one definition for each part, and the properties hold of every
    interleaving of the parts.

  \<^bold>\<open>State, errors and the outside.\<close> A struct is a record with the source's fields; a method takes the record
  and returns it updated. An error is a value of a sum or an option. The kernel, the IKE daemon, the commands
  \<^verbatim>\<open>ip\<close> and \<^verbatim>\<open>iptables\<close>, the WireGuard device and the hash functions are records of functions that the
  definitions take as a parameter. What a property needs of them is a named predicate among its hypotheses,
  and its witness runs on a simulated instance. Concurrency is an \<^theory_text>\<open>inductive\<close> step relation: \<open>sys_step\<close>
  (callers of \<open>SetIfNewer\<close>), \<open>poll_step\<close> (a long poll among requests), \<open>cstep\<close> and \<open>gstep\<close> (parts of the IPsec calls).

  \<^bold>\<open>Loops and bounds.\<close> Loops are structural recursions, or have a termination proof (\<open>alloc_loop\<close>, \<open>drain\<close>). The
  retry loop of \<open>SetIfNewer\<close> has no bound in the source: its body is \<open>sin_step\<close>, and the unbounded, interleaved loop
  is \<open>sys_step\<close>. The function \<open>SetIfNewer\<close>, for a caller with no other writer, allows three steps (revision,
  read, swap); that these end with an answer is proved for every store with the contract whose records are readable.
  Time is an unbounded number of nanoseconds.

  \<^bold>\<open>Findings.\<close> Some lemmas show behaviour the sources do not intend. Among them: a watch cancelled while a write
  notifies makes the writer panic (\<open>Store\<close>); a rule whose deletion failed is forgotten and a table without its
  blackhole counts as ready (\<open>GatewayForward\<close>); a failed save stays visible (\<open>FileStore\<close>); an incomparable bound
  hides a better path (\<open>Decider\<close>); a key has several texts (\<open>Keys\<close>); a rule of another mark is taken for one's own
  (\<open>BucketRoute\<close>); standby paths with one key share a peer (\<open>PeerManager\<close>); a gateway is removed while it becomes
  the active one, and an empty name reserves nothing (\<open>IPsecClientProps\<close>); a gateway closed while it starts
  stays loaded, and the backbone key can serve in a client's exchange (\<open>IPsecGatewayProps\<close>).

  \<^bold>\<open>Not modelled.\<close>
  \<^item> Adapters that only forward to third-party code: \<^verbatim>\<open>internal/control/etcdstore.go\<close>, \<^verbatim>\<open>internal/ipsec/vici.go\<close> and
    the netlink files, \<^verbatim>\<open>internal/tunnel/device.go\<close>, \<^verbatim>\<open>realdevice.go\<close> and \<^verbatim>\<open>roles.go\<close>, \<^verbatim>\<open>internal/api/client.go\<close>.
  \<^item> Waiting for events and timers: \<^verbatim>\<open>internal/ipsec/wait.go\<close>, \<open>WaitBackbone\<close>, the polling and reporting loops of the
    gateway agent.
  \<^item> The client agent (\<^verbatim>\<open>internal/client/agent.go\<close>, \<^verbatim>\<open>ipsec.go\<close>, \<^verbatim>\<open>state.go\<close>, \<^verbatim>\<open>status.go\<close>): goroutines that start devices and
    call the controller. The decision they act on is modelled.
  \<^item> How statistics are collected (the other files of \<^verbatim>\<open>internal/measurement\<close> and \<^verbatim>\<open>internal/pathmon\<close>): probes over the
    network and floating-point estimators whose rounding \<open>F64\<close> leaves out. Their results are inputs of \<open>Cost\<close>.
  \<^item> Output and process control: \<^verbatim>\<open>internal/telemetry\<close>, \<^verbatim>\<open>internal/netem\<close>, \<^verbatim>\<open>cmd\<close>, logging, the wording of errors.
\<close>

end
